(* ===== verification/Prelude.thy ===== *)
theory Prelude
  imports Main "HOL-Library.Word" "HOL-Library.Sublist" "HOL-Library.Multiset"
begin

unbundle bit_operations_syntax

text \<open>
  The vocabulary every component shares.

  \<^item> Machine integers are words of their width; a \<open>usize\<close> that counts elements of a buffer is
    a \<open>nat\<close>, and the arithmetic of the release build (which wraps) is word arithmetic.
  \<^item> \<open>bytes\<close> is a Rust \<open>[u8]\<close> or \<open>Vec<u8>\<close>. \<open>str\<close> is a Rust \<open>str\<close> or \<open>String\<close>:
    the list of its Unicode scalar values, as \<open>chars()\<close> yields them. HOL's \<open>char\<close> is one byte,
    so a scalar value is a \<open>nat\<close>; a literal of the source is written \<open>S ''abc''\<close> (and
    \<open>B ''abc''\<close> for a byte string).
  \<^item> \<open>error\<close> is the \<open>Error\<close> enum of src/src/error.rs, with its \<open>Display\<close> text
    (\<open>error_display\<close>), and \<open>'a result\<close> is Rust's \<open>Result\<close>. A panic is not a value in Rust; it
    is the extra constructor \<open>Panic\<close> here, so that "never panics" is a statement about results.
  \<^item> \<open>ordering\<close> is Rust's \<open>Ordering\<close>.
\<close>

section \<open>Collections of facts\<close>

named_theorems bytes_simps
  \<open>little- and big-endian field access on concrete and symbolic buffers\<close>
named_theorems str_simps
  \<open>evaluation of the string operations\<close>

section \<open>Machine types\<close>

type_synonym u8 = "8 word"
type_synonym u16 = "16 word"
type_synonym u32 = "32 word"
type_synonym u64 = "64 word"
type_synonym bytes = "u8 list"
type_synonym str = "nat list"

abbreviation S :: "string \<Rightarrow> str" where
  "S s \<equiv> map of_char s"

abbreviation B :: "string \<Rightarrow> bytes" where
  "B s \<equiv> map of_char s"

abbreviation ch :: "char \<Rightarrow> nat" where
  "ch c \<equiv> of_char c"

section \<open>Results and errors\<close>

datatype error =
    Io str
  | OutOfBounds u64 nat u64
  | UnknownImageFormat str
  | Qcow2Error str
  | Qcow2Unsupported str
  | GptError str
  | NoPartitions
  | NoSuchPartition nat
  | UnknownFilesystem "str option"
  | Ext4Error str
  | VfatError str
  | NotFound str
  | NotADirectory str
  | NoBootArtifacts
  | KernelDecompress str
  | HttpError str
  | Panic

type_synonym 'a result = "error + 'a"

abbreviation Ok :: "'a \<Rightarrow> 'a result" where
  "Ok x \<equiv> Inr x"

abbreviation Err :: "error \<Rightarrow> 'a result" where
  "Err e \<equiv> Inl e"

text \<open>
  The \<open>?\<close> operator, \<open>map_err\<close> (which a panic passes unchanged), \<open>ok()\<close>, and \<open>ok_or\<close>.
\<close>

definition rbind :: "'a result \<Rightarrow> ('a \<Rightarrow> 'b result) \<Rightarrow> 'b result" where
  "rbind r k = (case r of Inl e \<Rightarrow> Err e | Inr x \<Rightarrow> k x)"

definition res_ok :: "'a result \<Rightarrow> 'a option" where
  "res_ok r = (case r of Inl _ \<Rightarrow> None | Inr x \<Rightarrow> Some x)"

definition map_err :: "(error \<Rightarrow> error) \<Rightarrow> 'a result \<Rightarrow> 'a result" where
  "map_err f r = (case r of Inl e \<Rightarrow> Err (if e = Panic then Panic else f e) | Inr x \<Rightarrow> Ok x)"

definition ok_or :: "'a option \<Rightarrow> error \<Rightarrow> 'a result" where
  "ok_or x e = (case x of None \<Rightarrow> Err e | Some v \<Rightarrow> Ok v)"

lemma rbind_simps [simp]:
  "rbind (Err e) k = Err e"
  "rbind (Ok x) k = k x"
  by (simp_all add: rbind_def)

lemma rbind_eq_Ok: "rbind r k = Ok y \<longleftrightarrow> (\<exists>x. r = Ok x \<and> k x = Ok y)"
  by (cases r) auto

lemma rbind_eq_Err: "rbind r k = Err e \<longleftrightarrow> r = Err e \<or> (\<exists>x. r = Ok x \<and> k x = Err e)"
  by (cases r) auto

lemma rbind_assoc: "rbind (rbind r k) l = rbind r (\<lambda>x. rbind (k x) l)"
  by (cases r) auto

lemma rbind_cong [fundef_cong]:
  "r = r' \<Longrightarrow> (\<And>x. r' = Ok x \<Longrightarrow> k x = k' x) \<Longrightarrow> rbind r k = rbind r' k'"
  by (cases r') auto

lemma res_ok_simps [simp]:
  "res_ok (Err e) = None"
  "res_ok (Ok x) = Some x"
  by (simp_all add: res_ok_def)

lemma res_ok_eq_Some [simp]: "res_ok r = Some x \<longleftrightarrow> r = Ok x"
  by (cases r) auto

lemma res_ok_eq_None: "res_ok r = None \<longleftrightarrow> (\<exists>e. r = Err e)"
  by (cases r) auto

lemma map_err_simps [simp]:
  "map_err f (Err e) = Err (if e = Panic then Panic else f e)"
  "map_err f (Ok x) = Ok x"
  by (simp_all add: map_err_def)

lemma map_err_eq_Ok [simp]: "map_err f r = Ok x \<longleftrightarrow> r = Ok x"
  by (cases r) auto

lemma ok_or_simps [simp]:
  "ok_or None e = Err e"
  "ok_or (Some x) e = Ok x"
  by (simp_all add: ok_or_def)

lemma ok_or_eq_Ok [simp]: "ok_or x e = Ok v \<longleftrightarrow> x = Some v"
  by (cases x) auto

section \<open>Options\<close>

text \<open>\<open>Option::or\<close> and \<open>Option::or_else\<close>; \<open>unwrap_or\<close>.\<close>

definition opt_or :: "'a option \<Rightarrow> 'a option \<Rightarrow> 'a option" where
  "opt_or x y = (case x of None \<Rightarrow> y | Some v \<Rightarrow> Some v)"

definition unwrap_or :: "'a option \<Rightarrow> 'a \<Rightarrow> 'a" where
  "unwrap_or x d = (case x of None \<Rightarrow> d | Some v \<Rightarrow> v)"

lemma opt_or_simps [simp]:
  "opt_or None y = y"
  "opt_or (Some v) y = Some v"
  by (simp_all add: opt_or_def)

lemma opt_or_None_right [simp]: "opt_or x None = x"
  by (cases x) auto

lemma opt_or_eq_None: "opt_or x y = None \<longleftrightarrow> x = None \<and> y = None"
  by (cases x) auto

lemma opt_or_cases:
  "opt_or x y = Some v \<Longrightarrow> (x = Some v \<Longrightarrow> P) \<Longrightarrow> (x = None \<Longrightarrow> y = Some v \<Longrightarrow> P) \<Longrightarrow> P"
  by (cases x) auto

lemma unwrap_or_simps [simp]:
  "unwrap_or None d = d"
  "unwrap_or (Some v) d = v"
  by (simp_all add: unwrap_or_def)

section \<open>Iterators over lists\<close>

text \<open>\<open>iter().position(p)\<close>: the index of the first element that satisfies \<open>p\<close>.\<close>

fun position :: "('a \<Rightarrow> bool) \<Rightarrow> 'a list \<Rightarrow> nat option" where
  "position p [] = None"
| "position p (x # xs) = (if p x then Some 0 else map_option Suc (position p xs))"

lemma position_Some:
  "position p xs = Some i \<longleftrightarrow> i < length xs \<and> p (xs ! i) \<and> (\<forall>j < i. \<not> p (xs ! j))"
proof (induction xs arbitrary: i)
  case Nil
  then show ?case by simp
next
  case (Cons x xs)
  then show ?case
    by (cases i) (auto simp: less_Suc_eq_0_disj)
qed

lemma position_None: "position p xs = None \<longleftrightarrow> (\<forall>x \<in> set xs. \<not> p x)"
  by (induction xs) auto

lemma position_lt: "position p xs = Some i \<Longrightarrow> i < length xs"
  by (simp add: position_Some)

lemma position_is_Some: "x \<in> set xs \<Longrightarrow> p x \<Longrightarrow> \<exists>i. position p xs = Some i"
  using position_None [of p xs] by auto

lemma position_map: "position p (map f xs) = position (\<lambda>x. p (f x)) xs"
  by (induction xs) simp_all

lemma position_cong: "(\<And>x. x \<in> set xs \<Longrightarrow> p x = q x) \<Longrightarrow> position p xs = position q xs"
  by (induction xs) simp_all

lemma find_Some_in: "find p xs = Some x \<Longrightarrow> x \<in> set xs \<and> p x"
  by (auto simp: find_Some_iff)

text \<open>\<open>get(i)\<close> and \<open>get(a..b)\<close> on slices.\<close>

definition get :: "'a list \<Rightarrow> nat \<Rightarrow> 'a option" where
  "get xs i = (if i < length xs then Some (xs ! i) else None)"

definition get_range :: "'a list \<Rightarrow> nat \<Rightarrow> nat \<Rightarrow> 'a list option" where
  "get_range xs a b = (if a \<le> b \<and> b \<le> length xs then Some (take (b - a) (drop a xs)) else None)"

lemma get_Some [simp]: "get xs i = Some x \<longleftrightarrow> i < length xs \<and> x = xs ! i"
  by (auto simp: get_def)

lemma get_range_Some:
  "get_range xs a b = Some ys \<longleftrightarrow> a \<le> b \<and> b \<le> length xs \<and> ys = take (b - a) (drop a xs)"
  by (auto simp: get_range_def)

lemma get_range_length: "get_range xs a b = Some ys \<Longrightarrow> length ys = b - a"
  by (auto simp: get_range_Some)

lemma get_range_take:
  "b \<le> n \<Longrightarrow> get_range (take n xs) a b = (if b \<le> length xs then get_range xs a b else None)"
  by (auto simp: get_range_def drop_take min_def)

section \<open>Orderings and sorting\<close>

datatype ordering = Less | Equal | Greater

fun ord_reverse :: "ordering \<Rightarrow> ordering" where
  "ord_reverse Less = Greater"
| "ord_reverse Equal = Equal"
| "ord_reverse Greater = Less"

text \<open>\<open>then_with\<close>: the second comparison decides only ties of the first.\<close>

definition then_with :: "ordering \<Rightarrow> ordering \<Rightarrow> ordering" where
  "then_with a b = (if a = Equal then b else a)"

text \<open>\<open>cmp\<close> on integers and, lexicographically, on slices.\<close>

definition cmp_of :: "'a::linorder \<Rightarrow> 'a \<Rightarrow> ordering" where
  "cmp_of x y = (if x < y then Less else if x = y then Equal else Greater)"

fun cmp_list :: "'a::linorder list \<Rightarrow> 'a list \<Rightarrow> ordering" where
  "cmp_list [] [] = Equal"
| "cmp_list [] (_ # _) = Less"
| "cmp_list (_ # _) [] = Greater"
| "cmp_list (x # xs) (y # ys) = then_with (cmp_of x y) (cmp_list xs ys)"

lemma ord_reverse_simps [simp]:
  "ord_reverse (ord_reverse a) = a"
  "ord_reverse a = Equal \<longleftrightarrow> a = Equal"
  "ord_reverse a = Less \<longleftrightarrow> a = Greater"
  "ord_reverse a = Greater \<longleftrightarrow> a = Less"
  by (cases a; simp)+

lemma cmp_of_eq:
  "cmp_of x y = Less \<longleftrightarrow> x < y"
  "cmp_of x y = Equal \<longleftrightarrow> x = y"
  "cmp_of x y = Greater \<longleftrightarrow> y < x"
  by (auto simp: cmp_of_def)

lemma cmp_of_swap: "cmp_of y x = ord_reverse (cmp_of x y)"
  by (auto simp: cmp_of_def)

lemma then_with_eq_Equal [simp]: "then_with a b = Equal \<longleftrightarrow> a = Equal \<and> b = Equal"
  by (simp add: then_with_def)

lemma then_with_reverse: "ord_reverse (then_with a b) = then_with (ord_reverse a) (ord_reverse b)"
  by (simp add: then_with_def)

lemma cmp_list_Equal [simp]: "cmp_list xs ys = Equal \<longleftrightarrow> xs = ys"
  by (induction xs ys rule: cmp_list.induct) (auto simp: cmp_of_eq)

lemma cmp_list_swap: "cmp_list ys xs = ord_reverse (cmp_list xs ys)"
proof (induction xs ys rule: cmp_list.induct)
  case (4 x xs y ys)
  then show ?case by (simp add: then_with_reverse cmp_of_swap [of y x])
qed simp_all

lemma cmp_list_trans_le:
  "cmp_list xs ys \<noteq> Greater \<Longrightarrow> cmp_list ys zs \<noteq> Greater \<Longrightarrow> cmp_list xs zs \<noteq> Greater"
proof (induction xs ys arbitrary: zs rule: cmp_list.induct)
  case (4 x xs y ys)
  then show ?case
    by (cases zs) (auto simp: then_with_def cmp_of_eq split: if_splits)
next
  case (1)
  then show ?case by simp
next
  case (2 y ys)
  then show ?case by (cases zs) auto
next
  case (3 x xs)
  then show ?case by simp
qed

text \<open>
  \<open>sort_by\<close> is a stable sort: an insertion sort that keeps equal elements in their order. With a
  comparison that is a total preorder any stable sort gives the same list.
\<close>

fun insert_by :: "('a \<Rightarrow> 'a \<Rightarrow> ordering) \<Rightarrow> 'a \<Rightarrow> 'a list \<Rightarrow> 'a list" where
  "insert_by cmp x [] = [x]"
| "insert_by cmp x (y # ys) =
     (if cmp x y = Greater then y # insert_by cmp x ys else x # y # ys)"

definition sort_by :: "('a \<Rightarrow> 'a \<Rightarrow> ordering) \<Rightarrow> 'a list \<Rightarrow> 'a list" where
  "sort_by cmp xs = foldr (insert_by cmp) xs []"

lemma sort_by_simps [simp]:
  "sort_by cmp [] = []"
  "sort_by cmp (x # xs) = insert_by cmp x (sort_by cmp xs)"
  by (simp_all add: sort_by_def)

lemma length_insert_by [simp]: "length (insert_by cmp x xs) = Suc (length xs)"
  by (induction xs) auto

lemma set_insert_by [simp]: "set (insert_by cmp x xs) = insert x (set xs)"
  by (induction xs) auto

lemma length_sort_by [simp]: "length (sort_by cmp xs) = length xs"
  by (induction xs) auto

lemma set_sort_by [simp]: "set (sort_by cmp xs) = set xs"
  by (induction xs) auto

lemma mset_insert_by [simp]: "mset (insert_by cmp x xs) = add_mset x (mset xs)"
  by (induction xs) auto

lemma mset_sort_by [simp]: "mset (sort_by cmp xs) = mset xs"
  by (induction xs) auto

lemma sort_by_Nil_iff [simp]: "sort_by cmp xs = [] \<longleftrightarrow> xs = []"
  by (metis length_0_conv length_sort_by)

text \<open>
  What \<open>sort_by\<close> needs of its comparison (Rust's sort may panic or scramble otherwise), and what
  it then gives: a sorted list in which elements that compare equal keep their order.
\<close>

locale total_preorder_cmp =
  fixes cmp :: "'a \<Rightarrow> 'a \<Rightarrow> ordering"
  assumes cmp_swap: "cmp y x = ord_reverse (cmp x y)"
    and cmp_le_trans: "cmp x y \<noteq> Greater \<Longrightarrow> cmp y z \<noteq> Greater \<Longrightarrow> cmp x z \<noteq> Greater"
begin

lemma cmp_refl: "cmp x x = Equal"
  using cmp_swap [of x x] by (cases "cmp x x") auto

lemma cmp_total: "cmp x y \<noteq> Greater \<or> cmp y x \<noteq> Greater"
  using cmp_swap [of x y] by (cases "cmp x y") auto

lemma cmp_equal_trans: "cmp x y = Equal \<Longrightarrow> cmp y z = Equal \<Longrightarrow> cmp x z = Equal"
proof -
  assume xy: "cmp x y = Equal" and yz: "cmp y z = Equal"
  have "cmp y x = Equal" "cmp z y = Equal"
    using cmp_swap [of y x] cmp_swap [of z y] xy yz by simp_all
  then have "cmp z x \<noteq> Greater" "cmp x z \<noteq> Greater"
    using cmp_le_trans [of z y x] cmp_le_trans [of x y z] xy yz by simp_all
  then show ?thesis using cmp_swap [of z x] by (cases "cmp x z") auto
qed

lemma insert_by_sorted:
  "sorted_wrt (\<lambda>x y. cmp x y \<noteq> Greater) xs \<Longrightarrow>
   sorted_wrt (\<lambda>x y. cmp x y \<noteq> Greater) (insert_by cmp x xs)"
proof (induction xs)
  case Nil
  then show ?case by simp
next
  case (Cons y ys)
  show ?case
  proof (cases "cmp x y = Greater")
    case True
    then have "cmp y x \<noteq> Greater" using cmp_swap [of y x] by simp
    with True Cons show ?thesis by auto
  next
    case False
    moreover from this Cons.prems have "cmp x z \<noteq> Greater" if "z \<in> set ys" for z
      using that cmp_le_trans [of x y z] by auto
    ultimately show ?thesis using Cons.prems by auto
  qed
qed

lemma sort_by_sorted: "sorted_wrt (\<lambda>x y. cmp x y \<noteq> Greater) (sort_by cmp xs)"
  by (induction xs) (auto intro: insert_by_sorted)

lemma insert_by_stable:
  "filter (\<lambda>y. cmp a y = Equal) (insert_by cmp x xs) =
   filter (\<lambda>y. cmp a y = Equal) (x # xs)"
proof (induction xs)
  case Nil
  then show ?case by simp
next
  case (Cons y ys)
  have "\<not> (cmp a x = Equal \<and> cmp a y = Equal)" if "cmp x y = Greater"
  proof
    assume "cmp a x = Equal \<and> cmp a y = Equal"
    then have "cmp x y = Equal"
      using cmp_swap [of a x] cmp_equal_trans [of x a y] by simp
    with that show False by simp
  qed
  with Cons show ?case by auto
qed

lemma sort_by_stable:
  "filter (\<lambda>y. cmp a y = Equal) (sort_by cmp xs) = filter (\<lambda>y. cmp a y = Equal) xs"
proof (induction xs)
  case (Cons x xs)
  then show ?case by (simp add: insert_by_stable)
qed simp

end

text \<open>Sorting by a key, and against the order, keeps the contract.\<close>

lemma total_preorder_cmp_key:
  assumes "total_preorder_cmp cmp"
  shows "total_preorder_cmp (\<lambda>x y. cmp (f x) (f y))"
  using total_preorder_cmp.cmp_swap [OF assms] total_preorder_cmp.cmp_le_trans [OF assms]
  by unfold_locales

lemma total_preorder_cmp_flip:
  assumes "total_preorder_cmp cmp"
  shows "total_preorder_cmp (\<lambda>x y. cmp y x)"
  using total_preorder_cmp.cmp_swap [OF assms] total_preorder_cmp.cmp_le_trans [OF assms]
  by unfold_locales blast+

end
