(* ===== verification/Rust_Str.thy ===== *)
theory Rust_Str
  imports Prelude
begin

text \<open>
  The string operations of Rust's standard library that the code calls, over lists of Unicode
  scalar values: prefixes and suffixes, splitting, trimming, \<open>lines()\<close>, number parsing and
  formatting, ASCII case, and the UTF-8 decoding of \<open>String::from_utf8_lossy\<close>. Each is executable.
  The lemmas say what the parsers of the other theories rely on: splitting and joining are inverse,
  trimming leaves no outer white space, parsing undoes formatting, and lossy decoding undoes
  \<open>as_bytes()\<close>.
\<close>

section \<open>Prefixes and suffixes\<close>

text \<open>\<open>strip_prefix\<close>, \<open>strip_suffix\<close>, \<open>starts_with\<close>, \<open>ends_with\<close>; the pattern comes first.\<close>

fun strip_prefix :: "'a list \<Rightarrow> 'a list \<Rightarrow> 'a list option" where
  "strip_prefix [] s = Some s"
| "strip_prefix (_ # _) [] = None"
| "strip_prefix (p # ps) (c # cs) = (if p = c then strip_prefix ps cs else None)"

definition starts_with :: "'a list \<Rightarrow> 'a list \<Rightarrow> bool" where
  "starts_with p s \<longleftrightarrow> strip_prefix p s \<noteq> None"

definition strip_suffix :: "'a list \<Rightarrow> 'a list \<Rightarrow> 'a list option" where
  "strip_suffix p s = map_option rev (strip_prefix (rev p) (rev s))"

definition ends_with :: "'a list \<Rightarrow> 'a list \<Rightarrow> bool" where
  "ends_with p s \<longleftrightarrow> strip_suffix p s \<noteq> None"

lemma strip_prefix_Some: "strip_prefix p s = Some r \<longleftrightarrow> s = p @ r"
  by (induction p s rule: strip_prefix.induct) auto

lemma strip_prefix_append [simp]: "strip_prefix p (p @ r) = Some r"
  by (simp add: strip_prefix_Some)

lemma strip_prefix_None: "strip_prefix p s = None \<longleftrightarrow> (\<forall>r. s \<noteq> p @ r)"
  using strip_prefix_Some [of p s] by (metis not_Some_eq)

lemma starts_with_iff: "starts_with p s \<longleftrightarrow> (\<exists>r. s = p @ r)"
  by (auto simp: starts_with_def strip_prefix_Some)

lemma starts_with_Nil [simp]: "starts_with [] s"
  by (simp add: starts_with_def)

lemma starts_with_Cons [simp]:
  "starts_with (p # ps) (c # cs) \<longleftrightarrow> p = c \<and> starts_with ps cs"
  "\<not> starts_with (p # ps) []"
  by (simp_all add: starts_with_def)

lemma starts_with_append [simp]: "starts_with p (p @ r)"
  by (simp add: starts_with_def)

lemma starts_with_take: "starts_with p s \<longleftrightarrow> take (length p) s = p"
  by (metis append_eq_conv_conj starts_with_iff)

lemma strip_suffix_Some: "strip_suffix p s = Some r \<longleftrightarrow> s = r @ p"
  by (auto simp: strip_suffix_def strip_prefix_Some) (metis rev_append rev_rev_ident)

lemma strip_suffix_append [simp]: "strip_suffix p (r @ p) = Some r"
  by (simp add: strip_suffix_Some)

lemma ends_with_iff: "ends_with p s \<longleftrightarrow> (\<exists>r. s = r @ p)"
  by (auto simp: ends_with_def strip_suffix_Some)

lemma length_strip_suffix: "strip_suffix p s = Some r \<Longrightarrow> length s = length r + length p"
  by (simp add: strip_suffix_Some)

section \<open>Splitting\<close>

text \<open>
  \<open>split(c)\<close> (never empty), \<open>split_once\<close>, \<open>rsplit_once\<close>, all by a predicate on characters; and
  \<open>join\<close>.
\<close>

fun split_by :: "('a \<Rightarrow> bool) \<Rightarrow> 'a list \<Rightarrow> 'a list list" where
  "split_by P [] = [[]]"
| "split_by P (c # cs) =
     (if P c then [] # split_by P cs
      else case split_by P cs of [] \<Rightarrow> [[c]] | w # ws \<Rightarrow> (c # w) # ws)"

fun split_once_by :: "('a \<Rightarrow> bool) \<Rightarrow> 'a list \<Rightarrow> ('a list \<times> 'a list) option" where
  "split_once_by P [] = None"
| "split_once_by P (c # cs) =
     (if P c then Some ([], cs)
      else map_option (\<lambda>(a, b). (c # a, b)) (split_once_by P cs))"

definition rsplit_once_by :: "('a \<Rightarrow> bool) \<Rightarrow> 'a list \<Rightarrow> ('a list \<times> 'a list) option" where
  "rsplit_once_by P s = map_option (\<lambda>(a, b). (rev b, rev a)) (split_once_by P (rev s))"

abbreviation split_on :: "'a \<Rightarrow> 'a list \<Rightarrow> 'a list list" where
  "split_on c \<equiv> split_by (\<lambda>x. x = c)"

abbreviation split_once :: "'a \<Rightarrow> 'a list \<Rightarrow> ('a list \<times> 'a list) option" where
  "split_once c \<equiv> split_once_by (\<lambda>x. x = c)"

abbreviation rsplit_once :: "'a \<Rightarrow> 'a list \<Rightarrow> ('a list \<times> 'a list) option" where
  "rsplit_once c \<equiv> rsplit_once_by (\<lambda>x. x = c)"

text \<open>\<open>rsplit(c).next().unwrap_or(s)\<close>: what follows the last separator (the whole string if none).\<close>

definition after_last :: "'a \<Rightarrow> 'a list \<Rightarrow> 'a list" where
  "after_last c s = last (split_on c s)"

fun str_join :: "'a list \<Rightarrow> 'a list list \<Rightarrow> 'a list" where
  "str_join sep [] = []"
| "str_join sep [w] = w"
| "str_join sep (w # v # ws) = w @ sep @ str_join sep (v # ws)"

lemma split_by_not_Nil [simp]: "split_by P s \<noteq> []"
  by (induction s) (auto split: list.splits)

lemma split_by_no_sep: "w \<in> set (split_by P s) \<Longrightarrow> c \<in> set w \<Longrightarrow> \<not> P c"
  by (induction s arbitrary: w) (force split: if_splits list.splits)+

lemma split_by_plain: "\<forall>c \<in> set s. \<not> P c \<Longrightarrow> split_by P s = [s]"
  by (induction s) auto

lemma split_by_append: "P c \<Longrightarrow> split_by P (a @ c # b) = split_by P a @ split_by P b"
proof (induction a)
  case (Cons x a)
  then show ?case by (cases "split_by P a") auto
qed simp

lemma split_by_append_sep:
  "\<forall>x \<in> set a. \<not> P x \<Longrightarrow> P c \<Longrightarrow> split_by P (a @ c # b) = a # split_by P b"
  by (simp add: split_by_append split_by_plain)

lemma split_on_plain: "c \<notin> set s \<Longrightarrow> split_on c s = [s]"
  by (rule split_by_plain) auto

lemma split_on_append_sep: "c \<notin> set a \<Longrightarrow> split_on c (a @ c # b) = a # split_on c b"
  by (rule split_by_append_sep) auto

lemma join_split_on: "str_join [c] (split_on c s) = s"
proof (induction s)
  case Nil
  then show ?case by simp
next
  case (Cons x s)
  obtain w ws where w: "split_on c s = w # ws"
    by (cases "split_on c s") auto
  show ?case using Cons.IH w by (cases ws) auto
qed

lemma split_on_join:
  "ws \<noteq> [] \<Longrightarrow> \<forall>w \<in> set ws. c \<notin> set w \<Longrightarrow> split_on c (str_join [c] ws) = ws"
proof (induction "[c]" ws rule: str_join.induct)
  case (2 w)
  then show ?case by (simp add: split_on_plain)
next
  case (3 w v ws)
  then show ?case by (simp add: split_on_append_sep)
qed simp

lemma split_once_Some:
  "split_once_by P s = Some (a, b) \<longleftrightarrow>
   (\<exists>c. s = a @ c # b \<and> P c \<and> (\<forall>x \<in> set a. \<not> P x))"
proof (induction s arbitrary: a)
  case Nil
  then show ?case by simp
next
  case (Cons x s)
  then show ?case
    by (cases a) (auto simp: Cons_eq_append_conv)
qed

lemma split_once_append:
  "\<forall>x \<in> set a. \<not> P x \<Longrightarrow> P c \<Longrightarrow> split_once_by P (a @ c # b) = Some (a, b)"
  using split_once_Some [of P "a @ c # b" a b] by auto

lemma split_once_None: "split_once_by P s = None \<longleftrightarrow> (\<forall>x \<in> set s. \<not> P x)"
  by (induction s) auto

lemma after_last_append: "c \<notin> set b \<Longrightarrow> after_last c (a @ c # b) = b"
  by (simp add: after_last_def split_by_append split_on_plain)

lemma after_last_plain: "c \<notin> set s \<Longrightarrow> after_last c s = s"
  by (simp add: after_last_def split_on_plain)

lemma after_last_no_sep: "c \<notin> set (after_last c s)"
  using split_by_no_sep [of "after_last c s" "\<lambda>x. x = c" s c]
  by (auto simp: after_last_def)

section \<open>White space and trimming\<close>

text \<open>\<open>char::is_whitespace\<close>: the Unicode property \<open>White_Space\<close>.\<close>

definition is_whitespace :: "nat \<Rightarrow> bool" where
  "is_whitespace c \<longleftrightarrow>
     9 \<le> c \<and> c \<le> 13 \<or> c = 32 \<or> c = 0x85 \<or> c = 0xA0 \<or> c = 0x1680 \<or>
     0x2000 \<le> c \<and> c \<le> 0x200A \<or> c = 0x2028 \<or> c = 0x2029 \<or> c = 0x202F \<or>
     c = 0x205F \<or> c = 0x3000"

definition trim_start_by :: "('a \<Rightarrow> bool) \<Rightarrow> 'a list \<Rightarrow> 'a list" where
  "trim_start_by P s = dropWhile P s"

definition trim_end_by :: "('a \<Rightarrow> bool) \<Rightarrow> 'a list \<Rightarrow> 'a list" where
  "trim_end_by P s = rev (dropWhile P (rev s))"

definition str_trim :: "str \<Rightarrow> str" where
  "str_trim s = trim_end_by is_whitespace (trim_start_by is_whitespace s)"

definition split_whitespace :: "str \<Rightarrow> str list" where
  "split_whitespace s = filter (\<lambda>w. w \<noteq> []) (split_by is_whitespace s)"

text \<open>\<open>trim_end_matches("...")\<close> with a non-empty string pattern removes it as often as it occurs.\<close>

function trim_end_str :: "'a list \<Rightarrow> 'a list \<Rightarrow> 'a list" where
  "trim_end_str p s =
     (case strip_suffix p s of
        None \<Rightarrow> s
      | Some r \<Rightarrow> if p = [] then s else trim_end_str p r)"
  by pat_completeness auto
termination
  by (relation "measure (\<lambda>(p, s). length s)") (auto dest: length_strip_suffix)

declare trim_end_str.simps [simp del]

lemma trim_start_by_id: "s = [] \<or> \<not> P (hd s) \<Longrightarrow> trim_start_by P s = s"
  by (cases s) (auto simp: trim_start_by_def)

lemma trim_end_by_id: "s = [] \<or> \<not> P (last s) \<Longrightarrow> trim_end_by P s = s"
  by (cases s rule: rev_cases) (auto simp: trim_end_by_def)

lemma trim_end_by_prefix: "\<exists>r. s = trim_end_by P s @ r \<and> (\<forall>c \<in> set r. P c)"
proof -
  have "rev s = takeWhile P (rev s) @ dropWhile P (rev s)" by simp
  then have "s = rev (dropWhile P (rev s)) @ rev (takeWhile P (rev s))"
    by (metis rev_append rev_rev_ident)
  then show ?thesis
    by (intro exI [of _ "rev (takeWhile P (rev s))"])
      (auto simp: trim_end_by_def dest: set_takeWhileD)
qed

lemma trim_end_by_last: "trim_end_by P s \<noteq> [] \<Longrightarrow> \<not> P (last (trim_end_by P s))"
  using hd_dropWhile [of P "rev s"] by (auto simp: trim_end_by_def last_rev)

lemma str_trim_id: "s = [] \<or> \<not> is_whitespace (hd s) \<and> \<not> is_whitespace (last s) \<Longrightarrow> str_trim s = s"
  by (auto simp: str_trim_def trim_start_by_id trim_end_by_id)

lemma str_trim_hd: "str_trim s \<noteq> [] \<Longrightarrow> \<not> is_whitespace (hd (str_trim s))"
proof -
  let ?d = "dropWhile is_whitespace s"
  assume ne: "str_trim s \<noteq> []"
  obtain r where r: "?d = str_trim s @ r"
    using trim_end_by_prefix [of ?d is_whitespace]
    by (auto simp: str_trim_def trim_start_by_def)
  from ne r have "?d \<noteq> []" "hd (str_trim s) = hd ?d" by auto
  then show ?thesis using hd_dropWhile [of is_whitespace s] by simp
qed

lemma str_trim_last: "str_trim s \<noteq> [] \<Longrightarrow> \<not> is_whitespace (last (str_trim s))"
  by (simp add: str_trim_def trim_end_by_last)

lemma str_trim_idem [simp]: "str_trim (str_trim s) = str_trim s"
  using str_trim_hd [of s] str_trim_last [of s] str_trim_id [of "str_trim s"] by blast

lemma split_whitespace_words:
  "w \<in> set (split_whitespace s) \<Longrightarrow> w \<noteq> [] \<and> (\<forall>c \<in> set w. \<not> is_whitespace c)"
  by (auto simp: split_whitespace_def dest: split_by_no_sep)

lemma trim_end_str_not_suffix: "p \<noteq> [] \<Longrightarrow> \<not> ends_with p (trim_end_str p s)"
proof (induction p s rule: trim_end_str.induct)
  case (1 p s)
  then show ?case
    by (cases "strip_suffix p s") (auto simp: trim_end_str.simps [of p s] ends_with_def)
qed

lemma trim_end_str_id: "\<not> ends_with p s \<Longrightarrow> trim_end_str p s = s"
  by (auto simp: trim_end_str.simps [of p s] ends_with_def split: option.splits)

lemma trim_end_str_append: "p \<noteq> [] \<Longrightarrow> trim_end_str p (s @ p) = trim_end_str p s"
  by (simp add: trim_end_str.simps [of p "s @ p"])

section \<open>Lines\<close>

text \<open>
  \<open>lines()\<close>: the text is cut after each \<open>\n\<close>; a line loses its \<open>\n\<close> and then one \<open>\r\<close>; text after
  the last \<open>\n\<close>, if any, is a line as it stands.
\<close>

definition strip_cr :: "str \<Rightarrow> str" where
  "strip_cr s = (case strip_suffix [13] s of None \<Rightarrow> s | Some r \<Rightarrow> r)"

definition str_lines :: "str \<Rightarrow> str list" where
  "str_lines s =
     (let ws = split_on 10 s
      in map strip_cr (butlast ws) @ (if last ws = [] then [] else [last ws]))"

lemma set_strip_cr: "set (strip_cr s) \<subseteq> set s"
  by (auto simp: strip_cr_def strip_suffix_Some split: option.splits)

lemma str_lines_Nil [simp]: "str_lines [] = []"
  by (simp add: str_lines_def)

lemma str_lines_line:
  "10 \<notin> set l \<Longrightarrow> str_lines (l @ 10 # s) = strip_cr l # str_lines s"
  by (simp add: str_lines_def split_on_append_sep Let_def)

lemma str_lines_no_newline: "l \<in> set (str_lines s) \<Longrightarrow> 10 \<notin> set l"
proof -
  assume "l \<in> set (str_lines s)"
  then consider w where "w \<in> set (butlast (split_on 10 s))" "l = strip_cr w"
    | "l = last (split_on 10 s)"
    by (auto simp: str_lines_def Let_def split: if_splits)
  then have "\<exists>w \<in> set (split_on 10 s). set l \<subseteq> set w"
  proof cases
    case 1
    then show ?thesis using set_strip_cr [of w] in_set_butlastD [of w] by auto
  next
    case 2
    then show ?thesis using last_in_set [of "split_on 10 s"] by auto
  qed
  then obtain w where w: "w \<in> set (split_on 10 s)" and l: "set l \<subseteq> set w" by blast
  from split_by_no_sep [OF w] have "10 \<notin> set w" by blast
  with l show ?thesis by blast
qed

text \<open>A text by its lines, each ended by \<open>\n\<close>.\<close>

definition unlines :: "str list \<Rightarrow> str" where
  "unlines ls = concat (map (\<lambda>l. l @ [10]) ls)"

lemma str_lines_unlines_append:
  "\<forall>l \<in> set ls. 10 \<notin> set l \<and> (l = [] \<or> last l \<noteq> 13) \<Longrightarrow>
   str_lines (unlines ls @ s) = ls @ str_lines s"
proof (induction ls)
  case (Cons l ls)
  then have "strip_cr l = l"
    by (auto simp: strip_cr_def strip_suffix_Some split: option.splits)
  moreover have "str_lines (l @ 10 # (unlines ls @ s)) = strip_cr l # str_lines (unlines ls @ s)"
    using Cons.prems by (intro str_lines_line) simp
  ultimately show ?case using Cons by (simp add: unlines_def)
qed (simp add: unlines_def)

lemma str_lines_unlines:
  "\<forall>l \<in> set ls. 10 \<notin> set l \<and> (l = [] \<or> last l \<noteq> 13) \<Longrightarrow> str_lines (unlines ls) = ls"
  using str_lines_unlines_append [of ls "[]"] by simp

section \<open>Words and values\<close>

text \<open>
  A word has no white space; a value may have some inside, but not at its ends, and no line end. A
  keyword, a blank and a value make a line that the parsers take apart again.
\<close>

definition is_word :: "str \<Rightarrow> bool" where
  "is_word w \<longleftrightarrow> w \<noteq> [] \<and> (\<forall>c \<in> set w. \<not> is_whitespace c)"

definition is_value :: "str \<Rightarrow> bool" where
  "is_value v \<longleftrightarrow> v \<noteq> [] \<and> \<not> is_whitespace (hd v) \<and> \<not> is_whitespace (last v) \<and> 10 \<notin> set v"

lemma whitespace_blank [simp]: "is_whitespace 32" "is_whitespace 10" "is_whitespace 13" "is_whitespace 9"
  by (simp_all add: is_whitespace_def)

lemma is_word_value: "is_word w \<Longrightarrow> is_value w"
  by (cases w) (auto simp: is_word_def is_value_def)

lemma str_trim_value [simp]: "is_value v \<Longrightarrow> str_trim v = v"
  by (rule str_trim_id) (simp add: is_value_def)

definition keyword_line :: "str \<Rightarrow> str \<Rightarrow> str" where
  "keyword_line k v = k @ 32 # v"

lemma is_value_line:
  assumes "is_word k" and "is_value v"
  shows "is_value (keyword_line k v)" and "split_once_by is_whitespace (keyword_line k v) = Some (k, v)"
  unfolding keyword_line_def
proof -
  have k: "\<forall>c \<in> set k. \<not> is_whitespace c" "k \<noteq> []" using assms(1) by (simp_all add: is_word_def)
  then show "split_once_by is_whitespace (k @ 32 # v) = Some (k, v)" by (intro split_once_append) auto
  show "is_value (k @ 32 # v)" using k assms(2) by (cases k) (auto simp: is_value_def)
qed

lemma is_value_line_ok: "is_value v \<Longrightarrow> 10 \<notin> set v \<and> (v = [] \<or> last v \<noteq> 13)"
  by (auto simp: is_value_def)

lemma split_whitespace_join:
  "\<forall>w \<in> set ws. is_word w \<Longrightarrow> split_whitespace (str_join [32] ws) = ws"
proof (induction "[32 :: nat]" ws rule: str_join.induct)
  case (2 w)
  then have "split_by is_whitespace w = [w]" by (auto simp: is_word_def intro!: split_by_plain)
  with 2 show ?case by (simp add: split_whitespace_def is_word_def)
next
  case (3 w v ws)
  then have "split_by is_whitespace (w @ 32 # str_join [32] (v # ws)) =
      w # split_by is_whitespace (str_join [32] (v # ws))"
    by (intro split_by_append_sep) (auto simp: is_word_def)
  with 3 show ?case by (simp add: split_whitespace_def is_word_def)
qed (simp add: split_whitespace_def)

lemma is_value_join:
  "ws \<noteq> [] \<Longrightarrow> \<forall>w \<in> set ws. is_word w \<Longrightarrow> c \<noteq> 10 \<Longrightarrow> is_value (str_join [c] ws)"
proof (induction "[c]" ws rule: str_join.induct)
  case (2 w)
  then show ?case by (simp add: is_word_value)
next
  case (3 w v ws)
  then show ?case by (cases w) (auto simp: is_word_def is_value_def)
qed simp

text \<open>What a literal string needs to be taken apart by evaluation.\<close>

lemma not_whitespace_ascii: "33 \<le> c \<Longrightarrow> c \<le> 126 \<Longrightarrow> \<not> is_whitespace c"
  by (simp add: is_whitespace_def)

lemmas trim_eval = str_trim_def trim_start_by_def trim_end_by_def not_whitespace_ascii
  ends_with_def strip_suffix_def

end
