(* ===== verification/Rust_Fmt.thy ===== *)
theory Rust_Fmt
  imports Rust_Str
begin

text \<open>
  Numbers and encodings of Rust strings: \<open>parse::<usize>()\<close> and its siblings, the format
  specifiers \<open>{}\<close>, \<open>{:x}\<close>, \<open>{:02x}\<close>, \<open>{:08x}\<close> and \<open>{:#x}\<close>, ASCII case, and the decoding of bytes by
  \<open>String::from_utf8_lossy\<close> with its inverse \<open>as_bytes()\<close>.
\<close>

section \<open>ASCII case and classes\<close>

definition is_ascii_digit :: "nat \<Rightarrow> bool" where
  "is_ascii_digit c \<longleftrightarrow> 48 \<le> c \<and> c \<le> 57"

definition is_ascii_lowercase :: "nat \<Rightarrow> bool" where
  "is_ascii_lowercase c \<longleftrightarrow> 97 \<le> c \<and> c \<le> 122"

definition is_ascii_uppercase :: "nat \<Rightarrow> bool" where
  "is_ascii_uppercase c \<longleftrightarrow> 65 \<le> c \<and> c \<le> 90"

definition is_ascii_alphabetic :: "nat \<Rightarrow> bool" where
  "is_ascii_alphabetic c \<longleftrightarrow> is_ascii_lowercase c \<or> is_ascii_uppercase c"

definition is_ascii_alphanumeric :: "nat \<Rightarrow> bool" where
  "is_ascii_alphanumeric c \<longleftrightarrow> is_ascii_alphabetic c \<or> is_ascii_digit c"

definition ascii_lower :: "nat \<Rightarrow> nat" where
  "ascii_lower c = (if is_ascii_uppercase c then c + 32 else c)"

definition to_ascii_lowercase :: "str \<Rightarrow> str" where
  "to_ascii_lowercase s = map ascii_lower s"

definition eq_ignore_ascii_case :: "str \<Rightarrow> str \<Rightarrow> bool" where
  "eq_ignore_ascii_case a b \<longleftrightarrow> to_ascii_lowercase a = to_ascii_lowercase b"

lemmas ascii_class_defs =
  is_ascii_digit_def is_ascii_lowercase_def is_ascii_uppercase_def
  is_ascii_alphabetic_def is_ascii_alphanumeric_def

lemma ascii_lower_idem [simp]: "ascii_lower (ascii_lower c) = ascii_lower c"
  by (simp add: ascii_lower_def is_ascii_uppercase_def)

lemma to_ascii_lowercase_idem [simp]:
  "to_ascii_lowercase (to_ascii_lowercase s) = to_ascii_lowercase s"
  by (simp add: to_ascii_lowercase_def)

section \<open>Decimal and hexadecimal numbers\<close>

text \<open>The value of a digit string in a base, most significant digit first.\<close>

definition digit_value :: "nat \<Rightarrow> nat option" where
  "digit_value c =
     (if is_ascii_digit c then Some (c - 48)
      else if 97 \<le> c \<and> c \<le> 122 then Some (c - 87)
      else if 65 \<le> c \<and> c \<le> 90 then Some (c - 55)
      else None)"

fun digits_value :: "nat \<Rightarrow> nat \<Rightarrow> str \<Rightarrow> nat option" where
  "digits_value base acc [] = Some acc"
| "digits_value base acc (c # cs) =
     (case digit_value c of
        None \<Rightarrow> None
      | Some d \<Rightarrow> if d < base then digits_value base (acc * base + d) cs else None)"

text \<open>
  \<open>from_str_radix\<close> for an unsigned type of \<open>w\<close> bits: one leading \<open>+\<close> is accepted, the rest must be
  digits, at least one, and the value must fit.
\<close>

definition strip_plus :: "str \<Rightarrow> str" where
  "strip_plus s = (case s of [] \<Rightarrow> [] | c # cs \<Rightarrow> if c = ch CHR ''+'' then cs else s)"

definition from_str_radix :: "nat \<Rightarrow> nat \<Rightarrow> str \<Rightarrow> nat option" where
  "from_str_radix w base s =
     (let ds = strip_plus s
      in if ds = [] then None
         else case digits_value base 0 ds of
                None \<Rightarrow> None
              | Some v \<Rightarrow> if v < 2 ^ w then Some v else None)"

abbreviation parse_usize :: "str \<Rightarrow> nat option" where
  "parse_usize \<equiv> from_str_radix 64 10"

text \<open>The digits of a number; \<open>{}\<close> and \<open>{:x}\<close>, and zero padding to a width.\<close>

definition digit_char :: "nat \<Rightarrow> nat" where
  "digit_char d = (if d < 10 then 48 + d else 87 + d)"

fun show_base :: "nat \<Rightarrow> nat \<Rightarrow> str" where
  "show_base base n =
     (if n < base \<or> base < 2 then [digit_char n]
      else show_base base (n div base) @ [digit_char (n mod base)])"

declare show_base.simps [simp del]

abbreviation show_nat :: "nat \<Rightarrow> str" where
  "show_nat \<equiv> show_base 10"

abbreviation show_hex :: "nat \<Rightarrow> str" where
  "show_hex \<equiv> show_base 16"

definition pad_zeros :: "nat \<Rightarrow> str \<Rightarrow> str" where
  "pad_zeros w s = replicate (w - length s) (ch CHR ''0'') @ s"

definition show_bool :: "bool \<Rightarrow> str" where
  "show_bool b = (if b then S ''true'' else S ''false'')"

text \<open>\<open>{:#x}\<close>, and \<open>{:#04x}\<close>, where the width counts the \<open>0x\<close>.\<close>

definition show_alt_hex :: "nat \<Rightarrow> str" where
  "show_alt_hex n = S ''0x'' @ show_hex n"

definition show_alt_hex_byte :: "nat \<Rightarrow> str" where
  "show_alt_hex_byte n = S ''0x'' @ pad_zeros 2 (show_hex n)"

lemma digit_value_char: "d < 16 \<Longrightarrow> digit_value (digit_char d) = Some d"
  by (auto simp: digit_value_def digit_char_def is_ascii_digit_def)

lemma digits_value_append:
  "digits_value base acc (xs @ ys) =
   (case digits_value base acc xs of None \<Rightarrow> None | Some a \<Rightarrow> digits_value base a ys)"
  by (induction base acc xs rule: digits_value.induct) (auto split: option.splits)

lemma digits_value_show:
  "2 \<le> base \<Longrightarrow> base \<le> 16 \<Longrightarrow> digits_value base 0 (show_base base n) = Some n"
proof (induction base n rule: show_base.induct)
  case (1 base n)
  show ?case
  proof (cases "n < base")
    case True
    with "1.prems" show ?thesis
      by (simp add: show_base.simps [of base n] digit_value_char)
  next
    case False
    have m: "n mod base < base" using "1.prems" by simp
    with "1.prems" have "n mod base < 16" by linarith
    with False m 1 show ?thesis
      by (simp add: show_base.simps [of base n] digits_value_append digit_value_char)
  qed
qed

lemma show_base_not_Nil [simp]: "show_base base n \<noteq> []"
  by (simp add: show_base.simps [of base n])

lemma digit_char_alnum:
  "d < 16 \<Longrightarrow> is_ascii_digit (digit_char d) \<or> 97 \<le> digit_char d \<and> digit_char d \<le> 102"
  by (auto simp: digit_char_def is_ascii_digit_def)

lemma show_base_chars:
  "2 \<le> base \<Longrightarrow> base \<le> 16 \<Longrightarrow> c \<in> set (show_base base n) \<Longrightarrow>
   \<exists>d < base. c = digit_char d"
proof (induction base n rule: show_base.induct)
  case (1 base n)
  show ?case
  proof (cases "n < base")
    case True
    with 1 show ?thesis by (auto simp: show_base.simps [of base n])
  next
    case False
    with "1.prems" have "c \<in> set (show_base base (n div base)) \<or> c = digit_char (n mod base)"
      by (auto simp: show_base.simps [of base n])
    moreover have "n mod base < base" using "1.prems" by simp
    ultimately show ?thesis
    proof (elim disjE)
      assume "c \<in> set (show_base base (n div base))"
      then show ?thesis using "1.IH" "1.prems" False by simp
    qed blast
  qed
qed

lemma show_nat_digits: "c \<in> set (show_nat n) \<Longrightarrow> is_ascii_digit c"
  using show_base_chars [of 10 c n] by (auto simp: digit_char_def is_ascii_digit_def)

lemma strip_plus_show [simp]:
  "2 \<le> base \<Longrightarrow> base \<le> 16 \<Longrightarrow> strip_plus (show_base base n) = show_base base n"
proof -
  assume b: "2 \<le> base" "base \<le> 16"
  obtain c cs where c: "show_base base n = c # cs"
    by (cases "show_base base n") auto
  then obtain d where "d < base" "c = digit_char d"
    using show_base_chars [OF b, of c n] by auto
  with b have "c \<noteq> 43" by (auto simp: digit_char_def)
  with c show ?thesis by (simp add: strip_plus_def)
qed

lemma from_str_radix_show:
  "2 \<le> base \<Longrightarrow> base \<le> 16 \<Longrightarrow> n < 2 ^ w \<Longrightarrow> from_str_radix w base (show_base base n) = Some n"
  by (simp add: from_str_radix_def digits_value_show Let_def)

lemma parse_usize_show: "n < 2 ^ 64 \<Longrightarrow> parse_usize (show_nat n) = Some n"
  by (rule from_str_radix_show) simp_all

lemma from_str_radix_bound: "from_str_radix w base s = Some n \<Longrightarrow> n < 2 ^ w"
  by (auto simp: from_str_radix_def Let_def split: if_splits option.splits)

lemma show_nat_inj: "show_nat m = show_nat n \<Longrightarrow> m = n"
proof -
  assume e: "show_nat m = show_nat n"
  have "digits_value 10 0 (show_nat k) = Some k" for k
    by (rule digits_value_show) simp_all
  from this [of m] this [of n] show ?thesis unfolding e by simp
qed

section \<open>UTF-8\<close>

text \<open>
  \<open>String::from_utf8_lossy\<close>: a well-formed sequence is its scalar value; a maximal ill-formed
  sub-sequence is one U+FFFD. \<open>utf8_step\<close> reads the first character of a byte string (the bytes as
  numbers) and says how many bytes it took, as \<open>core::str::lossy::Utf8Chunks\<close> does; a byte past the
  end counts as 0, which no continuation byte is.
\<close>

definition byte_at :: "nat list \<Rightarrow> nat \<Rightarrow> nat" where
  "byte_at bs i = (if i < length bs then bs ! i else 0)"

definition is_cont :: "nat \<Rightarrow> bool" where
  "is_cont b \<longleftrightarrow> 128 \<le> b \<and> b < 192"

definition replacement :: nat where
  "replacement = 0xFFFD"

definition second_ok :: "nat \<Rightarrow> nat \<Rightarrow> bool" where
  "second_ok b0 b1 \<longleftrightarrow>
     (if b0 = 0xE0 then 0xA0 \<le> b1 \<and> b1 \<le> 0xBF
      else if b0 = 0xED then 0x80 \<le> b1 \<and> b1 \<le> 0x9F
      else if b0 = 0xF0 then 0x90 \<le> b1 \<and> b1 \<le> 0xBF
      else if b0 = 0xF4 then 0x80 \<le> b1 \<and> b1 \<le> 0x8F
      else is_cont b1)"

definition utf8_step :: "nat list \<Rightarrow> nat \<times> nat" where
  "utf8_step bs =
     (let b0 = byte_at bs 0; b1 = byte_at bs 1; b2 = byte_at bs 2; b3 = byte_at bs 3
      in if b0 < 0x80 then (b0, 1)
         else if 0xC2 \<le> b0 \<and> b0 \<le> 0xDF then
           (if is_cont b1 then (b0 mod 32 * 64 + b1 mod 64, 2) else (replacement, 1))
         else if 0xE0 \<le> b0 \<and> b0 \<le> 0xEF then
           (if \<not> second_ok b0 b1 then (replacement, 1)
            else if \<not> is_cont b2 then (replacement, 2)
            else (b0 mod 16 * 4096 + b1 mod 64 * 64 + b2 mod 64, 3))
         else if 0xF0 \<le> b0 \<and> b0 \<le> 0xF4 then
           (if \<not> second_ok b0 b1 then (replacement, 1)
            else if \<not> is_cont b2 then (replacement, 2)
            else if \<not> is_cont b3 then (replacement, 3)
            else (b0 mod 8 * 262144 + b1 mod 64 * 4096 + b2 mod 64 * 64 + b3 mod 64, 4))
         else (replacement, 1))"

function utf8_decode :: "nat list \<Rightarrow> str" where
  "utf8_decode [] = []"
| "utf8_decode (b # bs) =
     (case utf8_step (b # bs) of (c, k) \<Rightarrow> c # utf8_decode (drop (k - 1) bs))"
  by pat_completeness auto
termination
  by (relation "measure length") auto

definition from_utf8_lossy :: "bytes \<Rightarrow> str" where
  "from_utf8_lossy bs = utf8_decode (map unat bs)"

text \<open>\<open>as_bytes()\<close>: the UTF-8 encoding of a scalar value and of a string.\<close>

definition is_scalar :: "nat \<Rightarrow> bool" where
  "is_scalar c \<longleftrightarrow> c < 0xD800 \<or> 0xE000 \<le> c \<and> c < 0x110000"

definition utf8_char :: "nat \<Rightarrow> nat list" where
  "utf8_char c =
     (if c < 0x80 then [c]
      else if c < 0x800 then [192 + c div 64, 128 + c mod 64]
      else if c < 0x10000 then [224 + c div 4096, 128 + c div 64 mod 64, 128 + c mod 64]
      else [240 + c div 262144, 128 + c div 4096 mod 64, 128 + c div 64 mod 64, 128 + c mod 64])"

definition as_bytes :: "str \<Rightarrow> bytes" where
  "as_bytes s = map of_nat (concat (map utf8_char s))"

lemma as_bytes_ascii: "\<forall>c \<in> set s. c < 128 \<Longrightarrow> as_bytes s = map of_nat s"
  by (induction s) (auto simp: as_bytes_def utf8_char_def)

lemma utf8_decode_ascii:
  "b < 128 \<Longrightarrow> utf8_decode (b # bs) = b # utf8_decode bs"
  by (simp add: utf8_step_def byte_at_def)

lemma from_utf8_lossy_Nil [simp]: "from_utf8_lossy [] = []"
  by (simp add: from_utf8_lossy_def)

lemma from_utf8_lossy_ascii_Cons:
  "unat b < 128 \<Longrightarrow> from_utf8_lossy (b # bs) = unat b # from_utf8_lossy bs"
  by (simp add: from_utf8_lossy_def utf8_decode_ascii del: utf8_decode.simps(2))

lemma from_utf8_lossy_ascii:
  "\<forall>b \<in> set bs. unat b < 128 \<Longrightarrow> from_utf8_lossy bs = map unat bs"
  by (induction bs) (auto simp: from_utf8_lossy_ascii_Cons)

lemma div_64_64: "(c::nat) div 4096 = c div 64 div 64" "(c::nat) div 262144 = c div 64 div 64 div 64"
  by (simp_all flip: div_mult2_eq)

lemma div_mod_compose:
  "(c::nat) div 4096 * 4096 + c div 64 mod 64 * 64 + c mod 64 = c"
  "(c::nat) div 262144 * 262144 + c div 4096 mod 64 * 4096 + c div 64 mod 64 * 64 + c mod 64 = c"
proof -
  have s: "c = c div 64 * 64 + c mod 64" for c :: nat by simp
  show "c div 4096 * 4096 + c div 64 mod 64 * 64 + c mod 64 = c"
    using s [of c] s [of "c div 64"] unfolding div_64_64 by linarith
  show "c div 262144 * 262144 + c div 4096 mod 64 * 4096 + c div 64 mod 64 * 64 + c mod 64 = c"
    using s [of c] s [of "c div 64"] s [of "c div 64 div 64"] unfolding div_64_64 by linarith
qed

lemma second_ok_3:
  assumes "is_scalar c" "0x800 \<le> c" "c < 0x10000"
  shows "second_ok (224 + c div 4096) (128 + c div 64 mod 64)"
proof -
  define q where "q = c div 64"
  have q: "32 \<le> q" "q < 1024" "q < 864 \<or> 896 \<le> q"
    using assms by (auto simp: q_def is_scalar_def)
  define h where "h = q div 64"
  define l where "l = q mod 64"
  have "q = h * 64 + l" "l < 64" by (simp_all add: h_def l_def)
  with q show ?thesis
    unfolding div_64_64 second_ok_def is_cont_def q_def [symmetric] h_def [symmetric]
      l_def [symmetric] by auto
qed

lemma second_ok_4:
  assumes "0x10000 \<le> c" "c < 0x110000"
  shows "second_ok (240 + c div 262144) (128 + c div 4096 mod 64)"
proof -
  define q where "q = c div 64 div 64"
  have q: "16 \<le> q" "q < 272"
    using assms by (auto simp: q_def)
  define h where "h = q div 64"
  define l where "l = q mod 64"
  have "q = h * 64 + l" "l < 64" by (simp_all add: h_def l_def)
  with q show ?thesis
    unfolding div_64_64 second_ok_def is_cont_def q_def [symmetric] h_def [symmetric]
      l_def [symmetric] by auto
qed

lemma utf8_step_char:
  assumes "is_scalar c"
  shows "utf8_step (utf8_char c @ bs) = (c, length (utf8_char c))"
proof -
  consider "c < 0x80" | "0x80 \<le> c" "c < 0x800" | "0x800 \<le> c" "c < 0x10000" | "0x10000 \<le> c"
    by linarith
  then show ?thesis
  proof cases
    case 1
    then show ?thesis by (simp add: utf8_step_def utf8_char_def byte_at_def)
  next
    case 2
    then have d: "2 \<le> c div 64" "c div 64 < 32" by auto
    then have "(192 + c div 64) mod 32 = c div 64" by (simp add: mod_add_left_eq [symmetric])
    then show ?thesis using 2 d
      by (simp add: utf8_step_def utf8_char_def byte_at_def is_cont_def Let_def mod_add_left_eq [symmetric])
  next
    case 3
    then have d: "c div 4096 < 16" by auto
    then have "(224 + c div 4096) mod 16 = c div 4096" by (simp add: mod_add_left_eq [symmetric])
    then show ?thesis using 3 d div_mod_compose(1) [of c] second_ok_3 [OF assms 3]
      by (simp add: utf8_step_def utf8_char_def byte_at_def is_cont_def Let_def mod_add_left_eq [symmetric])
  next
    case 4
    with assms have d: "c div 262144 \<le> 4" "c < 0x110000" by (auto simp: is_scalar_def)
    then have "(240 + c div 262144) mod 8 = c div 262144" by (simp add: mod_add_left_eq [symmetric])
    then show ?thesis using 4 d div_mod_compose(2) [of c] second_ok_4 [OF 4 d(2)]
      by (simp add: utf8_step_def utf8_char_def byte_at_def is_cont_def Let_def mod_add_left_eq [symmetric])
  qed
qed

lemma utf8_char_Cons: "\<exists>b bs. utf8_char c = b # bs" by (simp add: utf8_char_def)

lemma utf8_decode_char:
  assumes "is_scalar c"
  shows "utf8_decode (utf8_char c @ bs) = c # utf8_decode bs"
proof -
  obtain x xs where x: "utf8_char c = x # xs" using utf8_char_Cons by blast
  then have "utf8_step (x # xs @ bs) = (c, Suc (length xs))"
    using utf8_step_char [OF assms, of bs] by simp
  with x show ?thesis by simp
qed

lemma utf8_char_byte: "is_scalar c \<Longrightarrow> b \<in> set (utf8_char c) \<Longrightarrow> b < 256"
  by (auto simp: utf8_char_def is_scalar_def split: if_splits)

lemma from_utf8_lossy_as_bytes:
  assumes "\<forall>c \<in> set s. is_scalar c"
  shows "from_utf8_lossy (as_bytes s) = s"
proof -
  have "map unat (as_bytes s) = concat (map utf8_char s)"
    using assms by (fastforce simp: as_bytes_def unat_of_nat intro!: map_idI dest: utf8_char_byte)
  moreover have "utf8_decode (concat (map utf8_char s)) = s"
    using assms by (induction s) (auto simp: utf8_decode_char)
  ultimately show ?thesis by (simp add: from_utf8_lossy_def)
qed

end
