(* ===== verification/Errors.thy ===== *)
theory Errors
  imports Rust_Fmt
begin

text \<open>
  The \<open>Display\<close> text of each \<open>Error\<close> (the \<open>#[error(...)]\<close> attributes of src/src/error.rs), which
  the layers that wrap another layer's error put into their own (\<open>to_string()\<close>). \<open>Io\<close> and \<open>Ext4Error\<close>
  hold the text of the error they wrap; \<open>Panic\<close> is no \<open>Error\<close> and is never displayed.
\<close>

definition error_display :: "error \<Rightarrow> str" where
  "error_display e =
     (case e of
        Io m \<Rightarrow> S ''I/O error: '' @ m
      | OutOfBounds offset n sz \<Rightarrow>
          S ''read out of bounds: offset '' @ show_nat (unat offset) @ S '' + len '' @ show_nat n
          @ S '' > size '' @ show_nat (unat sz)
      | UnknownImageFormat m \<Rightarrow> S ''not a supported disk image: '' @ m
      | Qcow2Error m \<Rightarrow> S ''qcow2: '' @ m
      | Qcow2Unsupported m \<Rightarrow> S ''qcow2 feature not supported yet: '' @ m
      | GptError m \<Rightarrow> S ''gpt: '' @ m
      | NoPartitions \<Rightarrow> S ''no partition table found and whole disk is not a filesystem''
      | NoSuchPartition n \<Rightarrow> S ''partition '' @ show_nat n @ S '' does not exist''
      | UnknownFilesystem d \<Rightarrow>
          S ''unrecognized filesystem'' @
          (case d of
             Some name \<Rightarrow> S '' (detected '' @ name @ S '', not supported yet)''
           | None \<Rightarrow> [])
      | Ext4Error m \<Rightarrow> S ''ext4: '' @ m
      | VfatError m \<Rightarrow> S ''vfat: '' @ m
      | NotFound m \<Rightarrow> S ''file not found: '' @ m
      | NotADirectory m \<Rightarrow> S ''not a directory: '' @ m
      | NoBootArtifacts \<Rightarrow> S ''no boot artifacts (kernel/initramfs) found in any partition''
      | KernelDecompress m \<Rightarrow> S ''kernel decompression: '' @ m
      | HttpError m \<Rightarrow> S ''remote image: '' @ m
      | Panic \<Rightarrow> [])"

end
