(* ===== verification/Blockdev.thy ===== *)
theory Blockdev
  imports Errors
begin

text \<open>
  src/src/blockdev.rs: the byte-addressed, read-only device every layer stacks on.

  A device is its size and a function that reads \<open>n\<close> bytes at an offset. The contract the layers
  rely on is the locale \<open>sound_device\<close>: whatever a read returns is a slice of one fixed content, so
  two overlapping reads agree. \<open>total_device\<close> adds that reads inside the device succeed. The file,
  the slice of a device and the adapter are proved against it here; the qcow2 reader in its theory.
\<close>

section \<open>Devices\<close>

record dev =
  dev_size :: u64
  dev_read :: "u64 \<Rightarrow> nat \<Rightarrow> bytes result"

text \<open>\<open>checked_add\<close> of a length (a \<open>usize\<close>) to a \<open>u64\<close>.\<close>

definition checked_add :: "u64 \<Rightarrow> nat \<Rightarrow> u64 option" where
  "checked_add a n = (if unat a + n < 2 ^ 64 then Some (a + of_nat n) else None)"

definition check_bounds :: "u64 \<Rightarrow> u64 \<Rightarrow> nat \<Rightarrow> unit result" where
  "check_bounds sz offset n =
     (case checked_add offset n of
        None \<Rightarrow> Err (OutOfBounds offset n sz)
      | Some e \<Rightarrow> if e > sz then Err (OutOfBounds offset n sz) else Ok ())"

lemma unat_u64_lt: "unat (a :: u64) < 2 ^ 64"
  using unsigned_less [of a, where ?'a = nat] by simp

lemma unat_add_nat:
  "unat a + n < 2 ^ 64 \<Longrightarrow> unat (a + of_nat n) = unat a + n" for a :: u64
  by (simp add: unat_word_ariths unat_of_nat mod_add_right_eq)

lemma unat_plus: "unat (a :: u64) + unat b < 2 ^ 64 \<Longrightarrow> unat (a + b) = unat a + unat b"
  using unat_add_nat [of a "unat b"] by simp

lemma check_bounds_Ok:
  "check_bounds sz offset n = Ok () \<longleftrightarrow> unat offset + n \<le> unat sz"
proof (cases "unat offset + n < 2 ^ 64")
  case True
  then show ?thesis
    by (auto simp: check_bounds_def checked_add_def unat_add_nat word_less_nat_alt not_less)
next
  case False
  moreover have "unat sz < 2 ^ 64" by (rule unat_u64_lt)
  ultimately show ?thesis by (auto simp: check_bounds_def checked_add_def)
qed

lemma check_bounds_Err:
  "check_bounds sz offset n = Err e \<longleftrightarrow>
   unat sz < unat offset + n \<and> e = OutOfBounds offset n sz"
  using check_bounds_Ok [of sz offset n]
  by (auto simp: check_bounds_def split: option.splits if_splits)

lemma check_bounds_if:
  "check_bounds sz offset n =
   (if unat offset + n \<le> unat sz then Ok () else Err (OutOfBounds offset n sz))"
  using check_bounds_Ok [of sz offset n] check_bounds_Err [of sz offset n]
  by (cases "check_bounds sz offset n") auto

section \<open>The contract\<close>

text \<open>The bytes \<open>[a, a + n)\<close> of a content, which is a function from positions to bytes.\<close>

definition segment :: "(nat \<Rightarrow> u8) \<Rightarrow> nat \<Rightarrow> nat \<Rightarrow> bytes" where
  "segment f a n = map f [a..<a + n]"

lemma length_segment [simp]: "length (segment f a n) = n"
  by (simp add: segment_def)

lemma segment_0 [simp]: "segment f a 0 = []"
  by (simp add: segment_def)

lemma segment_nth [simp]: "i < n \<Longrightarrow> segment f a n ! i = f (a + i)"
  by (simp add: segment_def)

lemma segment_append: "segment f a (m + n) = segment f a m @ segment f (a + m) n"
  by (rule nth_equalityI) (auto simp: nth_append)

lemma segment_shift: "segment (\<lambda>i. f (s + i)) a n = segment f (s + a) n"
  by (rule nth_equalityI) (auto simp: add.assoc)

lemma take_segment: "m \<le> n \<Longrightarrow> take m (segment f a n) = segment f a m"
  by (rule nth_equalityI) auto

lemma drop_segment: "drop m (segment f a n) = segment f (a + m) (n - m)"
  by (rule nth_equalityI) (auto simp: add.assoc)

lemma segment_cong: "(\<And>i. a \<le> i \<Longrightarrow> i < a + n \<Longrightarrow> f i = g i) \<Longrightarrow> segment f a n = segment g a n"
  by (rule nth_equalityI) auto

lemma segment_list: "a + n \<le> length xs \<Longrightarrow> segment ((!) xs) a n = take n (drop a xs)"
  by (rule nth_equalityI) auto

locale sound_device =
  fixes sz :: u64
    and read :: "u64 \<Rightarrow> nat \<Rightarrow> bytes result"
    and content :: "nat \<Rightarrow> u8"
  assumes read_sound: "read off n = Ok bs \<Longrightarrow> bs = segment content (unat off) n"
    and read_in_bounds: "read off n = Ok bs \<Longrightarrow> 0 < n \<Longrightarrow> unat off + n \<le> unat sz"
begin

lemma read_length: "read off n = Ok bs \<Longrightarrow> length bs = n"
  by (auto dest: read_sound)

lemma read_agree:
  "read off n = Ok bs \<Longrightarrow> read off' n' = Ok bs' \<Longrightarrow> unat off' = unat off + k \<Longrightarrow> i + k < n \<Longrightarrow>
   i < n' \<Longrightarrow> bs' ! i = bs ! (i + k)"
  by (auto dest!: read_sound simp: ac_simps)

lemma read_deterministic_prefix:
  "read off n = Ok bs \<Longrightarrow> read off n' = Ok bs' \<Longrightarrow> n' \<le> n \<Longrightarrow> bs' = take n' bs"
  by (auto dest!: read_sound simp: take_segment)

end

locale total_device = sound_device +
  assumes read_total: "unat off + n \<le> unat sz \<Longrightarrow> \<exists>bs. read off n = Ok bs"
begin

lemma read_eq: "unat off + n \<le> unat sz \<Longrightarrow> read off n = Ok (segment content (unat off) n)"
  using read_total [of off n] read_sound [of off n] by auto

lemma read_out_of_bounds: "0 < n \<Longrightarrow> unat sz < unat off + n \<Longrightarrow> \<exists>e. read off n = Err e"
  using read_in_bounds [of off n] by (cases "read off n") auto

end

section \<open>Files\<close>

text \<open>
  A local file: \<open>read_exact_at\<close> fills the whole buffer or fails; with an empty buffer it reads
  nothing and succeeds wherever the offset points. The size is what \<open>metadata().len()\<close> reports.
\<close>

definition file_len :: "bytes \<Rightarrow> u64" where
  "file_len data = of_nat (length data)"

definition file_read :: "bytes \<Rightarrow> u64 \<Rightarrow> nat \<Rightarrow> bytes result" where
  "file_read data offset n =
     (if n = 0 then Ok []
      else if unat offset + n \<le> unat (file_len data) then Ok (take n (drop (unat offset) data))
      else Err (Io (S ''failed to fill whole buffer'')))"

definition file_dev :: "bytes \<Rightarrow> dev" where
  "file_dev data = \<lparr>dev_size = file_len data, dev_read = file_read data\<rparr>"

text \<open>A file that fits the address space, as the kernel's \<open>off_t\<close> guarantees.\<close>

definition file_ok :: "bytes \<Rightarrow> bool" where
  "file_ok data \<longleftrightarrow> length data < 2 ^ 63"

lemma unat_file_len: "file_ok data \<Longrightarrow> unat (file_len data) = length data"
  by (simp add: file_ok_def file_len_def unat_of_nat)

lemma unat_file_len_le: "unat (file_len data) \<le> length data"
  by (simp add: file_len_def unat_of_nat)

lemma file_size: "file_ok data \<Longrightarrow> unat (dev_size (file_dev data)) = length data"
  by (simp add: file_dev_def unat_file_len)

lemma file_read_eq:
  "file_ok data \<Longrightarrow> unat off + n \<le> length data \<Longrightarrow>
   dev_read (file_dev data) off n = Ok (take n (drop (unat off) data))"
  by (simp add: file_dev_def file_read_def unat_file_len)

lemma file_read_segment:
  "unat off + n \<le> unat (file_len data) \<Longrightarrow>
   take n (drop (unat off) data) = segment ((!) data) (unat off) n"
  using unat_file_len_le [of data] by (simp add: segment_list)

interpretation raw_file: total_device "dev_size (file_dev data)" "dev_read (file_dev data)" "(!) data"
  for data
  by unfold_locales
    (auto simp: file_dev_def file_read_def file_read_segment split: if_splits)

section \<open>Slices\<close>

text \<open>\<open>Slice\<close>: a window of a parent device; \<open>start + offset\<close> is a wrapping \<open>u64\<close> addition.\<close>

record slice =
  sl_parent :: dev
  sl_start :: u64
  sl_len :: u64

definition slice_new :: "dev \<Rightarrow> u64 \<Rightarrow> u64 \<Rightarrow> slice" where
  "slice_new p s l = \<lparr>sl_parent = p, sl_start = s, sl_len = l\<rparr>"

definition slice_read :: "slice \<Rightarrow> u64 \<Rightarrow> nat \<Rightarrow> bytes result" where
  "slice_read sl offset n =
     rbind (check_bounds (sl_len sl) offset n)
       (\<lambda>_. dev_read (sl_parent sl) (sl_start sl + offset) n)"

definition slice_dev :: "slice \<Rightarrow> dev" where
  "slice_dev sl = \<lparr>dev_size = sl_len sl, dev_read = slice_read sl\<rparr>"

text \<open>
  Position \<open>i\<close> of a slice is position \<open>start + i\<close> of its parent, modulo \<open>2 ^ 64\<close>: a slice is sound
  over every sound parent, even one whose window wraps around, because a read that crosses the wrap
  leaves the parent's bounds and fails.
\<close>

definition slice_content :: "u64 \<Rightarrow> (nat \<Rightarrow> u8) \<Rightarrow> nat \<Rightarrow> u8" where
  "slice_content s f i = f (unat (s + of_nat i))"

lemma unat_add_wrap:
  "unat (s + off + of_nat k) = unat (s + off) + k"
  if "unat (s + off) + k < 2 ^ 64" for s off :: u64
  using unat_add_nat [OF that] by simp

lemma slice_sound_device:
  assumes "sound_device (dev_size p) (dev_read p) f"
  shows "sound_device (dev_size (slice_dev (slice_new p s l)))
           (dev_read (slice_dev (slice_new p s l))) (slice_content s f)"
proof
  fix off n bs
  assume "dev_read (slice_dev (slice_new p s l)) off n = Ok bs"
  then have b: "unat off + n \<le> unat l" and r: "dev_read p (s + off) n = Ok bs"
    by (auto simp: slice_dev_def slice_new_def slice_read_def rbind_eq_Ok check_bounds_Ok)
  have bs: "bs = segment f (unat (s + off)) n"
    using sound_device.read_sound [OF assms r] .
  have "f (unat (s + off) + k) = slice_content s f (unat off + k)" if "k < n" for k
  proof -
    from that have "unat (s + off) + n \<le> unat (dev_size p)"
      using sound_device.read_in_bounds [OF assms r] by simp
    with that have "unat (s + off) + k < 2 ^ 64"
      using unat_u64_lt [of "dev_size p"] by linarith
    then have "unat (s + off + of_nat k) = unat (s + off) + k" by (rule unat_add_nat)
    then show ?thesis by (simp add: slice_content_def add.assoc)
  qed
  then show "bs = segment (slice_content s f) (unat off) n"
    unfolding bs by (intro nth_equalityI) auto
next
  fix off n bs
  assume "dev_read (slice_dev (slice_new p s l)) off n = Ok bs"
  then show "unat off + n \<le> unat (dev_size (slice_dev (slice_new p s l)))"
    by (auto simp: slice_dev_def slice_new_def slice_read_def rbind_eq_Ok check_bounds_Ok)
qed

lemma slice_total_device:
  assumes p: "total_device (dev_size p) (dev_read p) f"
    and fits: "unat s + unat l \<le> unat (dev_size p)"
  shows "total_device (dev_size (slice_dev (slice_new p s l)))
           (dev_read (slice_dev (slice_new p s l))) (slice_content s f)"
proof -
  have sd: "sound_device (dev_size p) (dev_read p) f"
    using p by (simp add: total_device_def)
  show ?thesis
  proof (intro total_device.intro slice_sound_device [OF sd] total_device_axioms.intro)
    fix off :: u64 and n
    assume "unat off + n \<le> unat (dev_size (slice_dev (slice_new p s l)))"
    then have b: "unat off + n \<le> unat l" by (simp add: slice_dev_def slice_new_def)
    have "unat s + unat off < 2 ^ 64"
      using b fits unat_u64_lt [of "dev_size p"] by linarith
    then have "unat (s + off) = unat s + unat off"
      using unat_add_nat [of s "unat off"] by simp
    with b fits have "unat (s + off) + n \<le> unat (dev_size p)" by simp
    then show "\<exists>bs. dev_read (slice_dev (slice_new p s l)) off n = Ok bs"
      using total_device.read_total [OF p] b
      by (simp add: slice_dev_def slice_new_def slice_read_def check_bounds_if)
  qed
qed

text \<open>The device the whole program reads from when the image is raw: a window of a file.\<close>

interpretation file_slice: sound_device
  "dev_size (slice_dev (slice_new (file_dev data) s l))"
  "dev_read (slice_dev (slice_new (file_dev data) s l))"
  "slice_content s ((!) data)" for data s l
  by (rule slice_sound_device) (rule raw_file.sound_device_axioms)

section \<open>The stream adapter\<close>

text \<open>
  \<open>IoAdapter\<close>: a device with a cursor, as \<open>fatfs\<close> reads it. \<open>read\<close> returns at most what is left
  and moves the cursor by what it returned; \<open>seek\<close> may leave the device, but not go below 0 or
  past \<open>2 ^ 64\<close>; writes fail.
\<close>

record io_adapter =
  io_dev :: dev
  io_pos :: u64

definition io_new :: "dev \<Rightarrow> io_adapter" where
  "io_new d = \<lparr>io_dev = d, io_pos = 0\<rparr>"

definition saturating_sub :: "u64 \<Rightarrow> u64 \<Rightarrow> u64" where
  "saturating_sub a b = (if a < b then 0 else a - b)"

definition io_read :: "io_adapter \<Rightarrow> nat \<Rightarrow> bytes result \<times> io_adapter" where
  "io_read a buf_len =
     (let remaining = saturating_sub (dev_size (io_dev a)) (io_pos a);
          n = min buf_len (unat remaining)
      in if n = 0 then (Ok [], a)
         else case dev_read (io_dev a) (io_pos a) n of
                Inl e \<Rightarrow> (Err (Io (error_display e)), a)
              | Inr bs \<Rightarrow> (Ok bs, a\<lparr>io_pos := io_pos a + of_nat n\<rparr>))"

datatype seek_from = SeekStart u64 | SeekEnd int | SeekCurrent int

text \<open>\<open>checked_add_signed\<close>.\<close>

definition checked_add_signed :: "u64 \<Rightarrow> int \<Rightarrow> u64 option" where
  "checked_add_signed a d =
     (let r = int (unat a) + d
      in if 0 \<le> r \<and> r < 2 ^ 64 then Some (of_int r) else None)"

definition io_seek :: "io_adapter \<Rightarrow> seek_from \<Rightarrow> u64 result \<times> io_adapter" where
  "io_seek a p =
     (let new = (case p of
                   SeekStart off \<Rightarrow> Some off
                 | SeekEnd d \<Rightarrow> checked_add_signed (dev_size (io_dev a)) d
                 | SeekCurrent d \<Rightarrow> checked_add_signed (io_pos a) d)
      in case new of
           Some q \<Rightarrow> (Ok q, a\<lparr>io_pos := q\<rparr>)
         | None \<Rightarrow> (Err (Io (S ''seek before start'')), a))"

definition io_write :: "io_adapter \<Rightarrow> bytes \<Rightarrow> nat result \<times> io_adapter" where
  "io_write a buf = (Err (Io (S ''device is read-only'')), a)"

lemma unat_saturating_sub: "unat (saturating_sub a b) = unat a - unat b"
  by (auto simp: saturating_sub_def word_less_nat_alt unat_sub word_le_nat_alt not_less)

text \<open>
  A stream read over a sound device is a prefix read: it returns what the device holds at the
  cursor, never past the end, and moves the cursor by exactly that much; at the end it returns
  nothing. \<open>read\<close> and \<open>seek\<close> never touch the device itself.
\<close>

lemma io_read_sound:
  assumes "sound_device (dev_size (io_dev a)) (dev_read (io_dev a)) f"
    and "io_read a n = (Ok bs, a')"
  shows "bs = segment f (unat (io_pos a)) (length bs)"
    and "length bs = min n (unat (dev_size (io_dev a)) - unat (io_pos a))"
    and "io_dev a' = io_dev a" and "unat (io_pos a') = unat (io_pos a) + length bs"
proof -
  let ?n = "min n (unat (dev_size (io_dev a)) - unat (io_pos a))"
  have "bs = segment f (unat (io_pos a)) ?n \<and> io_dev a' = io_dev a \<and>
      unat (io_pos a') = unat (io_pos a) + ?n"
  proof (cases "?n = 0")
    case True
    with assms(2) show ?thesis by (auto simp: io_read_def Let_def unat_saturating_sub)
  next
    case False
    with assms(2) have r: "dev_read (io_dev a) (io_pos a) ?n = Ok bs"
      and a': "a' = a\<lparr>io_pos := io_pos a + of_nat ?n\<rparr>"
      by (auto simp: io_read_def Let_def unat_saturating_sub split: sum.splits)
    have "unat (io_pos a) + ?n \<le> unat (dev_size (io_dev a))" using False by linarith
    then have "unat (io_pos a) + ?n < 2 ^ 64"
      using unat_u64_lt [of "dev_size (io_dev a)"] by linarith
    then have "unat (io_pos a + of_nat ?n) = unat (io_pos a) + ?n" by (rule unat_add_nat)
    with a' sound_device.read_sound [OF assms(1) r] show ?thesis by simp
  qed
  then show "bs = segment f (unat (io_pos a)) (length bs)" "length bs = ?n"
    "io_dev a' = io_dev a" "unat (io_pos a') = unat (io_pos a) + length bs"
    by auto
qed

lemma checked_add_signed_Some:
  "checked_add_signed a d = Some q \<longleftrightarrow> int (unat q) = int (unat a) + d"
proof
  assume "checked_add_signed a d = Some q"
  then have r: "0 \<le> int (unat a) + d" "int (unat a) + d < 2 ^ 64"
    and q: "q = (of_int (int (unat a) + d) :: u64)"
    by (auto simp: checked_add_signed_def Let_def split: if_splits)
  have "uint q = int (unat a) + d"
    unfolding q uint_word_of_int_eq using r by (simp add: take_bit_eq_mod)
  then show "int (unat q) = int (unat a) + d" by simp
next
  assume q: "int (unat q) = int (unat a) + d"
  then have "0 \<le> int (unat a) + d" "int (unat a) + d < 2 ^ 64"
    using uint_bounded [of q] uint_nonnegative [of q] by (simp_all flip: q del: uint_nonnegative)
  moreover have "(of_int (int (unat a) + d) :: u64) = q"
    unfolding q [symmetric] by simp
  ultimately show "checked_add_signed a d = Some q"
    by (simp add: checked_add_signed_def Let_def)
qed

lemma io_seek_dev [simp]: "io_dev (snd (io_seek a p)) = io_dev a"
  by (auto simp: io_seek_def Let_def split: option.splits)

lemma io_seek_Ok:
  "fst (io_seek a p) = Ok q \<longleftrightarrow>
   int (unat q) = (case p of SeekStart off \<Rightarrow> int (unat off)
                   | SeekEnd d \<Rightarrow> int (unat (dev_size (io_dev a))) + d
                   | SeekCurrent d \<Rightarrow> int (unat (io_pos a)) + d)"
proof (cases p)
  case (SeekStart off)
  then show ?thesis by (auto simp: io_seek_def word_uint_eq_iff)
next
  case (SeekEnd d)
  then show ?thesis
    using checked_add_signed_Some [of "dev_size (io_dev a)" d q]
    by (auto simp: io_seek_def Let_def split: option.splits)
next
  case (SeekCurrent d)
  then show ?thesis
    using checked_add_signed_Some [of "io_pos a" d q]
    by (auto simp: io_seek_def Let_def split: option.splits)
qed

end
