(* ===== verification/Bytes.thy ===== *)
theory Bytes
  imports Blockdev
begin

text \<open>
  Integer fields of byte buffers: \<open>from_le_bytes\<close> and \<open>from_be_bytes\<close> of a slice, the encoders
  that undo them, and UTF-16. Every layout the code parses (GPT, MBR, qcow2, PE, zboot) reads its
  fields with these.
\<close>

section \<open>Little and big endian\<close>

fun le_val :: "bytes \<Rightarrow> nat" where
  "le_val [] = 0"
| "le_val (b # bs) = unat b + 256 * le_val bs"

definition be_val :: "bytes \<Rightarrow> nat" where
  "be_val bs = le_val (rev bs)"

definition field :: "bytes \<Rightarrow> nat \<Rightarrow> nat \<Rightarrow> bytes" where
  "field bs off n = take n (drop off bs)"

definition le16_at :: "bytes \<Rightarrow> nat \<Rightarrow> u16" where
  "le16_at bs off = of_nat (le_val (field bs off 2))"

definition le32_at :: "bytes \<Rightarrow> nat \<Rightarrow> u32" where
  "le32_at bs off = of_nat (le_val (field bs off 4))"

definition le64_at :: "bytes \<Rightarrow> nat \<Rightarrow> u64" where
  "le64_at bs off = of_nat (le_val (field bs off 8))"

definition be32_at :: "bytes \<Rightarrow> nat \<Rightarrow> u32" where
  "be32_at bs off = of_nat (be_val (field bs off 4))"

definition be64_at :: "bytes \<Rightarrow> nat \<Rightarrow> u64" where
  "be64_at bs off = of_nat (be_val (field bs off 8))"

text \<open>The encoders, for images built by hand.\<close>

fun le_enc :: "nat \<Rightarrow> nat \<Rightarrow> bytes" where
  "le_enc 0 v = []"
| "le_enc (Suc n) v = of_nat (v mod 256) # le_enc n (v div 256)"

definition be_enc :: "nat \<Rightarrow> nat \<Rightarrow> bytes" where
  "be_enc n v = rev (le_enc n v)"

lemma unat_u8_lt [simp]: "unat (b :: u8) < 256"
  using unsigned_less [of b, where ?'a = nat] by simp

lemma unat_of_nat_u8 [simp]: "unat (of_nat v :: u8) = v mod 256"
  by (simp add: unat_of_nat)

lemma le_val_bound: "le_val bs < 256 ^ length bs"
proof (induction bs)
  case (Cons b bs)
  have "unat b + 256 * le_val bs < 256 * (le_val bs + 1)" using unat_u8_lt [of b] by simp
  also have "\<dots> \<le> 256 * 256 ^ length bs" using Cons by (simp del: mult_Suc_right)
  finally show ?case by simp
qed simp

lemma length_le_enc [simp]: "length (le_enc n v) = n"
  by (induction n v rule: le_enc.induct) auto

lemma length_be_enc [simp]: "length (be_enc n v) = n"
  by (simp add: be_enc_def)

lemma le_val_enc: "le_val (le_enc n v) = v mod 256 ^ n"
proof (induction n v rule: le_enc.induct)
  case (2 n v)
  then show ?case by (simp add: mod_mult2_eq)
qed simp

lemma be_val_enc: "be_val (be_enc n v) = v mod 256 ^ n"
  by (simp add: be_val_def be_enc_def le_val_enc)

lemma le_enc_val: "length bs = n \<Longrightarrow> le_enc n (le_val bs) = bs"
  by (induction bs arbitrary: n) (auto simp: word_unat_eq_iff)

lemma length_field: "off + n \<le> length bs \<Longrightarrow> length (field bs off n) = n"
  by (simp add: field_def)

lemma field_append_left [bytes_simps]:
  "off + n \<le> length xs \<Longrightarrow> field (xs @ ys) off n = field xs off n"
  by (simp add: field_def)

lemma field_append_right [bytes_simps]:
  "length xs \<le> off \<Longrightarrow> field (xs @ ys) off n = field ys (off - length xs) n"
  by (simp add: field_def)

lemma field_all [bytes_simps]: "n = length xs \<Longrightarrow> field xs 0 n = xs"
  by (simp add: field_def)

lemma field_field: "i + m \<le> n \<Longrightarrow> field (field bs off n) i m = field bs (off + i) m"
  by (simp add: field_def drop_take add.commute min_def)

lemma le_at_field:
  "i + 2 \<le> n \<Longrightarrow> le16_at (field bs off n) i = le16_at bs (off + i)"
  "i + 4 \<le> n \<Longrightarrow> le32_at (field bs off n) i = le32_at bs (off + i)"
  "i + 8 \<le> n \<Longrightarrow> le64_at (field bs off n) i = le64_at bs (off + i)"
  by (simp_all add: le16_at_def le32_at_def le64_at_def field_field)

lemma unat_le32_at: "unat (le32_at bs off) = le_val (field bs off 4)"
proof -
  have "le_val (field bs off 4) < 256 ^ length (field bs off 4)" by (rule le_val_bound)
  also have "\<dots> \<le> 256 ^ 4" by (intro power_increasing) (auto simp: field_def)
  finally show ?thesis by (simp add: le32_at_def unat_of_nat)
qed

lemma unat_le64_at: "unat (le64_at bs off) = le_val (field bs off 8)"
proof -
  have "le_val (field bs off 8) < 256 ^ length (field bs off 8)" by (rule le_val_bound)
  also have "\<dots> \<le> 256 ^ 8" by (intro power_increasing) (auto simp: field_def)
  finally show ?thesis by (simp add: le64_at_def unat_of_nat)
qed

section \<open>UTF-16\<close>

text \<open>
  \<open>String::from_utf16_lossy\<close>: a surrogate pair is its scalar value, a lone surrogate is U+FFFD.
\<close>

fun utf16_lossy :: "u16 list \<Rightarrow> str" where
  "utf16_lossy [] = []"
| "utf16_lossy [u] =
     [if 0xD800 \<le> u \<and> u \<le> 0xDFFF then replacement else unat u]"
| "utf16_lossy (u # v # us) =
     (if \<not> (0xD800 \<le> u \<and> u \<le> 0xDFFF) then unat u # utf16_lossy (v # us)
      else if 0xDC00 \<le> u \<or> \<not> (0xDC00 \<le> v \<and> v \<le> 0xDFFF) then replacement # utf16_lossy (v # us)
      else (0x10000 + (unat u - 0xD800) * 1024 + (unat v - 0xDC00)) # utf16_lossy us)"

text \<open>\<open>chunks_exact(2)\<close> read as little-endian units.\<close>

fun le16_chunks :: "bytes \<Rightarrow> u16 list" where
  "le16_chunks (a # b # bs) = of_nat (unat a + 256 * unat b) # le16_chunks bs"
| "le16_chunks bs = []"

end
