(* ===== verification/Qcow2.thy ===== *)
theory Qcow2
  imports Bytes
begin

text \<open>
  src/src/disk/qcow2.rs: the copy-on-write image format. The state of an open image is the record
  \<open>qcow2\<close>; its cache of inflated clusters, behind a mutex in the code, is passed and returned by
  the operations that use it, oldest entry first. The deflate decoder (\<open>flate2\<close>) is a parameter:
  a fresh state and the step that one \<open>decompress\<close> call makes.

  The lemmas show that a read returns the guest's bytes whatever the cache holds, that the cache stays
  coherent and within its 32 entries, and that \<open>has_compressed_clusters\<close> decides what it says.
\<close>

definition QCOW2_MAGIC :: bytes where "QCOW2_MAGIC = [0x51, 0x46, 0x49, 0xfb]"

definition INCOMPAT_DIRTY :: u64 where "INCOMPAT_DIRTY = 1"
definition INCOMPAT_CORRUPT :: u64 where "INCOMPAT_CORRUPT = 2"
definition INCOMPAT_EXTERNAL_DATA :: u64 where "INCOMPAT_EXTERNAL_DATA = 4"
definition INCOMPAT_COMPRESSION_TYPE :: u64 where "INCOMPAT_COMPRESSION_TYPE = 8"
definition INCOMPAT_EXTENDED_L2 :: u64 where "INCOMPAT_EXTENDED_L2 = 16"

definition L1_OFFSET_MASK :: u64 where "L1_OFFSET_MASK = 0x00fffffffffffe00"
definition L2_OFFSET_MASK :: u64 where "L2_OFFSET_MASK = 0x00fffffffffffe00"
definition L2_COMPRESSED :: u64 where "L2_COMPRESSED = push_bit 62 1"
definition L2_ZERO_FLAG :: u64 where "L2_ZERO_FLAG = 1"

definition CACHE_CLUSTERS :: nat where "CACHE_CLUSTERS = 32"

datatype mapping =
    MData u64
  | MZero
  | MUnallocated
  | MCompressed u64 nat

record qcow2 =
  q_host :: dev
  q_virtual_size :: u64
  q_cluster_bits :: u32
  q_l1 :: "u64 list"
  q_backing_name :: "str option"
  q_backing :: "dev option"

type_synonym cluster_cache = "(u64 \<times> bytes) list"

section \<open>The deflate decoder, a parameter\<close>

text \<open>
  One call of \<open>Decompress::decompress\<close> on the unread input with so much room: an error, or the new
  state, how many input bytes it took, what it put out, and whether the stream ended.
\<close>

record 'z inflater =
  inf_new :: 'z
  inf_step :: "'z \<Rightarrow> bytes \<Rightarrow> nat \<Rightarrow> str + ('z \<times> nat \<times> bytes \<times> bool)"

text \<open>
  The loop of \<open>decompress_cluster\<close>: until the cluster is full, the stream ends, or a call makes no
  progress. The input slice \<open>comp[in_pos..]\<close> panics past the end.
\<close>

function inflate_loop ::
  "'z inflater \<Rightarrow> nat \<Rightarrow> bytes \<Rightarrow> 'z \<Rightarrow> nat \<Rightarrow> bytes \<Rightarrow> bytes result" where
  "inflate_loop fl cluster_size cdata z in_pos out =
     (if \<not> length out < cluster_size then Ok out
      else if length cdata < in_pos then Err Panic
      else case inf_step fl z (drop in_pos cdata) (cluster_size - length out) of
        Inl e \<Rightarrow> Err (Qcow2Error (S ''cluster decompression failed: '' @ e))
      | Inr (z', taken, produced, ended) \<Rightarrow>
          let stalled = (taken = 0 \<and> produced = [])
          in if ended \<or> stalled then Ok (out @ produced)
             else inflate_loop fl cluster_size cdata z' (in_pos + taken) (out @ produced))"
  by pat_completeness auto
termination
proof (relation "measure (\<lambda>(fl, cs, cdata, z, i, out). (length cdata + 1 - i) + (cs - length out))")
  fix fl :: "'z inflater" and cs :: nat and cdata out produced :: bytes and z z' :: 'z
    and in_pos taken :: nat and x y w ended stalled
  assume "\<not> \<not> length out < cs" and "\<not> length cdata < in_pos"
    and "stalled = (taken = 0 \<and> produced = [])" and "\<not> (ended \<or> stalled)"
  then have "length out < cs" "in_pos \<le> length cdata" "0 < taken \<or> 0 < length produced"
    by auto
  then have "(length cdata + 1 - (in_pos + taken)) + (cs - (length out + length produced)) <
        (length cdata + 1 - in_pos) + (cs - length out)"
    by linarith
  then show "((fl, cs, cdata, z', in_pos + taken, out @ produced), fl, cs, cdata, z, in_pos, out)
      \<in> measure (\<lambda>(fl, cs, cdata, z, i, out). (length cdata + 1 - i) + (cs - length out))"
    by simp
qed simp

declare inflate_loop.simps [simp del]

section \<open>Opening\<close>

definition backing_name_of :: "dev \<Rightarrow> u64 \<Rightarrow> nat \<Rightarrow> str option result" where
  "backing_name_of host backing_file_offset backing_file_size =
     (if backing_file_offset \<noteq> 0 \<and> 0 < backing_file_size then
        if 1023 < backing_file_size
        then Err (Qcow2Error (S ''implausible backing file name length''))
        else rbind (dev_read host backing_file_offset backing_file_size)
               (\<lambda>name. Ok (Some (from_utf8_lossy name)))
      else Ok None)"

definition check_incompatible :: "u64 \<Rightarrow> unit result" where
  "check_incompatible incompatible =
     (if incompatible AND INCOMPAT_CORRUPT \<noteq> 0
      then Err (Qcow2Error (S ''image is marked corrupt''))
      else if incompatible AND INCOMPAT_EXTERNAL_DATA \<noteq> 0
      then Err (Qcow2Unsupported (S ''external data file''))
      else if incompatible AND INCOMPAT_COMPRESSION_TYPE \<noteq> 0
      then Err (Qcow2Unsupported (S ''compression type other than zlib (likely zstd)''))
      else if incompatible AND INCOMPAT_EXTENDED_L2 \<noteq> 0
      then Err (Qcow2Unsupported (S ''extended L2 entries''))
      else if incompatible AND NOT INCOMPAT_DIRTY \<noteq> 0
      then Err (Qcow2Unsupported (S ''unknown incompatible features '' @ show_alt_hex (unat incompatible)))
      else Ok ())"

definition be64_chunks :: "bytes \<Rightarrow> u64 list" where
  "be64_chunks bs = map (\<lambda>i. be64_at bs (i * 8)) [0..<length bs div 8]"

definition qcow2_open :: "dev \<Rightarrow> qcow2 result" where
  "qcow2_open host =
     rbind (dev_read host 0 72) (\<lambda>hdr.
       if take 4 hdr \<noteq> QCOW2_MAGIC then Err (Qcow2Error (S ''bad magic''))
       else let version = be32_at hdr 4 in
       if version \<noteq> 2 \<and> version \<noteq> 3
       then Err (Qcow2Error (S ''unsupported version '' @ show_nat (unat version)))
       else rbind
         (if version = 3 then rbind (dev_read host 72 8) (\<lambda>b. Ok (be64_at b 0)) else Ok 0)
         (\<lambda>incompatible.
            let backing_file_offset = be64_at hdr 8;
                backing_file_size = unat (be32_at hdr 16);
                cluster_bits = be32_at hdr 20;
                virtual_size = be64_at hdr 24;
                crypt_method = be32_at hdr 32;
                l1_size = unat (be32_at hdr 36);
                l1_table_offset = be64_at hdr 40
            in
            if crypt_method \<noteq> 0 then Err (Qcow2Unsupported (S ''encryption''))
            else rbind (check_incompatible incompatible) (\<lambda>_.
            if \<not> (9 \<le> cluster_bits \<and> cluster_bits \<le> 21)
            then Err (Qcow2Error (S ''implausible cluster_bits '' @ show_nat (unat cluster_bits)))
            else rbind (backing_name_of host backing_file_offset backing_file_size) (\<lambda>backing_name.
            rbind (dev_read host l1_table_offset (l1_size * 8)) (\<lambda>l1_raw.
              Ok \<lparr>q_host = host, q_virtual_size = virtual_size, q_cluster_bits = cluster_bits,
                  q_l1 = be64_chunks l1_raw, q_backing_name = backing_name,
                  q_backing = None\<rparr>)))))"

definition backing_file :: "qcow2 \<Rightarrow> str option" where
  "backing_file q = q_backing_name q"

definition set_backing :: "qcow2 \<Rightarrow> dev \<Rightarrow> qcow2" where
  "set_backing q backing = q\<lparr>q_backing := Some backing\<rparr>"

section \<open>Mapping a cluster\<close>

definition cluster_size :: "qcow2 \<Rightarrow> u64" where
  "cluster_size q = push_bit (unat (q_cluster_bits q)) 1"

definition map_cluster :: "qcow2 \<Rightarrow> u64 \<Rightarrow> mapping result" where
  "map_cluster q guest_offset =
     (let l2_entries = cluster_size q div 8;
          cluster_index = drop_bit (unat (q_cluster_bits q)) guest_offset;
          l1_index = unat (cluster_index div l2_entries);
          l2_index = cluster_index mod l2_entries;
          l2_table = unwrap_or (get (q_l1 q) l1_index) 0 AND L1_OFFSET_MASK
      in if l2_table = 0 then Ok MUnallocated
         else rbind (dev_read (q_host q) (l2_table + l2_index * 8) 8) (\<lambda>buf.
           let entry = be64_at buf 0 in
           if entry AND L2_COMPRESSED \<noteq> 0 then
             let x = 62 - (unat (q_cluster_bits q) - 8);
                 desc = entry AND NOT (push_bit 62 3);
                 offset = desc AND (push_bit x 1 - 1);
                 sectors = drop_bit x desc + 1;
                 csize = unat (sectors * 512 - (offset AND 511))
             in Ok (MCompressed offset csize)
           else if entry AND L2_ZERO_FLAG \<noteq> 0 then Ok MZero
           else let host_offset = entry AND L2_OFFSET_MASK
                in if host_offset = 0 then Ok MUnallocated else Ok (MData host_offset)))"

text \<open>\<open>has_compressed_clusters\<close>: the loop over the L1 entries.\<close>

fun has_compressed_loop :: "qcow2 \<Rightarrow> u64 list \<Rightarrow> bool result" where
  "has_compressed_loop q [] = Ok False"
| "has_compressed_loop q (l1_entry # l1) =
     (let l2_table = l1_entry AND L1_OFFSET_MASK in
      if l2_table = 0 then has_compressed_loop q l1
      else rbind (dev_read (q_host q) l2_table (unat (cluster_size q))) (\<lambda>l2.
        if list_ex (\<lambda>entry. entry AND L2_COMPRESSED \<noteq> 0) (be64_chunks l2) then Ok True
        else has_compressed_loop q l1))"

definition has_compressed_clusters :: "qcow2 \<Rightarrow> bool result" where
  "has_compressed_clusters q = has_compressed_loop q (q_l1 q)"

section \<open>Reading\<close>

text \<open>A cache miss: read what exists of the compressed bytes and inflate one cluster.\<close>

definition inflate_cluster :: "'z inflater \<Rightarrow> qcow2 \<Rightarrow> u64 \<Rightarrow> nat \<Rightarrow> bytes result" where
  "inflate_cluster fl q offset csize =
     (let avail = saturating_sub (dev_size (q_host q)) offset;
          n = min csize (unat avail)
      in rbind (dev_read (q_host q) offset n) (\<lambda>cdata.
         let cs = unat (cluster_size q) in
         rbind (inflate_loop fl cs cdata (inf_new fl) 0 []) (\<lambda>out.
           if length out \<noteq> cs
           then Err (Qcow2Error (S ''compressed cluster at '' @ show_alt_hex (unat offset) @
                  S '' inflated to '' @ show_nat (length out) @ S '' bytes, expected '' @ show_nat cs))
           else Ok out)))"

definition cache_push :: "cluster_cache \<Rightarrow> u64 \<Rightarrow> bytes \<Rightarrow> cluster_cache" where
  "cache_push cache offset data =
     (if CACHE_CLUSTERS \<le> length cache then tl cache else cache) @ [(offset, data)]"

definition decompress_cluster ::
  "'z inflater \<Rightarrow> qcow2 \<Rightarrow> cluster_cache \<Rightarrow> u64 \<Rightarrow> nat \<Rightarrow> bytes result \<times> cluster_cache" where
  "decompress_cluster fl q cache offset csize =
     (case find (\<lambda>(o', _). o' = offset) cache of
        Some (_, data) \<Rightarrow> (Ok data, cache)
      | None \<Rightarrow>
          (case inflate_cluster fl q offset csize of
             Inl e \<Rightarrow> (Err e, cache)
           | Inr data \<Rightarrow> (Ok data, cache_push cache offset data)))"

definition read_backing :: "qcow2 \<Rightarrow> u64 \<Rightarrow> nat \<Rightarrow> bytes result" where
  "read_backing q offset n =
     (case q_backing q of
        None \<Rightarrow> Ok (replicate n 0)
      | Some backing \<Rightarrow>
          let avail = saturating_sub (dev_size backing) offset;
              m = min n (unat avail)
          in rbind (if 0 < m then dev_read backing offset m else Ok [])
               (\<lambda>head. Ok (head @ replicate (n - m) 0)))"

text \<open>One round of the loop of \<open>read_at\<close>: \<open>chunk\<close> bytes at \<open>within\<close> in the cluster of \<open>pos\<close>.\<close>

definition read_chunk ::
  "'z inflater \<Rightarrow> qcow2 \<Rightarrow> cluster_cache \<Rightarrow> u64 \<Rightarrow> u64 \<Rightarrow> nat \<Rightarrow> bytes result \<times> cluster_cache" where
  "read_chunk fl q cache pos within chunk =
     (case map_cluster q (pos - within) of
        Inl e \<Rightarrow> (Err e, cache)
      | Inr (MData host_cluster) \<Rightarrow> (dev_read (q_host q) (host_cluster + within) chunk, cache)
      | Inr MZero \<Rightarrow> (Ok (replicate chunk 0), cache)
      | Inr MUnallocated \<Rightarrow> (read_backing q pos chunk, cache)
      | Inr (MCompressed offset csize) \<Rightarrow>
          (case decompress_cluster fl q cache offset csize of
             (Inl e, cache') \<Rightarrow> (Err e, cache')
           | (Inr data, cache') \<Rightarrow>
               (ok_or (get_range data (unat within) (unat within + chunk)) Panic, cache')))"

lemma within_lt:
  fixes cs pos :: u64
  assumes "cs \<noteq> 0"
  shows "unat (pos mod cs) < unat cs" and "unat (cs - pos mod cs) = unat cs - unat (pos mod cs)"
    and "0 < unat (cs - pos mod cs)"
proof -
  show 1: "unat (pos mod cs) < unat cs"
    using assms by (simp add: unat_mod unat_gt_0)
  then have "pos mod cs \<le> cs" by (simp add: word_le_nat_alt)
  then show 2: "unat (cs - pos mod cs) = unat cs - unat (pos mod cs)" by (rule unat_sub)
  show "0 < unat (cs - pos mod cs)" unfolding 2 using 1 by simp
qed

text \<open>The loop. A cluster size of 0 would panic in \<open>pos % cluster_size\<close>.\<close>

function qcow2_loop ::
  "'z inflater \<Rightarrow> qcow2 \<Rightarrow> cluster_cache \<Rightarrow> u64 \<Rightarrow> nat \<Rightarrow> bytes \<Rightarrow> bytes result \<times> cluster_cache" where
  "qcow2_loop fl q cache pos n acc =
     (if n = 0 then (Ok acc, cache)
      else if cluster_size q = 0 then (Err Panic, cache)
      else
        let within = pos mod cluster_size q;
            chunk = min (unat (cluster_size q - within)) n
        in case read_chunk fl q cache pos within chunk of
             (Inl e, cache') \<Rightarrow> (Err e, cache')
           | (Inr head, cache') \<Rightarrow>
               qcow2_loop fl q cache' (pos + of_nat chunk) (n - chunk) (acc @ head))"
  by pat_completeness auto

termination
  using within_lt(3)
  by (relation "measure (\<lambda>(fl, q, cache, pos, n, acc). n)") fastforce+

declare qcow2_loop.simps [simp del]

definition qcow2_read ::
  "'z inflater \<Rightarrow> qcow2 \<Rightarrow> cluster_cache \<Rightarrow> u64 \<Rightarrow> nat \<Rightarrow> bytes result \<times> cluster_cache" where
  "qcow2_read fl q cache offset n =
     (case check_bounds (q_virtual_size q) offset n of
        Inl e \<Rightarrow> (Err e, cache)
      | Inr _ \<Rightarrow> qcow2_loop fl q cache offset n [])"

section \<open>What the decoder promises\<close>

text \<open>
  Documented behaviour of a streaming decoder. \<open>dec c\<close> is everything the input \<open>c\<close> decodes to, and
  \<open>R z c p\<close> says that a decoder in state \<open>z\<close> has taken \<open>c\<close> and put out \<open>p\<close>: it takes no more than it
  is given and writes no more than there is room, what it writes continues a prefix of what its input
  decodes to, and more input only adds output.
\<close>

definition decodes :: "'z inflater \<Rightarrow> (bytes \<Rightarrow> bytes) \<Rightarrow> ('z \<Rightarrow> bytes \<Rightarrow> bytes \<Rightarrow> bool) \<Rightarrow> bool" where
  "decodes fl dec R \<longleftrightarrow>
     R (inf_new fl) [] [] \<and>
     (\<forall>z c p inp room z' k out e. R z c p \<and> inf_step fl z inp room = Inr (z', k, out, e) \<longrightarrow>
        k \<le> length inp \<and> length out \<le> room \<and> R z' (c @ take k inp) (p @ out)) \<and>
     (\<forall>z c p. R z c p \<longrightarrow> prefix p (dec c)) \<and>
     (\<forall>a b. prefix a b \<longrightarrow> prefix (dec a) (dec b))"

lemma decodes_new: "decodes fl dec R \<Longrightarrow> R (inf_new fl) [] []"
  by (simp add: decodes_def)

lemma decodes_step:
  assumes "decodes fl dec R" and "R z c p" and "inf_step fl z inp room = Inr (z', k, out, e)"
  shows "k \<le> length inp" and "length out \<le> room" and "R z' (c @ take k inp) (p @ out)"
  using assms unfolding decodes_def by blast+

lemma decodes_prefix: "decodes fl dec R \<Longrightarrow> R z c p \<Longrightarrow> prefix p (dec c)"
  unfolding decodes_def by blast

lemma decodes_mono: "decodes fl dec R \<Longrightarrow> prefix a b \<Longrightarrow> prefix (dec a) (dec b)"
  unfolding decodes_def by blast

lemma decodes_feed:
  assumes "decodes fl dec R" and "R z (take i cdata) out" and "i \<le> length cdata"
    and "inf_step fl z (drop i cdata) room = Inr (z', j, p, e)"
  shows "i + j \<le> length cdata" and "R z' (take (i + j) cdata) (out @ p)"
  using decodes_step [OF assms(1,2,4)] assms(3) by (auto simp: take_add)

lemma decodes_out:
  "decodes fl dec R \<Longrightarrow> R z (take i cdata) out \<Longrightarrow> prefix out (dec cdata)"
  using decodes_prefix [of fl dec R z "take i cdata" out]
    decodes_mono [of fl dec R "take i cdata" cdata] take_is_prefix [of i cdata]
  by (blast intro: prefix_order.order_trans)

lemma inflate_loop_no_panic:
  assumes "decodes fl dec R" and "R z (take i cdata) out" and "i \<le> length cdata"
  shows "inflate_loop fl cs cdata z i out \<noteq> Err Panic"
  using assms
proof (induction fl cs cdata z i out rule: inflate_loop.induct)
  case (1 fl cs cdata z i out)
  show ?case
  proof (cases "inf_step fl z (drop i cdata) (cs - length out)")
    case (Inr r)
    then obtain z' j p e where r: "inf_step fl z (drop i cdata) (cs - length out) = Inr (z', j, p, e)"
      by (cases r) auto
    note feed = decodes_feed [OF 1(2-4) r]
    show ?thesis
      using 1(1) [OF _ _ r refl refl refl refl _ 1(2) feed(2,1)] r 1(4)
      by (subst inflate_loop.simps) (auto simp: Let_def)
  qed (use 1(4) in \<open>subst inflate_loop.simps, simp\<close>)
qed

lemma inflate_loop_sound:
  assumes "decodes fl dec R" and "R z (take i cdata) out" and "i \<le> length cdata"
    and "inflate_loop fl cs cdata z i out = Ok d"
  shows "prefix d (dec cdata)"
  using assms
proof (induction fl cs cdata z i out rule: inflate_loop.induct)
  case (1 fl cs cdata z i out)
  show ?case
  proof (cases "length out < cs")
    case False
    with 1(5) decodes_out [OF 1(2,3)] show ?thesis
      by (subst (asm) inflate_loop.simps) simp
  next
    case True
    with 1(4,5) obtain z' j p e where
      r: "inf_step fl z (drop i cdata) (cs - length out) = Inr (z', j, p, e)"
      by (subst (asm) inflate_loop.simps) (auto split: sum.splits)
    note feed = decodes_feed [OF 1(2-4) r]
    show ?thesis
    proof (cases "e \<or> (j = 0 \<and> p = [])")
      case True
      with 1(4,5) r \<open>length out < cs\<close> have "d = out @ p"
        by (subst (asm) inflate_loop.simps) (auto simp: Let_def)
      with decodes_out [OF 1(2) feed(2)] show ?thesis by simp
    next
      case False
      then have "inflate_loop fl cs cdata z' (i + j) (out @ p) = Ok d"
        using 1(4,5) r \<open>length out < cs\<close>
        by (subst (asm) inflate_loop.simps) (auto simp: Let_def split: if_splits)
      with False 1(1) [OF _ _ r refl refl refl refl _ 1(2) feed(2,1)] 1(4) \<open>length out < cs\<close>
      show ?thesis by auto
    qed
  qed
qed

section \<open>The guest's bytes\<close>

text \<open>An open image has \<open>9 \<le> cluster_bits \<le> 21\<close>.\<close>

definition qcow2_ok :: "qcow2 \<Rightarrow> bool" where
  "qcow2_ok q \<longleftrightarrow> 9 \<le> unat (q_cluster_bits q) \<and> unat (q_cluster_bits q) \<le> 21"

lemma qcow2_open_ok: "qcow2_open host = Ok q \<Longrightarrow> qcow2_ok q"
  by (auto simp: qcow2_open_def Let_def rbind_eq_Ok qcow2_ok_def word_le_nat_alt split: if_splits)

lemma unat_cluster_size:
  assumes "qcow2_ok q"
  shows "unat (cluster_size q) = 2 ^ unat (q_cluster_bits q)"
proof -
  have "(2 :: nat) ^ unat (q_cluster_bits q) < 2 ^ 64"
    using assms by (intro power_strict_increasing) (auto simp: qcow2_ok_def)
  then show ?thesis
    unfolding cluster_size_def unsigned_push_bit_eq
    by (simp add: take_bit_eq_mod push_bit_eq_mult)
qed

lemma cluster_size_bounds:
  assumes "qcow2_ok q"
  shows "512 \<le> unat (cluster_size q)" and "unat (cluster_size q) \<le> 2 ^ 21"
proof -
  have "(2 :: nat) ^ 9 \<le> 2 ^ unat (q_cluster_bits q)"
    using assms by (intro power_increasing) (auto simp: qcow2_ok_def)
  then show "512 \<le> unat (cluster_size q)" by (simp add: unat_cluster_size [OF assms])
  have "(2 :: nat) ^ unat (q_cluster_bits q) \<le> 2 ^ 21"
    using assms by (intro power_increasing) (auto simp: qcow2_ok_def)
  then show "unat (cluster_size q) \<le> 2 ^ 21" by (simp add: unat_cluster_size [OF assms])
qed

lemma cluster_size_nonzero: "qcow2_ok q \<Longrightarrow> cluster_size q \<noteq> 0"
  using cluster_size_bounds(1) [of q] by auto

text \<open>
  Byte \<open>i\<close> of the guest disk: what the map says of its cluster. \<open>f\<close> is what the host file holds,
  \<open>g\<close> what the backing device holds, \<open>dec\<close> what compressed bytes decode to.
\<close>

definition host_tail :: "qcow2 \<Rightarrow> (nat \<Rightarrow> u8) \<Rightarrow> u64 \<Rightarrow> bytes" where
  "host_tail q f offset =
     segment f (unat offset) (unat (saturating_sub (dev_size (q_host q)) offset))"

definition cluster_byte ::
  "qcow2 \<Rightarrow> (nat \<Rightarrow> u8) \<Rightarrow> (nat \<Rightarrow> u8) \<Rightarrow> (bytes \<Rightarrow> bytes) \<Rightarrow> mapping \<Rightarrow> u64 \<Rightarrow> u64 \<Rightarrow> u8" where
  "cluster_byte q f g dec m pos within =
     (case m of
        MData host_cluster \<Rightarrow> f (unat (host_cluster + within))
      | MZero \<Rightarrow> 0
      | MUnallocated \<Rightarrow>
          (case q_backing q of None \<Rightarrow> 0
           | Some b \<Rightarrow> if unat pos < unat (dev_size b) then g (unat pos) else 0)
      | MCompressed offset csize \<Rightarrow> dec (host_tail q f offset) ! unat within)"

definition guest_byte ::
  "qcow2 \<Rightarrow> (nat \<Rightarrow> u8) \<Rightarrow> (nat \<Rightarrow> u8) \<Rightarrow> (bytes \<Rightarrow> bytes) \<Rightarrow> nat \<Rightarrow> u8" where
  "guest_byte q f g dec i =
     (let pos = of_nat i; within = pos mod cluster_size q
      in case map_cluster q (pos - within) of
           Inl _ \<Rightarrow> 0
         | Inr m \<Rightarrow> cluster_byte q f g dec m pos within)"

text \<open>The cache holds only clusters, at most 32, each what the host's bytes at its offset decode to.\<close>

definition cache_ok :: "qcow2 \<Rightarrow> (nat \<Rightarrow> u8) \<Rightarrow> (bytes \<Rightarrow> bytes) \<Rightarrow> cluster_cache \<Rightarrow> bool" where
  "cache_ok q f dec cache \<longleftrightarrow>
     length cache \<le> CACHE_CLUSTERS \<and>
     (\<forall>(offset, data) \<in> set cache.
        length data = unat (cluster_size q) \<and> prefix data (dec (host_tail q f offset)))"

lemma cache_ok_Nil: "cache_ok q f dec []"
  by (simp add: cache_ok_def)

lemma cache_ok_push:
  assumes "cache_ok q f dec cache" and "length data = unat (cluster_size q)"
    and "prefix data (dec (host_tail q f offset))"
  shows "cache_ok q f dec (cache_push cache offset data)"
  using assms
  by (auto simp: cache_ok_def cache_push_def CACHE_CLUSTERS_def dest: list.set_sel(2) [rotated]
      split: if_splits)

lemma inflate_cluster_sound:
  assumes host: "sound_device (dev_size (q_host q)) (dev_read (q_host q)) f"
    and dec: "decodes fl dec R"
    and "inflate_cluster fl q offset csize = Ok data"
  shows "length data = unat (cluster_size q)" and "prefix data (dec (host_tail q f offset))"
proof -
  define n where "n = min csize (unat (saturating_sub (dev_size (q_host q)) offset))"
  from assms(3) obtain cdata where
    r: "dev_read (q_host q) offset n = Ok cdata" and
    l: "inflate_loop fl (unat (cluster_size q)) cdata (inf_new fl) 0 [] = Ok data" and
    len: "length data = unat (cluster_size q)"
    by (auto simp: inflate_cluster_def Let_def rbind_eq_Ok n_def split: if_splits)
  show "length data = unat (cluster_size q)" by (rule len)
  have "prefix data (dec cdata)"
    using inflate_loop_sound [OF dec _ _ l] decodes_new [OF dec] by simp
  moreover have "prefix cdata (host_tail q f offset)"
    using sound_device.read_sound [OF host r] take_is_prefix [of n "host_tail q f offset"]
    by (simp add: host_tail_def take_segment n_def)
  ultimately show "prefix data (dec (host_tail q f offset))"
    using decodes_mono [OF dec] by (blast intro: prefix_order.order_trans)
qed

lemma decompress_cluster_sound:
  assumes host: "sound_device (dev_size (q_host q)) (dev_read (q_host q)) f"
    and dec: "decodes fl dec R" and cache: "cache_ok q f dec cache"
    and run: "decompress_cluster fl q cache offset csize = (r, cache')"
  shows "cache_ok q f dec cache'"
    and "r = Ok data \<Longrightarrow> length data = unat (cluster_size q) \<and>
           prefix data (dec (host_tail q f offset))"
proof -
  have "cache_ok q f dec cache' \<and> (r = Ok data \<longrightarrow> length data = unat (cluster_size q) \<and>
           prefix data (dec (host_tail q f offset)))"
  proof (cases "find (\<lambda>(o', _). o' = offset) cache")
    case (Some e)
    then obtain d where "e = (offset, d)" "(offset, d) \<in> set cache"
      by (cases e) (auto dest: find_Some_in)
    with Some run cache show ?thesis
      by (auto simp: decompress_cluster_def cache_ok_def)
  next
    case None
    with run cache inflate_cluster_sound [OF host dec] show ?thesis
      by (auto simp: decompress_cluster_def intro: cache_ok_push split: sum.splits)
  qed
  then show "cache_ok q f dec cache'"
    and "r = Ok data \<Longrightarrow> length data = unat (cluster_size q) \<and>
           prefix data (dec (host_tail q f offset))" by auto
qed

lemma same_cluster:
  fixes cs pos :: u64
  assumes "cs \<noteq> 0" and "unat (pos mod cs) + k < unat cs" and "unat pos + k < 2 ^ 64"
  shows "(pos + of_nat k) mod cs = pos mod cs + of_nat k"
    and "pos + of_nat k - (pos + of_nat k) mod cs = pos - pos mod cs"
proof -
  have p: "unat (pos + of_nat k) = unat pos + k" by (rule unat_add_nat [OF assms(3)])
  have "unat (pos mod cs) + k < 2 ^ 64" using assms(2) unat_u64_lt [of cs] by linarith
  then have w: "unat (pos mod cs + of_nat k) = unat (pos mod cs) + k" by (rule unat_add_nat)
  have "(unat pos + k) mod unat cs = unat pos mod unat cs + k"
    using assms(2) by (metis mod_add_left_eq mod_less unat_mod)
  then have "unat ((pos + of_nat k) mod cs) = unat (pos mod cs + of_nat k)"
    by (simp only: unat_mod p w)
  then show 1: "(pos + of_nat k) mod cs = pos mod cs + of_nat k"
    by (simp only: word_unat_eq_iff)
  show "pos + of_nat k - (pos + of_nat k) mod cs = pos - pos mod cs"
    unfolding 1 by simp
qed

lemma read_backing_sound:
  assumes backing: "\<And>b. q_backing q = Some b \<Longrightarrow> sound_device (dev_size b) (dev_read b) g"
    and r: "read_backing q pos n = Ok bs" and fits: "unat pos + n < 2 ^ 64"
  shows "bs = map (\<lambda>k. cluster_byte q f g dec MUnallocated (pos + of_nat k) w) [0..<n]"
proof (cases "q_backing q")
  case None
  with r show ?thesis by (simp add: read_backing_def cluster_byte_def map_replicate_const)
next
  case (Some b)
  define m where "m = min n (unat (saturating_sub (dev_size b) pos))"
  from r Some have "rbind (if 0 < m then dev_read b pos m else Ok [])
      (\<lambda>head. Ok (head @ replicate (n - m) 0)) = Ok bs"
    unfolding m_def by (simp add: read_backing_def Let_def)
  then obtain head where
    h: "(if 0 < m then dev_read b pos m else Ok []) = Ok head" and
    bs: "bs = head @ replicate (n - m) 0"
    unfolding rbind_eq_Ok by blast
  have head: "head = segment g (unat pos) m"
    using h sound_device.read_sound [OF backing [OF Some], of pos m head]
    by (cases "m = 0") auto
  have u: "unat (pos + of_nat k) = unat pos + k" if "k < n" for k
    using that fits by (intro unat_add_nat) linarith
  have lt: "unat pos + k < unat (dev_size b) \<longleftrightarrow> k < m" if "k < n" for k
    using that by (auto simp: m_def unat_saturating_sub)
  have "m \<le> n" by (simp add: m_def)
  then show ?thesis
    unfolding bs head using Some u lt
    by (intro nth_equalityI) (auto simp: cluster_byte_def nth_append)
qed

text \<open>One chunk: it stays in its cluster, and its bytes are the cluster's.\<close>

lemma map_cluster_data_bound:
  assumes "map_cluster q a = Ok (MData h)"
  shows "unat h < 2 ^ 56"
proof -
  from assms obtain e where "h = e AND L2_OFFSET_MASK"
    by (auto simp: map_cluster_def Let_def rbind_eq_Ok split: if_splits)
  then have "h \<le> L2_OFFSET_MASK" by (simp add: word_and_le1)
  then show ?thesis by (simp add: L2_OFFSET_MASK_def word_le_nat_alt)
qed

lemma read_chunk_cache:
  assumes host: "sound_device (dev_size (q_host q)) (dev_read (q_host q)) f"
    and dec: "decodes fl dec R" and cache: "cache_ok q f dec cache"
    and run: "read_chunk fl q cache pos within chunk = (r, cache')"
  shows "cache_ok q f dec cache'"
proof (cases "map_cluster q (pos - within)")
  case (Inr m)
  show ?thesis
  proof (cases m)
    case (MCompressed offset csize)
    then obtain r' where "decompress_cluster fl q cache offset csize = (r', cache')"
      using run Inr by (auto simp: read_chunk_def split: prod.splits sum.splits)
    then show ?thesis by (rule decompress_cluster_sound(1) [OF host dec cache])
  qed (use run Inr cache in \<open>auto simp: read_chunk_def\<close>)
qed (use run cache in \<open>auto simp: read_chunk_def\<close>)

lemma read_chunk_bytes:
  assumes host: "sound_device (dev_size (q_host q)) (dev_read (q_host q)) f"
    and backing: "\<And>b. q_backing q = Some b \<Longrightarrow> sound_device (dev_size b) (dev_read b) g"
    and dec: "decodes fl dec R" and cache: "cache_ok q f dec cache" and ok: "qcow2_ok q"
    and run: "read_chunk fl q cache pos within chunk = (Ok bs, cache')"
    and m: "map_cluster q (pos - within) = Ok m"
    and fits: "unat within + chunk \<le> unat (cluster_size q)" "unat pos + chunk < 2 ^ 64"
  shows "bs = map (\<lambda>k. cluster_byte q f g dec m (pos + of_nat k) (within + of_nat k)) [0..<chunk]"
proof -
  have w: "unat (within + of_nat k) = unat within + k" if "k < chunk" for k
    using that fits(1) unat_u64_lt [of "cluster_size q"] by (intro unat_add_nat) linarith
  show ?thesis
  proof (cases m)
    case (MData h)
    have "unat h < 2 ^ 56" using m MData map_cluster_data_bound by blast
    moreover have le: "unat within + chunk \<le> 2 ^ 21"
      using fits(1) cluster_size_bounds(2) [OF ok] by linarith
    ultimately have hw: "unat (h + within + of_nat k) = unat (h + within) + k" if "k \<le> chunk" for k
      using that unat_add_nat [of h "unat within"] by (intro unat_add_nat) simp
    have "bs = segment f (unat (h + within)) chunk"
      using run m MData sound_device.read_sound [OF host] by (auto simp: read_chunk_def)
    with MData hw show ?thesis
      by (intro nth_equalityI) (auto simp: cluster_byte_def add.assoc)
  next
    case MZero
    with run m show ?thesis
      by (auto simp: read_chunk_def cluster_byte_def map_replicate_const)
  next
    case MUnallocated
    with run m have "read_backing q pos chunk = Ok bs" by (simp add: read_chunk_def)
    from read_backing_sound [OF backing this fits(2)] MUnallocated show ?thesis
      by (simp add: cluster_byte_def)
  next
    case (MCompressed offset csize)
    with run m obtain data where
      d: "decompress_cluster fl q cache offset csize = (Ok data, cache')" and
      g: "get_range data (unat within) (unat within + chunk) = Some bs"
      by (auto simp: read_chunk_def split: prod.splits sum.splits)
    have "prefix data (dec (host_tail q f offset))" and l: "length data = unat (cluster_size q)"
      using decompress_cluster_sound(2) [OF host dec cache d refl] by auto
    then obtain rest where rest: "dec (host_tail q f offset) = data @ rest"
      by (auto simp: prefix_def)
    from g fits(1) l MCompressed w show ?thesis
      by (intro nth_equalityI) (auto simp: get_range_Some cluster_byte_def rest nth_append)
  qed
qed

lemma read_chunk_guest:
  assumes host: "sound_device (dev_size (q_host q)) (dev_read (q_host q)) f"
    and backing: "\<And>b. q_backing q = Some b \<Longrightarrow> sound_device (dev_size b) (dev_read b) g"
    and dec: "decodes fl dec R" and cache: "cache_ok q f dec cache" and ok: "qcow2_ok q"
    and run: "read_chunk fl q cache pos (pos mod cluster_size q) chunk = (Ok bs, cache')"
    and fits: "unat (pos mod cluster_size q) + chunk \<le> unat (cluster_size q)"
      "unat pos + chunk < 2 ^ 64"
  shows "bs = segment (guest_byte q f g dec) (unat pos) chunk"
proof -
  let ?w = "pos mod cluster_size q"
  obtain m where m: "map_cluster q (pos - ?w) = Ok m"
    using run by (cases "map_cluster q (pos - ?w)") (auto simp: read_chunk_def)
  have bs: "bs = map (\<lambda>k. cluster_byte q f g dec m (pos + of_nat k) (?w + of_nat k)) [0..<chunk]"
    by (rule read_chunk_bytes [OF host backing dec cache ok run m fits])
  have "guest_byte q f g dec (unat pos + k) =
      cluster_byte q f g dec m (pos + of_nat k) (?w + of_nat k)" if "k < chunk" for k
  proof -
    have "(of_nat (unat pos + k) :: u64) = pos + of_nat k" by simp
    then show ?thesis
      using same_cluster [OF cluster_size_nonzero [OF ok], of pos k] that fits m
      by (simp add: guest_byte_def Let_def)
  qed
  then show ?thesis unfolding bs by (intro nth_equalityI) auto
qed

lemma chunk_fits:
  fixes pos :: u64 and n :: nat
  assumes ok: "qcow2_ok q" and fits: "unat pos + n < 2 ^ 64"
  defines "chunk \<equiv> min (unat (cluster_size q - pos mod cluster_size q)) n"
  shows "unat (pos mod cluster_size q) + chunk \<le> unat (cluster_size q)"
    and "unat pos + chunk < 2 ^ 64" and "chunk \<le> n"
    and "unat (pos + of_nat chunk) = unat pos + chunk"
proof -
  show "unat (pos mod cluster_size q) + chunk \<le> unat (cluster_size q)"
    using within_lt [OF cluster_size_nonzero [OF ok], of pos] by (simp add: chunk_def)
  show c: "chunk \<le> n" by (simp add: chunk_def)
  with fits show p: "unat pos + chunk < 2 ^ 64" by linarith
  then show "unat (pos + of_nat chunk) = unat pos + chunk" by (rule unat_add_nat)
qed

lemma qcow2_loop_guest:
  assumes host: "sound_device (dev_size (q_host q)) (dev_read (q_host q)) f"
    and backing: "\<And>b. q_backing q = Some b \<Longrightarrow> sound_device (dev_size b) (dev_read b) g"
    and dec: "decodes fl dec R" and cache: "cache_ok q f dec cache" and ok: "qcow2_ok q"
    and fits: "unat pos + n < 2 ^ 64"
    and run: "qcow2_loop fl q cache pos n acc = (r, cache')"
  shows "cache_ok q f dec cache' \<and>
    (\<forall>bs. r = Ok bs \<longrightarrow> bs = acc @ segment (guest_byte q f g dec) (unat pos) n)"
  using cache fits run
proof (induction n arbitrary: cache pos acc rule: less_induct)
  case (less n)
  note cz = cluster_size_nonzero [OF ok]
  show ?case
  proof (cases "n = 0")
    case True
    with less.prems show ?thesis by (auto simp: qcow2_loop.simps)
  next
    case False
    let ?chunk = "min (unat (cluster_size q - pos mod cluster_size q)) n"
    obtain r1 c1 where rc: "read_chunk fl q cache pos (pos mod cluster_size q) ?chunk = (r1, c1)"
      by (cases "read_chunk fl q cache pos (pos mod cluster_size q) ?chunk")
    note fit = chunk_fits [OF ok less.prems(2)]
    have c1: "cache_ok q f dec c1"
      by (rule read_chunk_cache [OF host dec less.prems(1) rc])
    show ?thesis
    proof (cases r1)
      case (Inl e)
      with less.prems(3) rc cz False c1 show ?thesis
        by (subst (asm) qcow2_loop.simps) (auto simp: Let_def)
    next
      case (Inr head)
      have head: "head = segment (guest_byte q f g dec) (unat pos) ?chunk"
        by (rule read_chunk_guest [OF host backing dec less.prems(1) ok rc [unfolded Inr] fit(1,2)])
      have run': "qcow2_loop fl q c1 (pos + of_nat ?chunk) (n - ?chunk) (acc @ head) = (r, cache')"
        using less.prems(3) rc cz False Inr by (subst (asm) qcow2_loop.simps) (simp add: Let_def)
      have "n - ?chunk < n" using within_lt(3) [OF cz, of pos] False by simp
      moreover have "unat (pos + of_nat ?chunk) + (n - ?chunk) < 2 ^ 64"
        unfolding fit(4) using fit(3) less.prems(2) by simp
      ultimately have "cache_ok q f dec cache' \<and> (\<forall>bs. r = Ok bs \<longrightarrow>
          bs = (acc @ head) @ segment (guest_byte q f g dec) (unat pos + ?chunk) (n - ?chunk))"
        using less.IH [OF _ c1 _ run'] unfolding fit(4) by blast
      then show ?thesis
        using segment_append [of "guest_byte q f g dec" "unat pos" ?chunk "n - ?chunk"] fit(3)
        unfolding head by simp
    qed
  qed
qed

text \<open>
  The contract of a read: whatever the cache holds, a successful read returns the guest's bytes and
  leaves a coherent cache; it fails on everything outside the virtual disk.
\<close>

lemma qcow2_read_guest:
  assumes host: "sound_device (dev_size (q_host q)) (dev_read (q_host q)) f"
    and backing: "\<And>b. q_backing q = Some b \<Longrightarrow> sound_device (dev_size b) (dev_read b) g"
    and dec: "decodes fl dec R" and cache: "cache_ok q f dec cache" and ok: "qcow2_ok q"
    and run: "qcow2_read fl q cache off n = (r, cache')"
  shows "cache_ok q f dec cache'"
    and "r = Ok bs \<Longrightarrow> bs = segment (guest_byte q f g dec) (unat off) n"
    and "r = Ok bs \<Longrightarrow> unat off + n \<le> unat (q_virtual_size q)"
proof -
  have "cache_ok q f dec cache' \<and> (r = Ok bs \<longrightarrow>
      bs = segment (guest_byte q f g dec) (unat off) n \<and> unat off + n \<le> unat (q_virtual_size q))"
  proof (cases "unat off + n \<le> unat (q_virtual_size q)")
    case True
    then have "unat off + n < 2 ^ 64" using unat_u64_lt [of "q_virtual_size q"] by linarith
    moreover have "qcow2_loop fl q cache off n [] = (r, cache')"
      using run True by (simp add: qcow2_read_def check_bounds_if)
    ultimately show ?thesis
      using qcow2_loop_guest [OF host backing dec cache ok] True by fastforce
  next
    case False
    with run cache show ?thesis by (auto simp: qcow2_read_def check_bounds_if)
  qed
  then show "cache_ok q f dec cache'"
    and "r = Ok bs \<Longrightarrow> bs = segment (guest_byte q f g dec) (unat off) n"
    and "r = Ok bs \<Longrightarrow> unat off + n \<le> unat (q_virtual_size q)" by auto
qed

text \<open>An image as a device: each read starts from some coherent cache, here the empty one.\<close>

definition qcow2_dev :: "'z inflater \<Rightarrow> qcow2 \<Rightarrow> dev" where
  "qcow2_dev fl q = \<lparr>dev_size = q_virtual_size q, dev_read = (\<lambda>off n. fst (qcow2_read fl q [] off n))\<rparr>"

lemma qcow2_sound_device:
  assumes "sound_device (dev_size (q_host q)) (dev_read (q_host q)) f"
    and "\<And>b. q_backing q = Some b \<Longrightarrow> sound_device (dev_size b) (dev_read b) g"
    and "decodes fl dec R" and "qcow2_ok q"
  shows "sound_device (dev_size (qcow2_dev fl q)) (dev_read (qcow2_dev fl q)) (guest_byte q f g dec)"
proof
  fix off n bs
  assume "dev_read (qcow2_dev fl q) off n = Ok bs"
  then obtain c' where r: "qcow2_read fl q [] off n = (Ok bs, c')"
    by (cases "qcow2_read fl q [] off n") (auto simp: qcow2_dev_def)
  note qcow2_read_guest(2,3) [OF assms(1,2,3) cache_ok_Nil assms(4) r refl]
  then show "bs = segment (guest_byte q f g dec) (unat off) n"
    and "unat off + n \<le> unat (dev_size (qcow2_dev fl q))"
    by (auto simp: qcow2_dev_def)
qed

section \<open>Reads of a well-formed image succeed\<close>

text \<open>
  Every cluster of the virtual disk has a mapping that can be followed: its data lie in the host file,
  or its compressed bytes inflate to a cluster.
\<close>

definition mapping_readable :: "'z inflater \<Rightarrow> qcow2 \<Rightarrow> mapping \<Rightarrow> bool" where
  "mapping_readable fl q m =
     (case m of
        MData h \<Rightarrow> unat h + unat (cluster_size q) \<le> unat (dev_size (q_host q))
      | MCompressed offset csize \<Rightarrow> (case inflate_cluster fl q offset csize of Inl _ \<Rightarrow> False | Inr _ \<Rightarrow> True)
      | _ \<Rightarrow> True)"

definition image_readable :: "'z inflater \<Rightarrow> qcow2 \<Rightarrow> bool" where
  "image_readable fl q \<longleftrightarrow>
     (\<forall>pos. unat pos < unat (q_virtual_size q) \<longrightarrow>
        (\<exists>m. map_cluster q (pos - pos mod cluster_size q) = Ok m \<and> mapping_readable fl q m))"

lemma read_backing_total:
  assumes "\<And>b. q_backing q = Some b \<Longrightarrow> total_device (dev_size b) (dev_read b) g"
  shows "\<exists>bs. read_backing q pos n = Ok bs"
proof (cases "q_backing q")
  case (Some b)
  define m where "m = min n (unat (saturating_sub (dev_size b) pos))"
  have "\<exists>head. (if 0 < m then dev_read b pos m else Ok []) = Ok head"
  proof (cases "0 < m")
    case True
    then have "unat pos + m \<le> unat (dev_size b)"
      unfolding m_def unat_saturating_sub by linarith
    from total_device.read_total [OF assms [OF Some] this] True show ?thesis by simp
  qed simp
  with Some show ?thesis
    unfolding m_def by (auto simp: read_backing_def Let_def)
qed (simp add: read_backing_def)

lemma read_chunk_total:
  assumes host: "total_device (dev_size (q_host q)) (dev_read (q_host q)) f"
    and backing: "\<And>b. q_backing q = Some b \<Longrightarrow> total_device (dev_size b) (dev_read b) g"
    and dec: "decodes fl dec R" and cache: "cache_ok q f dec cache" and ok: "qcow2_ok q"
    and m: "map_cluster q (pos - within) = Ok m" "mapping_readable fl q m"
    and fits: "unat within + chunk \<le> unat (cluster_size q)"
  shows "\<exists>bs cache'. read_chunk fl q cache pos within chunk = (Ok bs, cache')"
proof (cases m)
  case (MData h)
  have "unat h + unat within < 2 ^ 64"
    using m(2) MData fits unat_u64_lt [of "dev_size (q_host q)"] by (simp add: mapping_readable_def)
  then have "unat (h + within) = unat h + unat within"
    using unat_add_nat [of h "unat within"] by simp
  then have "unat (h + within) + chunk \<le> unat (dev_size (q_host q))"
    using m(2) MData fits by (simp add: mapping_readable_def)
  from total_device.read_total [OF host this] MData m(1) show ?thesis
    by (auto simp: read_chunk_def)
next
  case MUnallocated
  then show ?thesis
    using read_backing_total [of q g pos chunk, OF backing] m(1) by (auto simp: read_chunk_def)
next
  case (MCompressed offset csize)
  have sd: "sound_device (dev_size (q_host q)) (dev_read (q_host q)) f"
    using host by (simp add: total_device_def)
  obtain r c where d: "decompress_cluster fl q cache offset csize = (r, c)"
    by (cases "decompress_cluster fl q cache offset csize")
  have "\<exists>data. r = Ok data"
  proof (cases "find (\<lambda>(o', _). o' = offset) cache")
    case None
    from m(2) MCompressed obtain data where "inflate_cluster fl q offset csize = Ok data"
      by (auto simp: mapping_readable_def split: sum.splits)
    with d None have "r = Ok data" by (simp add: decompress_cluster_def)
    then show ?thesis by blast
  qed (use d in \<open>auto simp: decompress_cluster_def\<close>)
  then obtain data where r: "r = Ok data" by blast
  have "length data = unat (cluster_size q)"
    using decompress_cluster_sound(2) [OF sd dec cache d r] by simp
  then show ?thesis
    using d r m(1) MCompressed fits by (simp add: read_chunk_def get_range_def)
qed (use m(1) in \<open>simp add: read_chunk_def\<close>)

lemma qcow2_loop_total:
  assumes host: "total_device (dev_size (q_host q)) (dev_read (q_host q)) f"
    and backing: "\<And>b. q_backing q = Some b \<Longrightarrow> total_device (dev_size b) (dev_read b) g"
    and dec: "decodes fl dec R" and cache: "cache_ok q f dec cache" and ok: "qcow2_ok q"
    and image: "image_readable fl q" and fits: "unat pos + n \<le> unat (q_virtual_size q)"
  shows "\<exists>bs cache'. qcow2_loop fl q cache pos n acc = (Ok bs, cache')"
  using cache fits
proof (induction n arbitrary: cache pos acc rule: less_induct)
  case (less n)
  note cz = cluster_size_nonzero [OF ok]
  have sd: "sound_device (dev_size (q_host q)) (dev_read (q_host q)) f"
    using host by (simp add: total_device_def)
  show ?case
  proof (cases "n = 0")
    case True
    then show ?thesis by (simp add: qcow2_loop.simps)
  next
    case False
    let ?chunk = "min (unat (cluster_size q - pos mod cluster_size q)) n"
    have "unat pos + n < 2 ^ 64" using less.prems(2) unat_u64_lt [of "q_virtual_size q"] by linarith
    note fit = chunk_fits [OF ok this]
    have "unat pos < unat (q_virtual_size q)" using False less.prems(2) by simp
    with image obtain m where
      "map_cluster q (pos - pos mod cluster_size q) = Ok m" "mapping_readable fl q m"
      by (auto simp: image_readable_def)
    from read_chunk_total [OF host backing dec less.prems(1) ok this fit(1)]
    obtain head c1 where
      rc: "read_chunk fl q cache pos (pos mod cluster_size q) ?chunk = (Ok head, c1)" by blast
    have "n - ?chunk < n" using within_lt(3) [OF cz, of pos] False by simp
    moreover have "unat (pos + of_nat ?chunk) + (n - ?chunk) \<le> unat (q_virtual_size q)"
      unfolding fit(4) using fit(3) less.prems(2) by simp
    ultimately obtain bs c' where
      "qcow2_loop fl q c1 (pos + of_nat ?chunk) (n - ?chunk) (acc @ head) = (Ok bs, c')"
      using less.IH [OF _ read_chunk_cache [OF sd dec less.prems(1) rc]] by blast
    with rc cz False show ?thesis
      by (subst qcow2_loop.simps) (simp add: Let_def)
  qed
qed

lemma qcow2_read_total:
  assumes host: "total_device (dev_size (q_host q)) (dev_read (q_host q)) f"
    and backing: "\<And>b. q_backing q = Some b \<Longrightarrow> total_device (dev_size b) (dev_read b) g"
    and dec: "decodes fl dec R" and cache: "cache_ok q f dec cache" and ok: "qcow2_ok q"
    and image: "image_readable fl q" and fits: "unat off + n \<le> unat (q_virtual_size q)"
  shows "\<exists>cache'. qcow2_read fl q cache off n =
      (Ok (segment (guest_byte q f g dec) (unat off) n), cache')"
proof -
  obtain bs c' where r: "qcow2_read fl q cache off n = (Ok bs, c')"
    using qcow2_loop_total [OF host backing dec cache ok image fits, of "[]"] fits
    by (auto simp: qcow2_read_def check_bounds_if)
  have "sound_device (dev_size (q_host q)) (dev_read (q_host q)) f"
    and "\<And>b. q_backing q = Some b \<Longrightarrow> sound_device (dev_size b) (dev_read b) g"
    using host backing by (simp_all add: total_device_def)
  from qcow2_read_guest(2) [OF this dec cache ok r refl] r show ?thesis by blast
qed

section \<open>Compressed clusters\<close>

lemma length_be64_chunks [simp]: "length (be64_chunks bs) = length bs div 8"
  by (simp add: be64_chunks_def)

lemma be64_chunks_nth: "i < length bs div 8 \<Longrightarrow> be64_chunks bs ! i = be64_at bs (i * 8)"
  by (simp add: be64_chunks_def)

lemma has_compressed_loop_False:
  "has_compressed_loop q l1 = Ok False \<Longrightarrow> e \<in> set l1 \<Longrightarrow> e AND L1_OFFSET_MASK \<noteq> 0 \<Longrightarrow>
   \<exists>l2. dev_read (q_host q) (e AND L1_OFFSET_MASK) (unat (cluster_size q)) = Ok l2 \<and>
     (\<forall>x \<in> set (be64_chunks l2). x AND L2_COMPRESSED = 0)"
  by (induction q l1 rule: has_compressed_loop.induct)
    (auto simp: Let_def rbind_eq_Ok list_ex_iff split: if_splits)

text \<open>A \<open>false\<close> answer is a guarantee: no guest offset maps to a compressed cluster.\<close>

lemma has_compressed_clusters_False:
  assumes host: "sound_device (dev_size (q_host q)) (dev_read (q_host q)) f"
    and ok: "qcow2_ok q" and no: "has_compressed_clusters q = Ok False"
  shows "map_cluster q a \<noteq> Ok (MCompressed offset csize)"
proof
  assume m: "map_cluster q a = Ok (MCompressed offset csize)"
  let ?entries = "cluster_size q div 8"
  let ?ci = "drop_bit (unat (q_cluster_bits q)) a"
  let ?i = "unat (?ci div ?entries)"
  let ?t = "unwrap_or (get (q_l1 q) ?i) 0 AND L1_OFFSET_MASK"
  let ?off = "(?ci mod ?entries) * 8"
  from m obtain buf where t: "?t \<noteq> 0" and
    buf: "dev_read (q_host q) (?t + ?off) 8 = Ok buf" and
    c: "be64_at buf 0 AND L2_COMPRESSED \<noteq> 0"
    by (auto simp: map_cluster_def Let_def rbind_eq_Ok split: if_splits)
  from t obtain e where e: "e \<in> set (q_l1 q)" "?t = e AND L1_OFFSET_MASK"
    by (cases "?i < length (q_l1 q)") (auto simp: get_def intro: that [of "q_l1 q ! ?i"])
  with t no obtain l2 where
    l2: "dev_read (q_host q) ?t (unat (cluster_size q)) = Ok l2" and
    all: "\<forall>x \<in> set (be64_chunks l2). x AND L2_COMPRESSED = 0"
    using has_compressed_loop_False [of q "q_l1 q" e]
    by (auto simp: has_compressed_clusters_def)
  have l2s: "l2 = segment f (unat ?t) (unat (cluster_size q))"
    using sound_device.read_sound [OF host l2] .
  have n: "unat ?entries = unat (cluster_size q) div 8"
    by (simp add: unat_div)
  define k where "k = unat (?ci mod ?entries)"
  have cs8: "512 \<le> unat (cluster_size q)" "unat (cluster_size q) \<le> 2 ^ 21"
    using cluster_size_bounds [OF ok] by auto
  then have k: "k < unat (cluster_size q) div 8"
    using within_lt(1) [of ?entries ?ci] n by (cases "?entries = 0") (auto simp: k_def)
  have off: "unat ?off = k * 8"
    using k cs8 by (simp add: k_def unat_word_ariths)
  have "?t \<le> L1_OFFSET_MASK" by (simp add: word_and_le1)
  then have "unat ?t < 2 ^ 56" by (simp add: L1_OFFSET_MASK_def word_le_nat_alt)
  moreover have "k * 8 < 2 ^ 21" using k cs8 by linarith
  ultimately have "unat ?t + unat ?off < 2 ^ 64" unfolding off by simp
  then have "unat (?t + ?off) = unat ?t + k * 8" by (simp only: unat_plus off)
  then have "buf = segment f (unat ?t + k * 8) 8"
    using sound_device.read_sound [OF host buf] by simp
  moreover have "field l2 (k * 8) 8 = segment f (unat ?t + k * 8) 8"
    using k by (simp add: l2s field_def drop_segment take_segment)
  ultimately have "be64_at buf 0 = be64_chunks l2 ! k"
    using k by (simp add: be64_chunks_nth be64_at_def field_def l2s)
  moreover have "be64_chunks l2 ! k \<in> set (be64_chunks l2)"
    using k by (intro nth_mem) (simp add: l2s)
  ultimately show False using c all by metis
qed

section \<open>Properties\<close>

text \<open>
  C1: reading a qcow2 image is transparent to the cache. Over a host file and a backing device that read
  soundly, and a decoder that keeps its promises, a read that succeeds returns the guest's bytes
  -- data, zero, backing or inflated, cluster by cluster -- whatever coherent cache it starts
  from; it lies inside the virtual disk; and the cache it leaves is coherent and holds at most 32
  clusters, whether the read succeeds or not.
\<close>

lemma qcow2_read_cached:
  assumes "sound_device (dev_size (q_host q)) (dev_read (q_host q)) f"
    and "\<forall>b. q_backing q = Some b \<longrightarrow> sound_device (dev_size b) (dev_read b) g"
    and "decodes fl dec R" and "qcow2_ok q" and "cache_ok q f dec cache"
  shows "case qcow2_read fl q cache off n of (r, cache') \<Rightarrow>
    cache_ok q f dec cache' \<and>
    (\<forall>bs. r = Ok bs \<longrightarrow> bs = segment (guest_byte q f g dec) (unat off) n \<and>
       unat off + n \<le> unat (q_virtual_size q))"
proof (cases "qcow2_read fl q cache off n")
  case (Pair r cache')
  have b: "\<And>b. q_backing q = Some b \<Longrightarrow> sound_device (dev_size b) (dev_read b) g"
    using assms(2) by blast
  show ?thesis
    using qcow2_read_guest [OF assms(1) b assms(3) assms(5,4) Pair] Pair by auto
qed

text \<open>The witness decodes stored bytes and has a cluster of data and the same cluster compressed.\<close>

definition stored :: "unit inflater" where
  "stored = \<lparr>inf_new = (), inf_step = (\<lambda>_ inp room.
     Inr ((), min room (length inp), take room inp, False))\<rparr>"

lemma stored_decodes: "decodes stored id (\<lambda>_ c p. p = c)"
  by (auto simp: decodes_def stored_def min_def)

definition example_file :: bytes where
  "example_file = replicate 512 0 @ be_enc 8 1024 @ be_enc 8 (2 ^ 62 + 1024) @ replicate 496 0 @
     replicate 512 7"

definition example_image :: qcow2 where
  "example_image = \<lparr>q_host = file_dev example_file, q_virtual_size = 1024, q_cluster_bits = 9,
     q_l1 = [512], q_backing_name = None, q_backing = None\<rparr>"

lemma qcow2_read_cached_witness:
  "\<exists>cache'. qcow2_read stored example_image [] 512 4 = (Ok [7, 7, 7, 7], cache') \<and>
     cache_ok example_image ((!) example_file) id cache'"
proof -
  have len: "length example_file = 1536" by (simp add: example_file_def)
  then have ok: "file_ok example_file" by (simp add: file_ok_def)
  have cs: "cluster_size example_image = 512" "unat (cluster_size example_image) = 512"
    by (simp_all add: cluster_size_def example_image_def)
  have entry: "dev_read (file_dev example_file) 520 8 = Ok (be_enc 8 (2 ^ 62 + 1024))"
    using file_read_eq [OF ok, of 520 8] len by (simp add: example_file_def)
  have data: "dev_read (file_dev example_file) 1024 512 = Ok (replicate 512 7)"
    using file_read_eq [OF ok, of 1024 512] len by (simp add: example_file_def)
  have m: "map_cluster example_image 512 = Ok (MCompressed 1024 512)"
    using entry cs
    by (simp add: map_cluster_def example_image_def Let_def get_def L1_OFFSET_MASK_def
        L2_COMPRESSED_def be64_at_def field_def be_val_enc)
  have "inflate_loop stored 512 (replicate 512 7) () 0 [] = Ok (replicate 512 7)"
    using inflate_loop.simps [of stored 512 "replicate 512 7" "()" 0 "[]"]
      inflate_loop.simps [of stored 512 "replicate 512 7" "()" 512 "replicate 512 7"]
    by (simp add: stored_def)
  then have i: "inflate_cluster stored example_image 1024 512 = Ok (replicate 512 7)"
    using cs data file_size [OF ok] len
    by (simp add: inflate_cluster_def Let_def unat_saturating_sub example_image_def stored_def)
  have "read_chunk stored example_image [] 512 0 4 = (Ok [7, 7, 7, 7], [(1024, replicate 512 7)])"
    using m i by (simp add: read_chunk_def decompress_cluster_def cache_push_def CACHE_CLUSTERS_def
        get_range_def numeral_eq_Suc)
  then have run: "qcow2_read stored example_image [] 512 4 =
      (Ok [7, 7, 7, 7], [(1024, replicate 512 7)])"
    using cs qcow2_loop.simps [of stored example_image "[]" 512 4 "[]"]
      qcow2_loop.simps [of stored example_image "[(1024, replicate 512 7)]" _ 0]
    by (simp add: qcow2_read_def check_bounds_if) (simp add: example_image_def)
  have q: "q_host example_image = file_dev example_file" "q_backing example_image = None"
    "qcow2_ok example_image" by (simp_all add: example_image_def qcow2_ok_def)
  from qcow2_read_cached [of example_image "(!) example_file" _ stored id _ "[]" 512 4]
    raw_file.sound_device_axioms [of example_file] stored_decodes cache_ok_Nil
  show ?thesis unfolding q run by (simp add: q)
qed

text \<open>
  C2: a well-formed image can be read everywhere. When the host file and the backing device answer
  every read in their bounds, and every cluster of the virtual disk maps to data inside the host
  file or to compressed bytes that inflate, then every read inside the virtual disk succeeds, with
  the guest's bytes, from any coherent cache; in particular the read loop ends and nothing panics.
\<close>

lemma qcow2_reads_succeed:
  assumes "total_device (dev_size (q_host q)) (dev_read (q_host q)) f"
    and "\<forall>b. q_backing q = Some b \<longrightarrow> total_device (dev_size b) (dev_read b) g"
    and "decodes fl dec R" and "qcow2_ok q" and "cache_ok q f dec cache"
    and "image_readable fl q" and "unat off + n \<le> unat (q_virtual_size q)"
  shows "fst (qcow2_read fl q cache off n) = Ok (segment (guest_byte q f g dec) (unat off) n)"
proof -
  have "\<And>b. q_backing q = Some b \<Longrightarrow> total_device (dev_size b) (dev_read b) g"
    using assms(2) by blast
  from qcow2_read_total [OF assms(1) this assms(3,5,4,6,7)] show ?thesis by auto
qed

definition sparse_image :: qcow2 where
  "sparse_image = \<lparr>q_host = file_dev [], q_virtual_size = 1048576, q_cluster_bits = 16, q_l1 = [],
     q_backing_name = None, q_backing = Some (file_dev [1, 2, 3])\<rparr>"

lemma qcow2_reads_succeed_witness:
  "fst (qcow2_read stored sparse_image [] 1 5) = Ok [2, 3, 0, 0, 0]"
proof -
  have m: "map_cluster sparse_image a = Ok MUnallocated" for a
    by (simp add: map_cluster_def sparse_image_def get_def)
  then have r: "image_readable stored sparse_image"
    by (simp add: image_readable_def mapping_readable_def)
  have ok: "qcow2_ok sparse_image" by (simp add: qcow2_ok_def sparse_image_def)
  have host: "total_device (dev_size (q_host sparse_image)) (dev_read (q_host sparse_image)) ((!) [])"
    using raw_file.total_device_axioms [of "[]"] by (simp add: sparse_image_def)
  have bk: "\<forall>b. q_backing sparse_image = Some b \<longrightarrow>
      total_device (dev_size b) (dev_read b) ((!) [1, 2, 3])"
    using raw_file.total_device_axioms [of "[1, 2, 3]"] by (simp add: sparse_image_def)
  have "unat (1 :: u64) + 5 \<le> unat (q_virtual_size sparse_image)" by (simp add: sparse_image_def)
  note qcow2_reads_succeed [OF host bk stored_decodes ok cache_ok_Nil r this]
  moreover have "segment (guest_byte sparse_image ((!) []) ((!) [1, 2, 3]) id) 1 5 = [2, 3, 0, 0, 0]"
    by (simp add: segment_def upt_rec guest_byte_def m cluster_byte_def)
      (simp add: sparse_image_def file_dev_def file_len_def)
  ultimately show ?thesis by simp
qed

text \<open>
  C8: \<open>has_compressed_clusters\<close> can be trusted. When it answers \<open>false\<close>, no guest offset of the image
  maps to a compressed cluster, so a reader that cannot inflate can serve the whole disk.
\<close>

lemma has_compressed_trusted:
  assumes "sound_device (dev_size (q_host q)) (dev_read (q_host q)) f" and "qcow2_ok q"
    and "has_compressed_clusters q = Ok False"
  shows "map_cluster q a \<noteq> Ok (MCompressed offset csize)"
  using assms by (rule has_compressed_clusters_False)

lemma has_compressed_trusted_witness:
  "map_cluster sparse_image 65536 \<noteq> Ok (MCompressed 0 512)"
  by (rule has_compressed_trusted [of _ "(!) []"])
    (use raw_file.sound_device_axioms [of "[]"] in
      \<open>simp_all add: sparse_image_def qcow2_ok_def has_compressed_clusters_def\<close>)

end
