(* ===== verification/Disk.thy ===== *)
theory Disk
  imports Qcow2
begin

text \<open>
  src/src/disk/mod.rs and the locators of src/src/source/mod.rs: an image is raw or qcow2, and a qcow2
  image may defer to a backing image, which is opened the same way, at most 8 levels down. What opens
  a byte source (a file or an HTTP reader) is a parameter. The lemmas show when opening succeeds
  (\<open>backing_chain\<close>) and that an opened image reads as the layers of its chain say (\<open>disk_view\<close>).
\<close>

section \<open>Locators\<close>

definition is_url :: "str \<Rightarrow> bool" where
  "is_url locator \<longleftrightarrow>
     starts_with (S ''http://'') locator \<or> starts_with (S ''https://'') locator"

definition source_open :: "(str \<Rightarrow> dev result) \<Rightarrow> (str \<Rightarrow> dev result) \<Rightarrow> str \<Rightarrow> dev result" where
  "source_open remote_open file_open locator =
     (if is_url locator then remote_open locator else file_open locator)"

definition resolve_relative :: "str \<Rightarrow> str \<Rightarrow> str" where
  "resolve_relative base name =
     (if is_url name \<or> (starts_with (S ''/'') name \<and> \<not> is_url base) then name
      else case rsplit_once (ch CHR ''/'') base of
             Some (dir, _) \<Rightarrow> dir @ S ''/'' @ name
           | None \<Rightarrow> name)"

text \<open>\<open>set_http_timeout\<close> and \<open>http_timeout\<close>: a cell set at most once, in seconds.\<close>

definition set_http_timeout :: "nat option \<Rightarrow> nat option \<Rightarrow> nat option" where
  "set_http_timeout secs cell =
     (case secs of
        Some s \<Rightarrow> if 0 < s \<and> cell = None then Some s else cell
      | None \<Rightarrow> cell)"

definition http_timeout :: "nat option \<Rightarrow> nat" where
  "http_timeout cell = unwrap_or cell 60"

text \<open>\<open>set_cache_dir\<close> and \<open>cache_dir\<close>: likewise, and what it is set to may be nothing.\<close>

definition set_cache_dir :: "str option \<Rightarrow> str option option \<Rightarrow> str option option" where
  "set_cache_dir dir cell = (case cell of None \<Rightarrow> Some dir | Some d \<Rightarrow> Some d)"

definition cache_dir :: "str option option \<Rightarrow> str option" where
  "cache_dir cell = Option.bind cell (\<lambda>d. d)"

section \<open>Images\<close>

definition MAX_BACKING_DEPTH :: nat where "MAX_BACKING_DEPTH = 8"

datatype disk_image = DRaw dev | DQcow2 qcow2

fun disk_format :: "disk_image \<Rightarrow> str" where
  "disk_format (DRaw _) = S ''raw''"
| "disk_format (DQcow2 _) = S ''qcow2''"

fun disk_has_compressed_clusters :: "disk_image \<Rightarrow> bool result" where
  "disk_has_compressed_clusters (DRaw _) = Ok False"
| "disk_has_compressed_clusters (DQcow2 q) = has_compressed_clusters q"

fun disk_dev :: "'z inflater \<Rightarrow> disk_image \<Rightarrow> dev" where
  "disk_dev fl (DRaw d) = d"
| "disk_dev fl (DQcow2 q) = qcow2_dev fl q"

text \<open>The four bytes that tell the format; an image of less than 4 bytes has none.\<close>

definition read_magic :: "dev \<Rightarrow> bytes result" where
  "read_magic src = (if 4 \<le> dev_size src then dev_read src 0 4 else Ok [0, 0, 0, 0])"

definition backing_error :: "str \<Rightarrow> error \<Rightarrow> error" where
  "backing_error locator e =
     Qcow2Error (S ''opening backing file '' @ locator @ S '': '' @ error_display e)"

function open_at_depth ::
  "(str \<Rightarrow> dev result) \<Rightarrow> 'z inflater \<Rightarrow> str \<Rightarrow> nat \<Rightarrow> disk_image result" where
  "open_at_depth src_open fl locator depth =
     (if MAX_BACKING_DEPTH < depth
      then Err (Qcow2Error (S ''backing file chain too deep (loop?)''))
      else
        rbind (src_open locator) (\<lambda>src.
        rbind (read_magic src) (\<lambda>magic.
          if magic \<noteq> QCOW2_MAGIC then Ok (DRaw src)
          else rbind (qcow2_open src) (\<lambda>q.
            case backing_file q of
              None \<Rightarrow> Ok (DQcow2 q)
            | Some name \<Rightarrow>
                let backing_locator = resolve_relative locator name
                in rbind
                     (map_err (backing_error backing_locator)
                        (open_at_depth src_open fl backing_locator (depth + 1)))
                     (\<lambda>backing. Ok (DQcow2 (set_backing q (disk_dev fl backing))))))))"
  by pat_completeness auto
termination
  by (relation "measure (\<lambda>(so, fl, l, depth). Suc MAX_BACKING_DEPTH - depth)") auto

declare open_at_depth.simps [simp del]

definition disk_open :: "(str \<Rightarrow> dev result) \<Rightarrow> 'z inflater \<Rightarrow> str \<Rightarrow> disk_image result" where
  "disk_open src_open fl locator = open_at_depth src_open fl locator 0"

section \<open>Locators resolve where they should\<close>

lemma resolve_relative_url: "is_url name \<Longrightarrow> resolve_relative base name = name"
  by (simp add: resolve_relative_def)

lemma resolve_relative_sibling:
  assumes "\<not> is_url name" and "\<not> starts_with (S ''/'') name" and "ch CHR ''/'' \<notin> set file"
  shows "resolve_relative (dir @ S ''/'' @ file) name = dir @ S ''/'' @ name"
proof -
  have "\<forall>x \<in> set (rev file). x \<noteq> ch CHR ''/''" using assms(3) by auto
  then have "rsplit_once (ch CHR ''/'') (dir @ S ''/'' @ file) = Some (dir, file)"
    using split_once_append [of "rev file" "\<lambda>x. x = ch CHR ''/''" "ch CHR ''/''" "rev dir"]
    by (simp add: rsplit_once_by_def)
  with assms show ?thesis by (simp add: resolve_relative_def)
qed

section \<open>The backing chain\<close>

text \<open>What one image says: nothing to follow, or the locator of its backing image.\<close>

definition image_step :: "(str \<Rightarrow> dev result) \<Rightarrow> str \<Rightarrow> str option result" where
  "image_step src_open locator =
     rbind (src_open locator) (\<lambda>src. rbind (read_magic src) (\<lambda>magic.
       if magic \<noteq> QCOW2_MAGIC then Ok None
       else rbind (qcow2_open src) (\<lambda>q.
         Ok (map_option (resolve_relative locator) (backing_file q)))))"

text \<open>The images that the headers chain together, from \<open>locator\<close> down to one without a backing file.\<close>

inductive backing_chain :: "(str \<Rightarrow> dev result) \<Rightarrow> str \<Rightarrow> str list \<Rightarrow> bool" for src_open where
  chain_end: "image_step src_open l = Ok None \<Longrightarrow> backing_chain src_open l [l]"
| chain_step: "image_step src_open l = Ok (Some l') \<Longrightarrow> backing_chain src_open l' ls \<Longrightarrow>
    backing_chain src_open l (l # ls)"

inductive_cases backing_chainE: "backing_chain src_open l ls"

lemma backing_chain_not_Nil: "backing_chain src_open l ls \<Longrightarrow> \<exists>r. ls = l # r"
  by (erule backing_chainE) auto

lemma backing_chain_unique:
  "backing_chain src_open l ls \<Longrightarrow> backing_chain src_open l ls' \<Longrightarrow> ls = ls'"
proof (induction arbitrary: ls' rule: backing_chain.induct)
  case (chain_end l)
  then show ?case by (auto elim: backing_chainE)
next
  case (chain_step l l' ls)
  from chain_step.prems obtain ls'' where "ls' = l # ls''" "backing_chain src_open l' ls''"
    using chain_step.hyps(1) by (auto elim: backing_chainE)
  with chain_step.IH show ?case by simp
qed

text \<open>One level of the opener: it fails, it is at the end of the chain, or it goes on one level deeper.\<close>

lemma open_at_depth_Ok:
  "(\<exists>img. open_at_depth src_open fl l d = Ok img) \<longleftrightarrow>
   d \<le> MAX_BACKING_DEPTH \<and>
   (image_step src_open l = Ok None \<or>
    (\<exists>l'. image_step src_open l = Ok (Some l') \<and>
       (\<exists>img. open_at_depth src_open fl l' (d + 1) = Ok img)))"
proof (cases "MAX_BACKING_DEPTH < d")
  case True
  then show ?thesis by (simp add: open_at_depth.simps [of src_open fl l d])
next
  case False
  note unfold = open_at_depth.simps [of src_open fl l d] image_step_def
  show ?thesis
  proof (cases "src_open l")
    case (Inl e)
    with False show ?thesis by (simp add: unfold)
  next
    case src: (Inr src)
    show ?thesis
    proof (cases "read_magic src")
      case (Inl e)
      with False src show ?thesis by (simp add: unfold)
    next
      case magic: (Inr magic)
      show ?thesis
      proof (cases "magic = QCOW2_MAGIC \<and> (\<exists>q. qcow2_open src = Ok q)")
        case True
        then obtain q where q: "qcow2_open src = Ok q" and m: "magic = QCOW2_MAGIC" by blast
        show ?thesis
        proof (cases "backing_file q")
          case None
          with False src magic q m show ?thesis by (simp add: unfold)
        next
          case (Some name)
          with False src magic q m show ?thesis
            by (simp add: unfold Let_def rbind_eq_Ok)
        qed
      next
        assume other: "\<not> (magic = QCOW2_MAGIC \<and> (\<exists>q. qcow2_open src = Ok q))"
        with False src magic show ?thesis
          by (cases "qcow2_open src"; cases "magic = QCOW2_MAGIC") (simp_all add: unfold)
      qed
    qed
  qed
qed

lemma open_at_depth_chain:
  "(\<exists>img. open_at_depth src_open fl l d = Ok img) \<longleftrightarrow>
   (\<exists>ls. backing_chain src_open l ls \<and> d + length ls \<le> Suc MAX_BACKING_DEPTH)"
proof (induction "Suc MAX_BACKING_DEPTH - d" arbitrary: l d)
  case 0
  then have "MAX_BACKING_DEPTH < d" by simp
  then show ?case
    by (auto simp: open_at_depth.simps [of src_open fl l d] dest!: backing_chain_not_Nil)
next
  case (Suc k)
  then have d: "d \<le> MAX_BACKING_DEPTH" and k: "k = Suc MAX_BACKING_DEPTH - (d + 1)" by auto
  note IH = Suc.hyps(1) [OF k]
  show ?case unfolding open_at_depth_Ok [of src_open fl l d] IH
  proof
    assume "d \<le> MAX_BACKING_DEPTH \<and> (image_step src_open l = Ok None \<or>
      (\<exists>l'. image_step src_open l = Ok (Some l') \<and>
        (\<exists>ls. backing_chain src_open l' ls \<and> d + 1 + length ls \<le> Suc MAX_BACKING_DEPTH)))"
    then show "\<exists>ls. backing_chain src_open l ls \<and> d + length ls \<le> Suc MAX_BACKING_DEPTH"
      using d by (force intro: chain_end chain_step)
  next
    assume "\<exists>ls. backing_chain src_open l ls \<and> d + length ls \<le> Suc MAX_BACKING_DEPTH"
    then show "d \<le> MAX_BACKING_DEPTH \<and> (image_step src_open l = Ok None \<or>
      (\<exists>l'. image_step src_open l = Ok (Some l') \<and>
        (\<exists>ls. backing_chain src_open l' ls \<and> d + 1 + length ls \<le> Suc MAX_BACKING_DEPTH)))"
    proof (elim exE conjE)
      fix ls
      assume c: "backing_chain src_open l ls" and n: "d + length ls \<le> Suc MAX_BACKING_DEPTH"
      from c show ?thesis
      proof (cases rule: backing_chain.cases)
        case chain_end
        with d show ?thesis by simp
      next
        case (chain_step l' ls')
        then have "d + 1 + length ls' \<le> Suc MAX_BACKING_DEPTH" using n by simp
        with d chain_step show ?thesis by blast
      qed
    qed
  qed
qed

text \<open>A chain never visits an image twice: a loop is an endless chain.\<close>

lemma backing_chain_suffix:
  "backing_chain src_open l ls \<Longrightarrow> m \<in> set ls \<Longrightarrow> \<exists>ms. backing_chain src_open m ms \<and> suffix ms ls"
proof (induction rule: backing_chain.induct)
  case (chain_end l)
  then show ?case by (auto intro: backing_chain.chain_end)
next
  case (chain_step l l' ls)
  show ?case
  proof (cases "m = l")
    case True
    with chain_step show ?thesis by (auto intro: backing_chain.chain_step)
  next
    case False
    with chain_step show ?thesis by (auto intro: suffix_ConsI)
  qed
qed

lemma backing_chain_distinct: "backing_chain src_open l ls \<Longrightarrow> distinct ls"
proof (induction rule: backing_chain.induct)
  case (chain_step l l' ls)
  have "l \<notin> set ls"
  proof
    assume "l \<in> set ls"
    then obtain ms where ms: "backing_chain src_open l ms" "suffix ms ls"
      using backing_chain_suffix [OF chain_step.hyps(2)] by blast
    have "ms = l # ls"
      using backing_chain_unique [OF ms(1) backing_chain.chain_step [OF chain_step.hyps]] .
    with ms(2) show False by (auto dest: suffix_length_le)
  qed
  with chain_step.IH show ?case by simp
qed simp

section \<open>An opened image is a sound device\<close>

lemma qcow2_open_host: "qcow2_open host = Ok q \<Longrightarrow> q_host q = host \<and> q_backing q = None"
  by (auto simp: qcow2_open_def Let_def rbind_eq_Ok split: if_splits)

text \<open>
  What an image should read as, said without opening it: \<open>layer_byte\<close> is one byte of a qcow2 layer over
  what lies under it (nothing, or the size and content of the backing image), and \<open>disk_view\<close> stacks
  the layers that the headers name. \<open>cont\<close> is the content of each byte source.
\<close>

definition layer_byte ::
  "(u64 \<times> (nat \<Rightarrow> u8)) option \<Rightarrow> qcow2 \<Rightarrow> (nat \<Rightarrow> u8) \<Rightarrow> (bytes \<Rightarrow> bytes) \<Rightarrow> nat \<Rightarrow> u8" where
  "layer_byte below q f dec i =
     (let pos = of_nat i; within = pos mod cluster_size q
      in case map_cluster q (pos - within) of
           Inl _ \<Rightarrow> 0
         | Inr (MData host_cluster) \<Rightarrow> f (unat (host_cluster + within))
         | Inr MZero \<Rightarrow> 0
         | Inr MUnallocated \<Rightarrow>
             (case below of None \<Rightarrow> 0
              | Some (sz, c) \<Rightarrow> if unat pos < unat sz then c (unat pos) else 0)
         | Inr (MCompressed offset csize) \<Rightarrow> dec (host_tail q f offset) ! unat within)"

inductive disk_view ::
  "(str \<Rightarrow> dev result) \<Rightarrow> (str \<Rightarrow> nat \<Rightarrow> u8) \<Rightarrow> (bytes \<Rightarrow> bytes) \<Rightarrow>
   str \<Rightarrow> u64 \<Rightarrow> (nat \<Rightarrow> u8) \<Rightarrow> bool" for src_open cont dec where
  view_raw: "src_open l = Ok src \<Longrightarrow> read_magic src = Ok m \<Longrightarrow> m \<noteq> QCOW2_MAGIC \<Longrightarrow>
    disk_view src_open cont dec l (dev_size src) (cont l)"
| view_base: "src_open l = Ok src \<Longrightarrow> read_magic src = Ok QCOW2_MAGIC \<Longrightarrow> qcow2_open src = Ok q \<Longrightarrow>
    backing_file q = None \<Longrightarrow>
    disk_view src_open cont dec l (q_virtual_size q) (layer_byte None q (cont l) dec)"
| view_overlay: "src_open l = Ok src \<Longrightarrow> read_magic src = Ok QCOW2_MAGIC \<Longrightarrow> qcow2_open src = Ok q \<Longrightarrow>
    backing_file q = Some name \<Longrightarrow>
    disk_view src_open cont dec (resolve_relative l name) sz c \<Longrightarrow>
    disk_view src_open cont dec l (q_virtual_size q) (layer_byte (Some (sz, c)) q (cont l) dec)"

inductive_cases disk_viewE: "disk_view src_open cont dec l sz c"

lemma disk_view_unique:
  "disk_view src_open cont dec l sz c \<Longrightarrow> disk_view src_open cont dec l sz' c' \<Longrightarrow> sz' = sz \<and> c' = c"
proof (induction arbitrary: sz' c' rule: disk_view.induct)
  case (view_raw l src m)
  from view_raw.prems show ?case by (rule disk_viewE) (use view_raw.hyps in simp_all)
next
  case (view_base l src q)
  from view_base.prems show ?case by (rule disk_viewE) (use view_base.hyps in simp_all)
next
  case (view_overlay l src q name sz c)
  from view_overlay.prems show ?case
  proof (rule disk_viewE)
    fix src' q' name' sz2 c2
    assume *: "src_open l = Ok src'" "qcow2_open src' = Ok q'" "backing_file q' = Some name'"
      "sz' = q_virtual_size q'" "c' = layer_byte (Some (sz2, c2)) q' (cont l) dec"
      and v: "disk_view src_open cont dec (resolve_relative l name') sz2 c2"
    with view_overlay.hyps have "q' = q" "name' = name" by simp_all
    with view_overlay.IH v * show ?thesis by simp
  qed (use view_overlay.hyps in simp_all)
qed

lemma guest_byte_layer:
  "guest_byte q f g dec = layer_byte (map_option (\<lambda>b. (dev_size b, g)) (q_backing q)) q f dec"
  by (intro ext)
    (auto simp: guest_byte_def layer_byte_def cluster_byte_def Let_def
      split: sum.splits mapping.splits option.splits)

lemma set_backing_fields [simp]:
  "q_host (set_backing q b) = q_host q" "q_virtual_size (set_backing q b) = q_virtual_size q"
  "q_cluster_bits (set_backing q b) = q_cluster_bits q" "q_l1 (set_backing q b) = q_l1 q"
  "q_backing (set_backing q b) = Some b"
  by (simp_all add: set_backing_def)

lemma layer_byte_set_backing [simp]: "layer_byte below (set_backing q b) f dec = layer_byte below q f dec"
proof -
  have "map_cluster (set_backing q b) a = map_cluster q a" for a
    by (simp only: map_cluster_def cluster_size_def set_backing_fields)
  moreover have "host_tail (set_backing q b) f = host_tail q f"
    by (simp add: host_tail_def fun_eq_iff)
  moreover have "cluster_size (set_backing q b) = cluster_size q"
    by (simp only: cluster_size_def set_backing_fields)
  ultimately show ?thesis by (intro ext) (simp only: layer_byte_def)
qed

lemma qcow2_dev_size [simp]: "dev_size (qcow2_dev fl q) = q_virtual_size q"
  by (simp add: qcow2_dev_def)

lemma open_at_depth_view:
  assumes src: "\<forall>l src. src_open l = Ok src \<longrightarrow> sound_device (dev_size src) (dev_read src) (cont l)"
    and dec: "decodes fl dec R"
  shows "open_at_depth src_open fl l d = Ok img \<Longrightarrow>
    \<exists>c. disk_view src_open cont dec l (dev_size (disk_dev fl img)) c \<and>
      sound_device (dev_size (disk_dev fl img)) (dev_read (disk_dev fl img)) c"
proof (induction "Suc MAX_BACKING_DEPTH - d" arbitrary: l d img)
  case 0
  then show ?case by (simp add: open_at_depth.simps [of src_open fl l d])
next
  case (Suc k)
  then have d: "\<not> MAX_BACKING_DEPTH < d" and k: "k = Suc MAX_BACKING_DEPTH - (d + 1)" by auto
  from Suc.prems d obtain src magic where s: "src_open l = Ok src" "read_magic src = Ok magic"
    by (subst (asm) open_at_depth.simps) (auto simp: rbind_eq_Ok)
  have f: "sound_device (dev_size src) (dev_read src) (cont l)" using assms(1) s(1) by blast
  show ?case
  proof (cases "magic = QCOW2_MAGIC")
    case False
    with Suc.prems d s have "img = DRaw src" by (subst (asm) open_at_depth.simps) auto
    with view_raw [where src_open = src_open and cont = cont and dec = dec, OF s False] f
    show ?thesis by auto
  next
    case True
    with Suc.prems d s obtain q where q: "qcow2_open src = Ok q"
      by (subst (asm) open_at_depth.simps) (auto simp: rbind_eq_Ok)
    note host = qcow2_open_host [OF q]
    show ?thesis
    proof (cases "backing_file q")
      case None
      with Suc.prems d s q True have img: "img = DQcow2 q"
        by (subst (asm) open_at_depth.simps) auto
      have "guest_byte q (cont l) undefined dec = layer_byte None q (cont l) dec"
        using host by (simp add: guest_byte_layer)
      with qcow2_sound_device [of q "cont l" undefined, OF _ _ dec qcow2_open_ok [OF q]] f host
      have "sound_device (dev_size (disk_dev fl img)) (dev_read (disk_dev fl img))
          (layer_byte None q (cont l) dec)" by (simp add: img)
      moreover have "disk_view src_open cont dec l (q_virtual_size q) (layer_byte None q (cont l) dec)"
        using s True q None by (intro view_base) simp_all
      ultimately show ?thesis by (auto simp: img)
    next
      case (Some name)
      with Suc.prems d s q True obtain backing where
        b: "open_at_depth src_open fl (resolve_relative l name) (d + 1) = Ok backing" and
        img: "img = DQcow2 (set_backing q (disk_dev fl backing))"
        by (subst (asm) open_at_depth.simps) (auto simp: rbind_eq_Ok Let_def)
      from Suc.hyps(1) [OF k b] obtain g where
        v: "disk_view src_open cont dec (resolve_relative l name) (dev_size (disk_dev fl backing)) g" and
        g: "sound_device (dev_size (disk_dev fl backing)) (dev_read (disk_dev fl backing)) g" by blast
      let ?q = "set_backing q (disk_dev fl backing)"
      have ok: "qcow2_ok ?q"
        using qcow2_open_ok [OF q] by (simp add: set_backing_def qcow2_ok_def)
      have qs: "q_host ?q = src" "q_backing ?q = Some (disk_dev fl backing)"
        "q_virtual_size ?q = q_virtual_size q"
        using host by simp_all
      have "guest_byte ?q (cont l) g dec =
          layer_byte (Some (dev_size (disk_dev fl backing), g)) q (cont l) dec"
        by (simp add: guest_byte_layer qs)
      with qcow2_sound_device [OF _ _ dec ok, of "cont l" g] f g host
      have "sound_device (dev_size (disk_dev fl img)) (dev_read (disk_dev fl img))
          (layer_byte (Some (dev_size (disk_dev fl backing), g)) q (cont l) dec)"
        by (simp add: img qs)
      moreover have "disk_view src_open cont dec l (q_virtual_size q)
          (layer_byte (Some (dev_size (disk_dev fl backing), g)) q (cont l) dec)"
        using s True q Some v by (intro view_overlay) simp_all
      ultimately show ?thesis by (auto simp: img qs)
    qed
  qed
qed

section \<open>Properties\<close>

text \<open>
  C6: opening an image follows its backing chain, and at most 8 levels of it. Opening succeeds exactly
  when the chain that the headers describe, each backing name resolved against the image it is
  in, ends, and has at most 9 images; a chain visits no image twice, so one that loops is an error
  and never an endless recursion.
\<close>

lemma disk_open_chain:
  "(\<exists>img. disk_open src_open fl locator = Ok img) \<longleftrightarrow>
   (\<exists>ls. backing_chain src_open locator ls \<and> distinct ls \<and> length ls \<le> 9)"
proof -
  have "(\<exists>img. disk_open src_open fl locator = Ok img) \<longleftrightarrow>
      (\<exists>ls. backing_chain src_open locator ls \<and> length ls \<le> 9)"
    unfolding disk_open_def open_at_depth_chain by (simp add: MAX_BACKING_DEPTH_def)
  then show ?thesis using backing_chain_distinct by blast
qed

text \<open>
  C7: an opened disk image reads as its chain says. \<open>disk_view\<close> gives, from the headers alone, the one
  size and content of the image: a raw image is its file; a qcow2 image is its own clusters (data,
  zero, inflated) and, where a cluster is not allocated, the view of the image its backing name
  resolves to, with zeros past that image's end or when there is none. If the byte sources read
  soundly and the decoder keeps its promises, then an image that opens has such a view, of the size
  it reports, and every read that succeeds, however deep the chain, lies inside it and returns
  exactly its bytes.
\<close>

lemma disk_open_sound:
  assumes "\<forall>l src. src_open l = Ok src \<longrightarrow> sound_device (dev_size src) (dev_read src) (cont l)"
    and "decodes fl dec R" and "disk_open src_open fl locator = Ok img"
  shows "\<exists>c. (\<forall>sz' c'. disk_view src_open cont dec locator sz' c' \<longleftrightarrow>
             sz' = dev_size (disk_dev fl img) \<and> c' = c) \<and>
           sound_device (dev_size (disk_dev fl img)) (dev_read (disk_dev fl img)) c"
proof -
  from open_at_depth_view [OF assms(1,2)] assms(3) obtain c where
    v: "disk_view src_open cont dec locator (dev_size (disk_dev fl img)) c" and
    s: "sound_device (dev_size (disk_dev fl img)) (dev_read (disk_dev fl img)) c"
    unfolding disk_open_def by blast
  show ?thesis using v s disk_view_unique [OF v] by blast
qed

text \<open>The witness opens an empty 4-byte overlay, in a version 2 file, over a raw file of 3 bytes.\<close>

definition overlay_file :: bytes where
  "overlay_file = QCOW2_MAGIC @ be_enc 4 2 @ be_enc 8 72 @ be_enc 4 1 @ be_enc 4 9 @ be_enc 8 4 @
     replicate 40 0 @ [0x62]"

definition overlay_open :: "str \<Rightarrow> dev result" where
  "overlay_open l = Ok (file_dev (if l = S ''a'' then overlay_file else [1, 2, 3]))"

definition overlay_content :: "str \<Rightarrow> nat \<Rightarrow> u8" where
  "overlay_content l = (!) (if l = S ''a'' then overlay_file else [1, 2, 3])"

lemma disk_open_sound_witness:
  "\<exists>img c. disk_open overlay_open stored (S ''a'') = Ok img \<and>
     sound_device 4 (dev_read (disk_dev stored img)) c \<and> segment c 0 4 = [1, 2, 3, 0]"
proof -
  let ?a = "S ''a''" and ?b = "S ''b''"
  let ?q = "\<lparr>q_host = file_dev overlay_file, q_virtual_size = 4, q_cluster_bits = 9, q_l1 = [],
    q_backing_name = Some ?b, q_backing = None\<rparr>"
  have ab: "?a \<noteq> ?b" by simp
  have len: "length overlay_file = 73" by (simp add: overlay_file_def QCOW2_MAGIC_def)
  then have ok: "file_ok overlay_file" by (simp add: file_ok_def)
  note rd = file_read_eq [OF ok, unfolded len]
  have hdr: "dev_read (file_dev overlay_file) 0 72 = Ok (take 72 overlay_file)"
    using rd [of 0 72] by simp
  have name: "dev_read (file_dev overlay_file) 72 1 = Ok [0x62]"
    using rd [of 72 1] by (simp add: overlay_file_def QCOW2_MAGIC_def)
  have l1: "dev_read (file_dev overlay_file) 0 0 = Ok []"
    using rd [of 0 0] by simp
  let ?h = "take 72 overlay_file"
  have fields: "take 4 overlay_file = QCOW2_MAGIC" "be32_at ?h 4 = 2" "be64_at ?h 8 = 72" "be32_at ?h 16 = 1"
    "be32_at ?h 20 = 9" "be64_at ?h 24 = 4" "be32_at ?h 32 = 0" "be32_at ?h 36 = 0" "be64_at ?h 40 = 0"
    by code_simp+
  have "from_utf8_lossy [0x62] = ?b" by code_simp
  then have q: "qcow2_open (file_dev overlay_file) = Ok ?q"
    by (simp add: qcow2_open_def Let_def hdr name [simplified] l1 fields check_incompatible_def
        backing_name_of_def be64_chunks_def)
  have magic: "read_magic (file_dev overlay_file) = Ok QCOW2_MAGIC"
    using rd [of 0 4] file_size [OF ok] fields(1) len by (simp add: read_magic_def word_le_nat_alt)
  have r: "resolve_relative ?a ?b = ?b" by (simp add: resolve_relative_def rsplit_once_by_def)
  have so: "overlay_open ?a = Ok (file_dev overlay_file)" "overlay_open ?b = Ok (file_dev [1, 2, 3])"
    by (simp_all add: overlay_open_def)
  have m3: "read_magic (file_dev [1, 2, 3]) = Ok [0, 0, 0, 0]" "[0, 0, 0, 0] \<noteq> QCOW2_MAGIC"
    by (simp_all add: read_magic_def QCOW2_MAGIC_def file_dev_def file_len_def)
  have b: "open_at_depth overlay_open stored ?b 1 = Ok (DRaw (file_dev [1, 2, 3]))"
    unfolding open_at_depth.simps [of _ _ ?b] so(2) rbind_simps m3(1)
    using m3(2) by (simp add: MAX_BACKING_DEPTH_def)
  define img where "img = DQcow2 (set_backing ?q (file_dev [1, 2, 3]))"
  have img: "disk_open overlay_open stored ?a = Ok img"
    unfolding disk_open_def open_at_depth.simps [of _ _ ?a] so(1) rbind_simps magic q
    using b r by (simp add: backing_file_def img_def MAX_BACKING_DEPTH_def)
  have src: "\<forall>l src. overlay_open l = Ok src \<longrightarrow>
      sound_device (dev_size src) (dev_read src) (overlay_content l)"
    using raw_file.sound_device_axioms by (auto simp: overlay_open_def overlay_content_def)
  have size: "dev_size (disk_dev stored img) = 4" by (simp add: img_def)
  from disk_open_sound [OF src stored_decodes img, unfolded size] obtain c where
    v: "\<forall>sz' c'. disk_view overlay_open overlay_content id ?a sz' c' \<longleftrightarrow> sz' = 4 \<and> c' = c" and
    s: "sound_device 4 (dev_read (disk_dev stored img)) c" by blast
  let ?c = "layer_byte (Some (3, overlay_content ?b)) ?q (overlay_content ?a) id"
  have "disk_view overlay_open overlay_content id ?b (dev_size (file_dev [1, 2, 3])) (overlay_content ?b)"
    using view_raw [where src_open = overlay_open and cont = overlay_content and dec = id, OF so(2) m3]
    by simp
  then have "disk_view overlay_open overlay_content id ?a (q_virtual_size ?q) ?c"
    using view_overlay [where src_open = overlay_open and cont = overlay_content and dec = id and l = ?a
          and name = ?b and sz = 3 and c = "overlay_content ?b", OF so(1) magic q]
    unfolding r by (simp add: backing_file_def file_dev_def file_len_def)
  with v [THEN spec, THEN spec, of 4 ?c] have "c = ?c" by simp
  moreover have "segment ?c 0 4 = [1, 2, 3, 0]"
    by (simp add: segment_def upt_rec layer_byte_def map_cluster_def get_def Let_def overlay_content_def)
  ultimately show ?thesis using img s by blast
qed

end
