(* ===== verification/Part.thy ===== *)
theory Part
  imports Bytes
begin

text \<open>
  src/src/part/mod.rs: what a partition table says, whichever kind it is. The scanners are in
  \<open>Part_Gpt\<close> and \<open>Part_Mbr\<close>, and \<open>Part_Scan\<close> tries them in turn.
\<close>

definition SECTOR :: u64 where
  "SECTOR = 512"

datatype table_kind = Gpt | Mbr | NoTable

record partition =
  p_index :: nat
  p_start_byte :: u64
  p_size_bytes :: u64
  p_kind :: str
  p_type_id :: str
  p_name :: "str option"
  p_probe_worthy :: bool
  p_part_uuid :: "str option"

record partition_table =
  pt_kind :: table_kind
  pt_partitions :: "partition list"

text \<open>\<open>Partition::open\<close>: the partition as a device of its own.\<close>

definition partition_open :: "partition \<Rightarrow> dev \<Rightarrow> dev" where
  "partition_open p disk = slice_dev (slice_new disk (p_start_byte p) (p_size_bytes p))"

text \<open>
  The invariant of a table: users address partitions by index, so the indices start at 1 and
  grow strictly; \<open>find\<close> by index is then unambiguous.
\<close>

definition indices_ok :: "partition list \<Rightarrow> bool" where
  "indices_ok ps \<longleftrightarrow> sorted_wrt (<) (map p_index ps) \<and> (\<forall>p \<in> set ps. 1 \<le> p_index p)"

lemma indices_ok_distinct: "indices_ok ps \<Longrightarrow> distinct (map p_index ps)"
  by (auto simp: indices_ok_def strict_sorted_iff)

lemma indices_ok_find:
  assumes "indices_ok ps" and "p \<in> set ps"
  shows "find (\<lambda>q. p_index q = p_index p) ps = Some p"
  using assms
proof (induction ps)
  case (Cons a ps)
  then show ?case by (auto simp: indices_ok_def)
qed simp

lemma indices_ok_snoc:
  "indices_ok (ps @ [p]) \<longleftrightarrow>
   indices_ok ps \<and> 1 \<le> p_index p \<and> (\<forall>q \<in> set ps. p_index q < p_index p)"
  by (auto simp: indices_ok_def sorted_wrt_append)

lemma unat_SECTOR [simp]: "unat SECTOR = 512"
  by (simp add: SECTOR_def)

text \<open>
  A partition is a window. Reading \<open>n\<close> bytes at \<open>off\<close> of an opened partition either fails or
  returns exactly the bytes of the disk at \<open>start_byte + off\<close>, and the bytes read lie inside the
  partition: no read reaches a neighbour. Every in-range read of a partition inside a disk that can
  be read succeeds.
\<close>

lemma partition_open_window:
  assumes "total_device (dev_size disk) (dev_read disk) f"
    and "unat (p_start_byte p) + unat (p_size_bytes p) \<le> unat (dev_size disk)"
  shows "dev_read (partition_open p disk) off n =
    (if unat off + n \<le> unat (p_size_bytes p)
     then Ok (segment f (unat (p_start_byte p) + unat off) n)
     else Err (OutOfBounds off n (p_size_bytes p)))"
proof (cases "unat off + n \<le> unat (p_size_bytes p)")
  case True
  then have "unat (p_start_byte p + off) = unat (p_start_byte p) + unat off"
    using assms(2) unat_u64_lt [of "dev_size disk"] by (intro unat_plus) linarith
  with True total_device.read_eq [OF assms(1), of "p_start_byte p + off" n] assms(2)
  show ?thesis
    by (simp add: partition_open_def slice_dev_def slice_new_def slice_read_def check_bounds_if)
next
  case False
  then show ?thesis
    by (simp add: partition_open_def slice_dev_def slice_new_def slice_read_def check_bounds_if)
qed

definition example_partition :: partition where
  "example_partition = \<lparr>p_index = 1, p_start_byte = 2, p_size_bytes = 3, p_kind = [], p_type_id = [],
     p_name = None, p_probe_worthy = True, p_part_uuid = None\<rparr>"

lemma partition_open_window_witness:
  "dev_read (partition_open example_partition (file_dev [10, 11, 12, 13, 14, 15])) 1 2 = Ok [13, 14] \<and>
   dev_read (partition_open example_partition (file_dev [10, 11, 12, 13, 14, 15])) 1 3 =
     Err (OutOfBounds 1 3 3)"
  using partition_open_window [OF raw_file.total_device_axioms [of "[10, 11, 12, 13, 14, 15]"],
      of example_partition 1 2]
    partition_open_window [OF raw_file.total_device_axioms [of "[10, 11, 12, 13, 14, 15]"],
      of example_partition 1 3]
  by (simp add: example_partition_def file_dev_def file_len_def segment_def upt_rec)

end
