(* ===== verification/Part_Gpt.thy ===== *)
theory Part_Gpt
  imports Part
begin

text \<open>
  src/src/part/gpt.rs: the GUID partition table. The lemmas show that the scan numbers partitions
  by their slot and reads the entry that stands there on the disk, that canonical GUIDs determine the
  16 bytes on disk, that byte offsets are exact while the last LBA is below \<open>2 ^ 55\<close>, and that a table laid out as the UEFI format says is read
  back entry for entry.
\<close>

section \<open>Partition types\<close>

definition GPT_SIGNATURE :: bytes where
  "GPT_SIGNATURE = B ''EFI PART''"

definition ESP :: str where "ESP = S ''c12a7328-f81f-11d2-ba4b-00a0c93ec93b''"
definition LINUX_FS :: str where "LINUX_FS = S ''0fc63daf-8483-4772-8e79-3d69d8477de4''"
definition LINUX_XBOOTLDR :: str where
  "LINUX_XBOOTLDR = S ''bc13c2ff-59e6-4262-a352-b275fd6f7172''"
definition LINUX_LVM :: str where "LINUX_LVM = S ''e6d6d379-f507-44c2-a23c-238f2a3df928''"
definition LINUX_SWAP :: str where "LINUX_SWAP = S ''0657fd6d-a4ab-43c4-84e5-0933c84b4f4f''"
definition LINUX_ROOT_X86_64 :: str where
  "LINUX_ROOT_X86_64 = S ''4f68bce3-e8cd-4db1-96e7-fbcaf984b709''"
definition LINUX_ROOT_ARM64 :: str where
  "LINUX_ROOT_ARM64 = S ''b921b045-1df0-41c3-af44-4c6f280d3fae''"
definition BIOS_BOOT :: str where "BIOS_BOOT = S ''21686148-6449-6e6f-744e-656564454649''"
definition MS_RESERVED :: str where "MS_RESERVED = S ''e3c9e316-0b5c-4db8-817d-f92df00215ae''"
definition MS_BASIC_DATA :: str where "MS_BASIC_DATA = S ''ebd0a0a2-b9e5-4433-87c0-68b6b72699c7''"
definition WINDOWS_RECOVERY :: str where
  "WINDOWS_RECOVERY = S ''de94bba4-06d1-4d40-a16a-bfd50179d6ac''"
definition MS_LDM_METADATA :: str where
  "MS_LDM_METADATA = S ''5808c8aa-7e8f-42e0-85d2-e1e90434cfb3''"
definition MS_LDM_DATA :: str where "MS_LDM_DATA = S ''af9b60a0-1431-4f62-bc68-3311714a69ad''"
definition MS_STORAGE_SPACES :: str where
  "MS_STORAGE_SPACES = S ''e75caf8f-f680-4cee-afa3-b001e56efc2d''"

definition gpt_type_name :: "str \<Rightarrow> str \<times> bool" where
  "gpt_type_name guid =
     (if guid = ESP then (S ''EFI System'', True)
      else if guid = LINUX_FS then (S ''Linux filesystem'', True)
      else if guid = LINUX_XBOOTLDR then (S ''Linux extended boot'', True)
      else if guid = LINUX_ROOT_X86_64 then (S ''Linux root (x86-64)'', True)
      else if guid = LINUX_ROOT_ARM64 then (S ''Linux root (ARM64)'', True)
      else if guid = MS_BASIC_DATA then (S ''Microsoft basic data'', True)
      else if guid = MS_RESERVED then (S ''Microsoft reserved'', False)
      else if guid = WINDOWS_RECOVERY then (S ''Windows recovery'', False)
      else if guid = MS_LDM_METADATA then (S ''Microsoft LDM metadata'', False)
      else if guid = MS_LDM_DATA then (S ''Microsoft LDM data'', False)
      else if guid = MS_STORAGE_SPACES then (S ''Microsoft Storage Spaces'', False)
      else if guid = LINUX_LVM then (S ''Linux LVM'', False)
      else if guid = LINUX_SWAP then (S ''Linux swap'', False)
      else if guid = BIOS_BOOT then (S ''BIOS boot'', False)
      else (S ''unknown'', False))"

section \<open>GUIDs\<close>

definition hex2 :: "u8 \<Rightarrow> str" where
  "hex2 b = pad_zeros 2 (show_hex (unat b))"

text \<open>The first three fields are little-endian on disk; the argument holds 16 bytes.\<close>



definition format_guid :: "bytes \<Rightarrow> str" where
  "format_guid g =
     hex2 (g ! 3) @ hex2 (g ! 2) @ hex2 (g ! 1) @ hex2 (g ! 0) @ S ''-'' @
     hex2 (g ! 5) @ hex2 (g ! 4) @ S ''-'' @ hex2 (g ! 7) @ hex2 (g ! 6) @ S ''-'' @
     hex2 (g ! 8) @ hex2 (g ! 9) @ S ''-'' @ hex2 (g ! 10) @ hex2 (g ! 11) @
     hex2 (g ! 12) @ hex2 (g ! 13) @ hex2 (g ! 14) @ hex2 (g ! 15)"

section \<open>Entries and the scan\<close>

definition gpt_name :: "bytes \<Rightarrow> str option" where
  "gpt_name e =
     (let name_utf16 = takeWhile (\<lambda>c. c \<noteq> 0) (le16_chunks (field e 56 72))
      in if name_utf16 = [] then None else Some (utf16_lossy name_utf16))"

definition all_zero :: "bytes \<Rightarrow> bool" where
  "all_zero bs \<longleftrightarrow> list_all (\<lambda>b. b = 0) bs"

text \<open>One iteration of the loop over slots: the partition of slot \<open>i\<close>, or nothing.\<close>

definition gpt_entry :: "nat \<Rightarrow> bytes \<Rightarrow> partition option" where
  "gpt_entry i e =
     (let type_guid = field e 0 16
      in if all_zero type_guid then None
         else
           let first_lba = le64_at e 32;
               last_lba = le64_at e 40
           in if last_lba < first_lba then None
              else
                let guid = format_guid type_guid;
                    (kind, probe_worthy) = gpt_type_name guid;
                    unique_guid = field e 16 16
                in Some
                  \<lparr>p_index = i + 1,
                   p_start_byte = first_lba * SECTOR,
                   p_size_bytes = (last_lba - first_lba + 1) * SECTOR,
                   p_kind = (if kind = S ''unknown'' then guid else kind),
                   p_type_id = guid,
                   p_name = gpt_name e,
                   p_probe_worthy = probe_worthy,
                   p_part_uuid =
                     (if all_zero unique_guid then None else Some (format_guid unique_guid))\<rparr>)"

fun gpt_loop :: "bytes \<Rightarrow> nat \<Rightarrow> nat list \<Rightarrow> partition list \<Rightarrow> partition list" where
  "gpt_loop table entry_size [] partitions = partitions"
| "gpt_loop table entry_size (i # is) partitions =
     (case gpt_entry i (field table (i * entry_size) entry_size) of
        None \<Rightarrow> gpt_loop table entry_size is partitions
      | Some p \<Rightarrow> gpt_loop table entry_size is (partitions @ [p]))"

definition gpt_scan :: "dev \<Rightarrow> partition_table option result" where
  "gpt_scan disk =
     (if dev_size disk < 2 * SECTOR + 92 then Ok None
      else rbind (dev_read disk SECTOR 92) (\<lambda>header.
        if take 8 header \<noteq> GPT_SIGNATURE then Ok None
        else
          let entries_lba = le64_at header 72;
              num_entries = unat (le32_at header 80);
              entry_size = unat (le32_at header 84)
          in if \<not> (128 \<le> entry_size \<and> entry_size \<le> 4096) \<or> num_entries > 4096
             then Err (GptError (S ''implausible GPT: '' @ show_nat num_entries @ S '' entries of ''
                         @ show_nat entry_size @ S '' bytes''))
             else rbind (dev_read disk (entries_lba * SECTOR) (num_entries * entry_size)) (\<lambda>table.
               Ok (Some \<lparr>pt_kind = Gpt,
                         pt_partitions = gpt_loop table entry_size [0..<num_entries] []\<rparr>))))"

section \<open>Slots and indices\<close>

lemma gpt_loop_filter:
  "gpt_loop table esz is ps =
   ps @ List.map_filter (\<lambda>i. gpt_entry i (field table (i * esz) esz)) is"
  by (induction table esz "is" ps rule: gpt_loop.induct)
    (auto simp: List.map_filter_simps split: option.splits)

lemma gpt_entry_index: "gpt_entry i e = Some p \<Longrightarrow> p_index p = i + 1"
  by (auto simp: gpt_entry_def Let_def split: if_splits prod.splits)

lemma map_filter_indices_ok:
  "sorted_wrt (<) is \<Longrightarrow> (\<And>i p. f i = Some p \<Longrightarrow> p_index p = i + 1) \<Longrightarrow>
   indices_ok (List.map_filter f is)"
proof (induction "is")
  case (Cons i "is")
  have "\<forall>p \<in> set (List.map_filter f is). \<exists>j \<in> set is. f j = Some p"
    by (auto simp: List.map_filter_def)
  with Cons show ?case
    by (fastforce simp: List.map_filter_simps indices_ok_def split: option.splits)
qed (simp add: List.map_filter_simps indices_ok_def)

lemma gpt_scan_Some:
  assumes "gpt_scan disk = Ok (Some t)"
  obtains header table where
    "dev_read disk SECTOR 92 = Ok header" and
    "take 8 header = GPT_SIGNATURE" and
    "128 \<le> unat (le32_at header 84)" and "unat (le32_at header 84) \<le> 4096" and
    "unat (le32_at header 80) \<le> 4096" and
    "dev_read disk (le64_at header 72 * SECTOR)
       (unat (le32_at header 80) * unat (le32_at header 84)) = Ok table" and
    "t = \<lparr>pt_kind = Gpt,
          pt_partitions = List.map_filter
            (\<lambda>i. gpt_entry i (field table (i * unat (le32_at header 84)) (unat (le32_at header 84))))
            [0..<unat (le32_at header 80)]\<rparr>"
  using assms
  by (auto simp: gpt_scan_def Let_def rbind_eq_Ok gpt_loop_filter not_less split: if_splits)

lemma gpt_scan_indices_ok: "gpt_scan disk = Ok (Some t) \<Longrightarrow> indices_ok (pt_partitions t)"
  by (erule gpt_scan_Some) (auto intro!: map_filter_indices_ok dest: gpt_entry_index)

section \<open>Byte offsets\<close>

lemma unat_mult_SECTOR: "unat x < 2 ^ 55 \<Longrightarrow> unat (x * SECTOR) = unat x * 512"
  by (simp add: unat_word_ariths)

text \<open>
  A slot's extent, exact in bytes as long as the table describes a disk of less than \<open>2 ^ 64\<close> bytes.
\<close>

lemma gpt_entry_extent:
  assumes "gpt_entry i e = Some p" and "unat (le64_at e 40) < 2 ^ 55 - 1"
  shows "unat (p_start_byte p) = unat (le64_at e 32) * 512"
    and "unat (p_start_byte p) + unat (p_size_bytes p) = (unat (le64_at e 40) + 1) * 512"
    and "0 < unat (p_size_bytes p)"
proof -
  let ?f = "le64_at e 32" and ?l = "le64_at e 40"
  from assms(1) have le: "?f \<le> ?l" and p: "p_start_byte p = ?f * SECTOR"
    "p_size_bytes p = (?l - ?f + 1) * SECTOR"
    by (auto simp: gpt_entry_def Let_def not_less split: if_splits prod.splits)
  from le have lef: "unat ?f \<le> unat ?l" by (simp add: word_le_nat_alt)
  have d: "unat (?l - ?f) = unat ?l - unat ?f" using le by (simp add: unat_sub)
  have s: "unat (?l - ?f + 1) = unat ?l - unat ?f + 1"
    using unat_add_nat [of "?l - ?f" 1] d assms(2) by simp
  show 1: "unat (p_start_byte p) = unat ?f * 512"
    unfolding p using lef assms(2) by (intro unat_mult_SECTOR) linarith
  have 2: "unat (p_size_bytes p) = (unat ?l - unat ?f + 1) * 512"
    unfolding p using unat_mult_SECTOR [of "?l - ?f + 1"] s assms(2) by simp
  show "unat (p_start_byte p) + unat (p_size_bytes p) = (unat ?l + 1) * 512"
    unfolding 1 2 using lef by (simp flip: add_mult_distrib)
  show "0 < unat (p_size_bytes p)" unfolding 2 by simp
qed

section \<open>Canonical GUIDs determine the bytes\<close>

lemma show_base_digit: "d < 16 \<Longrightarrow> show_hex d = [digit_char d]"
  by (simp add: show_base.simps [of 16 d])

lemma show_hex_byte:
  assumes "n < 256"
  shows "pad_zeros 2 (show_hex n) = [digit_char (n div 16), digit_char (n mod 16)]"
proof (cases "n < 16")
  case True
  then show ?thesis by (simp add: show_base_digit pad_zeros_def digit_char_def)
next
  case False
  have "n div 16 < 16" using assms by simp
  then have "show_hex (n div 16) = [digit_char (n div 16)]" by (rule show_base_digit)
  with False have "show_hex n = [digit_char (n div 16), digit_char (n mod 16)]"
    by (subst show_base.simps) simp
  then show ?thesis by (simp add: pad_zeros_def)
qed

lemma hex2_eq: "hex2 b = [digit_char (unat b div 16), digit_char (unat b mod 16)]"
  by (simp add: hex2_def show_hex_byte)

lemma digit_char_inj: "a < 16 \<Longrightarrow> b < 16 \<Longrightarrow> digit_char a = digit_char b \<Longrightarrow> a = b"
  by (metis digit_value_char option.inject)

lemma hex2_inj [simp]: "hex2 a = hex2 b \<longleftrightarrow> a = b"
proof
  assume "hex2 a = hex2 b"
  moreover have "unat c div 16 < 16" for c :: u8
    by (rule less_mult_imp_div_less) simp
  ultimately have "unat a div 16 = unat b div 16" "unat a mod 16 = unat b mod 16"
    by (auto simp: hex2_eq intro!: digit_char_inj)
  then have "unat a = unat b" by (metis div_mult_mod_eq)
  then show "a = b" by (simp add: word_unat_eq_iff)
qed simp

lemma length_hex2 [simp]: "length (hex2 b) = 2"
  by (simp add: hex2_eq)

lemma length_format_guid: "length (format_guid g) = 36"
  by (simp add: format_guid_def)

lemma format_guid_inj:
  assumes "length g = 16" and "length h = 16" and "format_guid g = format_guid h"
  shows "g = h"
proof (rule nth_equalityI)
  show "length g = length h" using assms by simp
  have "\<forall>i \<in> {0,1,2,3,4,5,6,7,8,9,10,11,12,13,14,15}. g ! i = h ! i"
    using assms(3) by (simp add: format_guid_def)
  moreover have "{0,1,2,3,4,5,6,7,8,9,10,11,12,13,14,15} = {..<16::nat}"
    by (auto simp: less_Suc_eq numeral_eq_Suc)
  ultimately show "g ! i = h ! i" if "i < length g" for i
    using that assms(1) by (metis lessThan_iff)
qed

section \<open>A table laid out by the format is read back\<close>

text \<open>A slot by its fields, its 128 bytes, and what the scan should make of slot \<open>i\<close>.\<close>

record gpt_slot =
  g_type :: bytes
  g_unique :: bytes
  g_first :: nat
  g_last :: nat
  g_attributes :: bytes
  g_name :: bytes

definition slot_ok :: "gpt_slot \<Rightarrow> bool" where
  "slot_ok s \<longleftrightarrow> length (g_type s) = 16 \<and> length (g_unique s) = 16 \<and>
     g_first s < 2 ^ 55 \<and> g_last s < 2 ^ 55 \<and> length (g_attributes s) = 8 \<and> length (g_name s) = 72"

definition slot_bytes :: "gpt_slot \<Rightarrow> bytes" where
  "slot_bytes s =
     g_type s @ g_unique s @ le_enc 8 (g_first s) @ le_enc 8 (g_last s) @ g_attributes s @ g_name s"

definition slot_partition :: "nat \<Rightarrow> gpt_slot \<Rightarrow> partition option" where
  "slot_partition i s =
     (if all_zero (g_type s) \<or> g_last s < g_first s then None
      else Some
        \<lparr>p_index = i + 1,
         p_start_byte = of_nat (g_first s * 512),
         p_size_bytes = of_nat ((g_last s - g_first s + 1) * 512),
         p_kind = (case gpt_type_name (format_guid (g_type s)) of (k, _) \<Rightarrow>
                     if k = S ''unknown'' then format_guid (g_type s) else k),
         p_type_id = format_guid (g_type s),
         p_name = (let us = takeWhile (\<lambda>c. c \<noteq> 0) (le16_chunks (g_name s))
                   in if us = [] then None else Some (utf16_lossy us)),
         p_probe_worthy = snd (gpt_type_name (format_guid (g_type s))),
         p_part_uuid =
           (if all_zero (g_unique s) then None else Some (format_guid (g_unique s)))\<rparr>)"

text \<open>A disk: boot sector, header at LBA 1, the table at LBA 2, then the rest.\<close>

definition gpt_image :: "bytes \<Rightarrow> bytes \<Rightarrow> bytes \<Rightarrow> bytes \<Rightarrow> gpt_slot list \<Rightarrow> bytes \<Rightarrow> bytes" where
  "gpt_image boot mid crc pad slots rest =
     boot @ (GPT_SIGNATURE @ mid @ le_enc 8 2 @ le_enc 4 (length slots) @ le_enc 4 128 @ crc) @ pad @
     concat (map slot_bytes slots) @ rest"

lemma length_slot_bytes: "slot_ok s \<Longrightarrow> length (slot_bytes s) = 128"
  by (simp add: slot_ok_def slot_bytes_def)

lemma length_GPT_SIGNATURE [simp]: "length GPT_SIGNATURE = 8"
  by (simp add: GPT_SIGNATURE_def)

lemma slot_fields:
  assumes "slot_ok s"
  shows "field (slot_bytes s) 0 16 = g_type s" "field (slot_bytes s) 16 16 = g_unique s"
    "le64_at (slot_bytes s) 32 = of_nat (g_first s)" "le64_at (slot_bytes s) 40 = of_nat (g_last s)"
    "field (slot_bytes s) 56 72 = g_name s"
  using assms
  by (simp_all add: slot_ok_def slot_bytes_def bytes_simps le64_at_def le_val_enc)

lemma gpt_entry_slot_bytes:
  assumes "slot_ok s"
  shows "gpt_entry i (slot_bytes s) = slot_partition i s"
proof -
  let ?f = "of_nat (g_first s) :: u64" and ?l = "of_nat (g_last s) :: u64"
  have u: "unat ?f = g_first s" "unat ?l = g_last s"
    using assms by (simp_all add: slot_ok_def unat_of_nat)
  then have lt: "?l < ?f \<longleftrightarrow> g_last s < g_first s" by (simp add: word_less_nat_alt)
  have "(?l - ?f + 1) * SECTOR = of_nat ((g_last s - g_first s + 1) * 512)"
    if "g_first s \<le> g_last s" using that by (simp add: SECTOR_def of_nat_diff)
  moreover have "?f * SECTOR = of_nat (g_first s * 512)" by (simp add: SECTOR_def)
  ultimately show ?thesis
    using lt
    by (simp add: gpt_entry_def slot_partition_def slot_fields [OF assms] Let_def gpt_name_def
        split: prod.splits)
qed

lemma field_concat:
  assumes "\<forall>x \<in> set xs. length x = n" and "i < length xs"
  shows "field (concat xs @ rest) (i * n) n = xs ! i"
  using assms
proof (induction xs arbitrary: i)
  case (Cons x xs)
  show ?case
  proof (cases i)
    case 0
    with Cons.prems show ?thesis by (simp add: field_def)
  next
    case (Suc j)
    with Cons show ?thesis by (simp add: bytes_simps)
  qed
qed simp

text \<open>The scan of such a disk decodes every slot, in order, into what its fields mean.\<close>

lemma gpt_scan_laid_out:
  assumes boot: "length boot = 512" and mid: "length mid = 64" and crc: "length crc = 4"
    and pad: "length pad = 420"
    and slots: "\<forall>s \<in> set slots. slot_ok s" "length slots \<le> 4096" "slots \<noteq> []"
    and fits: "file_ok (gpt_image boot mid crc pad slots rest)"
  shows "gpt_scan (file_dev (gpt_image boot mid crc pad slots rest)) =
     Ok (Some \<lparr>pt_kind = Gpt,
               pt_partitions = List.map_filter (\<lambda>i. slot_partition i (slots ! i)) [0..<length slots]\<rparr>)"
proof -
  let ?img = "gpt_image boot mid crc pad slots rest"
  let ?hdr = "GPT_SIGNATURE @ mid @ le_enc 8 2 @ le_enc 4 (length slots) @ le_enc 4 128 @ crc"
  let ?tab = "concat (map slot_bytes slots)"
  have lens: "\<forall>x \<in> set (map slot_bytes slots). length x = 128"
    using slots(1) by (auto simp: length_slot_bytes)
  have tab: "length ?tab = length slots * 128"
    using slots(1) by (induction slots) (auto simp: length_slot_bytes)
  have img: "length ?img = 1024 + length slots * 128 + length rest"
    using boot mid crc pad tab by (simp add: gpt_image_def)
  have "1 \<le> length slots" using slots(3) by (cases slots) auto
  then have sz: "\<not> dev_size (file_dev ?img) < 2 * SECTOR + 92"
    using file_size [OF fits] img by (simp add: word_less_nat_alt SECTOR_def)
  have r1: "dev_read (file_dev ?img) SECTOR 92 = Ok ?hdr"
    using img boot mid crc file_read_eq [OF fits] by (simp add: gpt_image_def SECTOR_def)
  have r2: "dev_read (file_dev ?img) (2 * SECTOR) (length slots * 128) = Ok ?tab"
    using img boot mid crc pad tab file_read_eq [OF fits] by (simp add: gpt_image_def SECTOR_def)
  have h: "take 8 ?hdr = GPT_SIGNATURE" "le64_at ?hdr 72 = 2"
    "unat (le32_at ?hdr 80) = length slots" "unat (le32_at ?hdr 84) = 128"
    using mid slots(2)
    by (simp_all add: le64_at_def le32_at_def bytes_simps le_val_enc unat_of_nat)
  have e: "gpt_entry i (field ?tab (i * 128) 128) = slot_partition i (slots ! i)"
    if "i < length slots" for i
    using field_concat [OF lens, of i "[]"] that slots(1) by (simp add: gpt_entry_slot_bytes)
  have m: "List.map_filter (\<lambda>i. gpt_entry i (field ?tab (i * 128) 128)) [0..<length slots] =
           List.map_filter (\<lambda>i. slot_partition i (slots ! i)) [0..<length slots]"
    using e by (auto simp: List.map_filter_def intro!: map_cong filter_cong)
  have "gpt_scan (file_dev ?img) =
    Ok (Some \<lparr>pt_kind = Gpt, pt_partitions = gpt_loop ?tab 128 [0..<length slots] []\<rparr>)"
    unfolding gpt_scan_def Let_def using sz r1 r2 h slots(2) by simp
  then show ?thesis by (simp add: gpt_loop_filter m)
qed

text \<open>
  C3: round trip of GPT. A disk laid out by the format, with a table of up to 4096 slots of 128
  bytes, is scanned back slot by slot: partition \<open>i + 1\<close> has the extent, type, name and UUID that
  slot \<open>i\<close> encodes, and empty or inverted slots are skipped.
\<close>

lemma gpt_scan_image:
  assumes boot: "length boot = 512" and mid: "length mid = 64" and crc: "length crc = 4"
    and pad: "length pad = 420"
    and slots: "\<forall>s \<in> set slots. slot_ok s" "length slots \<le> 4096" "slots \<noteq> []"
    and fits: "file_ok (gpt_image boot mid crc pad slots rest)"
  shows "gpt_scan (file_dev (gpt_image boot mid crc pad slots rest)) =
     Ok (Some \<lparr>pt_kind = Gpt,
               pt_partitions = List.map_filter (\<lambda>i. slot_partition i (slots ! i)) [0..<length slots]\<rparr>)"
  using assms by (rule gpt_scan_laid_out)

definition example_slot :: gpt_slot where
  "example_slot = \<lparr>g_type = replicate 16 1, g_unique = replicate 16 2, g_first = 2048,
     g_last = 2048, g_attributes = replicate 8 0, g_name = replicate 72 0\<rparr>"

abbreviation example_disk :: dev where
  "example_disk \<equiv> file_dev (gpt_image (replicate 512 0) (replicate 64 0) (replicate 4 0)
     (replicate 420 0) [example_slot] [])"

lemma example_slot_ok: "slot_ok example_slot"
  by (simp add: slot_ok_def example_slot_def)

lemma example_disk_ok:
  "file_ok (gpt_image (replicate 512 0) (replicate 64 0) (replicate 4 0) (replicate 420 0)
     [example_slot] [])"
  by (simp add: file_ok_def gpt_image_def length_slot_bytes [OF example_slot_ok])

lemma example_slot_partition:
  obtains p where "slot_partition 0 example_slot = Some p" and "p_index p = 1"
    and "p_start_byte p = 1048576" and "p_size_bytes p = 512"
  by (simp add: slot_partition_def example_slot_def all_zero_def list_all_iff)

lemma gpt_scan_image_witness:
  "\<exists>p. gpt_scan example_disk = Ok (Some \<lparr>pt_kind = Gpt, pt_partitions = [p]\<rparr>) \<and>
       p_index p = 1 \<and> p_start_byte p = 1048576 \<and> p_size_bytes p = 512"
proof -
  obtain p where p: "slot_partition 0 example_slot = Some p" "p_index p = 1"
    "p_start_byte p = 1048576" "p_size_bytes p = 512" by (rule example_slot_partition)
  then show ?thesis
    using gpt_scan_image [of "replicate 512 0" "replicate 64 0" "replicate 4 0" "replicate 420 0"
        "[example_slot]" "[]"] example_slot_ok example_disk_ok
    by (simp add: List.map_filter_simps)
qed

text \<open>
  Where the format puts an entry, said of the content of the disk: the header in the 92 bytes of the
  second sector names the first sector of the table and the size of an entry, and entry \<open>i\<close> follows the
  \<open>i\<close> before it. (The byte position wraps at \<open>2 ^ 64\<close>, as in the code.)
\<close>

definition disk_slot :: "(nat \<Rightarrow> u8) \<Rightarrow> nat \<Rightarrow> bytes" where
  "disk_slot f i =
     (let header = segment f 512 92;
          table_at = unat (le64_at header 72) * 512 mod 2 ^ 64;
          entry_size = unat (le32_at header 84)
      in segment f (table_at + i * entry_size) entry_size)"

lemma gpt_scan_slot:
  assumes disk: "sound_device (dev_size disk) (dev_read disk) f"
    and scan: "gpt_scan disk = Ok (Some t)" and p: "p \<in> set (pt_partitions t)"
  shows "\<exists>i. p_index p = i + 1 \<and> i < unat (le32_at (segment f 512 92) 80) \<and>
    gpt_entry i (disk_slot f i) = Some p"
proof -
  from scan obtain header table where
    h: "dev_read disk SECTOR 92 = Ok header" and
    r: "dev_read disk (le64_at header 72 * SECTOR)
       (unat (le32_at header 80) * unat (le32_at header 84)) = Ok table" and
    t: "t = \<lparr>pt_kind = Gpt, pt_partitions = List.map_filter
          (\<lambda>i. gpt_entry i (field table (i * unat (le32_at header 84)) (unat (le32_at header 84))))
          [0..<unat (le32_at header 80)]\<rparr>"
    by (rule gpt_scan_Some)
  have header: "header = segment f 512 92"
    using sound_device.read_sound [OF disk h] by simp
  let ?n = "unat (le32_at header 80)" and ?sz = "unat (le32_at header 84)"
  let ?at = "unat (le64_at header 72) * 512 mod 2 ^ 64"
  have "unat (le64_at header 72 * SECTOR) = ?at"
    by (simp add: unat_word_ariths)
  with sound_device.read_sound [OF disk r] have table: "table = segment f ?at (?n * ?sz)" by simp
  from p t obtain i where i: "i < ?n" "gpt_entry i (field table (i * ?sz) ?sz) = Some p"
    by (auto simp: List.map_filter_def)
  have "i * ?sz + ?sz \<le> ?n * ?sz"
    using i(1) mult_le_mono1 [of "Suc i" ?n ?sz] by simp
  then have "field table (i * ?sz) ?sz = disk_slot f i"
    by (simp add: table disk_slot_def Let_def header field_def drop_segment take_segment)
  with i header gpt_entry_index show ?thesis by auto
qed

text \<open>
  C10: a GPT partition is exactly the sectors that its entry on the disk names. Every partition of a
  scan is numbered from 1 by its slot, within the number of slots the header states, and describes the
  entry that stands there on the disk, at the place that the header gives the table and with the entry
  size it gives; that entry is in use and has \<open>first_lba \<le> last_lba\<close>. While \<open>last_lba\<close> describes a disk
  of less than \<open>2 ^ 64\<close> bytes, the partition starts at \<open>first_lba * 512\<close>, ends at
  \<open>(last_lba + 1) * 512\<close> and is not empty.
\<close>

lemma gpt_scan_extents:
  assumes "sound_device (dev_size disk) (dev_read disk) f"
    and "gpt_scan disk = Ok (Some t)" and "p \<in> set (pt_partitions t)"
  shows "let entry = disk_slot f (p_index p - 1) in
    1 \<le> p_index p \<and> p_index p \<le> unat (le32_at (segment f 512 92) 80) \<and>
    gpt_entry (p_index p - 1) entry = Some p \<and>
    \<not> all_zero (take 16 entry) \<and> le64_at entry 32 \<le> le64_at entry 40 \<and>
    (unat (le64_at entry 40) < 2 ^ 55 - 1 \<longrightarrow>
       unat (p_start_byte p) = unat (le64_at entry 32) * 512 \<and>
       unat (p_start_byte p) + unat (p_size_bytes p) = (unat (le64_at entry 40) + 1) * 512 \<and>
       0 < unat (p_size_bytes p))"
proof -
  from gpt_scan_slot [OF assms] obtain i where i: "p_index p = i + 1"
    "i < unat (le32_at (segment f 512 92) 80)" and e: "gpt_entry i (disk_slot f i) = Some p" by blast
  from e have "\<not> all_zero (take 16 (disk_slot f i))" "le64_at (disk_slot f i) 32 \<le> le64_at (disk_slot f i) 40"
    by (auto simp: gpt_entry_def Let_def not_less field_def split: if_splits prod.splits)
  with i e gpt_entry_extent [OF e] show ?thesis by simp
qed

lemma gpt_scan_extents_witness:
  "\<exists>t p f. gpt_scan example_disk = Ok (Some t) \<and> p \<in> set (pt_partitions t) \<and>
     f = (!) (gpt_image (replicate 512 0) (replicate 64 0) (replicate 4 0) (replicate 420 0)
            [example_slot] []) \<and>
     gpt_entry 0 (disk_slot f 0) = Some p \<and> unat (p_start_byte p) = 2048 * 512"
proof -
  obtain p where p: "slot_partition 0 example_slot = Some p" "p_index p = 1" "p_start_byte p = 1048576"
    by (rule example_slot_partition)
  let ?t = "\<lparr>pt_kind = Gpt, pt_partitions = [p]\<rparr>"
  have t: "gpt_scan example_disk = Ok (Some ?t)"
    using gpt_scan_laid_out [of "replicate 512 0" "replicate 64 0" "replicate 4 0" "replicate 420 0"
        "[example_slot]" "[]"] example_slot_ok example_disk_ok p(1)
    by (simp add: List.map_filter_simps)
  have "p \<in> set (pt_partitions ?t)" by simp
  from gpt_scan_extents [OF raw_file.sound_device_axioms t this] p t show ?thesis
    by (simp add: Let_def)
qed

end
