(* ===== verification/Part_Mbr.thy ===== *)
theory Part_Mbr
  imports Part
begin

text \<open>
  src/src/part/mbr.rs: the MBR partition table with its chain of extended boot records (EBRs). The
  lemmas show that indices are unique (primaries 1 to 4, logicals from 5), that no offset overflows,
  that the walk of the chain stops after 128 records, and that every logical partition comes from a
  record that the chain reaches.
\<close>

definition TYPE_EMPTY :: u8 where "TYPE_EMPTY = 0x00"
definition TYPE_EXTENDED_CHS :: u8 where "TYPE_EXTENDED_CHS = 0x05"
definition TYPE_EXTENDED_LBA :: u8 where "TYPE_EXTENDED_LBA = 0x0f"
definition TYPE_GPT_PROTECTIVE :: u8 where "TYPE_GPT_PROTECTIVE = 0xee"

lemmas mbr_type_defs =
  TYPE_EMPTY_def TYPE_EXTENDED_CHS_def TYPE_EXTENDED_LBA_def TYPE_GPT_PROTECTIVE_def

definition mbr_type_id :: "u8 \<Rightarrow> str" where
  "mbr_type_id t = show_alt_hex_byte (unat t)"

definition mbr_type_name :: "u8 \<Rightarrow> str \<times> bool" where
  "mbr_type_name t =
     (if t = 0x07 then (S ''NTFS/exFAT'', False)
      else if t = 0x0b \<or> t = 0x0c then (S ''FAT32'', True)
      else if t = 0x0e then (S ''FAT16 LBA'', True)
      else if t = 0x27 then (S ''Windows recovery'', False)
      else if t = 0x82 then (S ''Linux swap'', False)
      else if t = 0x83 then (S ''Linux'', True)
      else if t = 0x8e then (S ''Linux LVM'', False)
      else if t = 0xef then (S ''EFI System'', True)
      else (show_alt_hex_byte (unat t), False))"

record raw_entry =
  re_type :: u8
  re_start_lba :: u32
  re_sectors :: u32

definition raw_entry_at :: "bytes \<Rightarrow> nat \<Rightarrow> raw_entry" where
  "raw_entry_at sector i =
     (let e = field sector (446 + i * 16) 16
      in \<lparr>re_type = e ! 4, re_start_lba = le32_at e 8, re_sectors = le32_at e 12\<rparr>)"

definition parse_entries :: "bytes \<Rightarrow> raw_entry list option" where
  "parse_entries sector =
     (if field sector 510 2 \<noteq> [0x55, 0xaa] then None
      else Some (map (raw_entry_at sector) [0..<4]))"

definition is_extended :: "u8 \<Rightarrow> bool" where
  "is_extended t \<longleftrightarrow> t = TYPE_EXTENDED_CHS \<or> t = TYPE_EXTENDED_LBA"

text \<open>\<open>start_lba as u64 * SECTOR\<close>.\<close>

definition lba_bytes :: "u32 \<Rightarrow> u64" where
  "lba_bytes l = ucast l * SECTOR"

definition mbr_part_uuid :: "u32 \<Rightarrow> nat \<Rightarrow> str option" where
  "mbr_part_uuid disksig index =
     (if disksig \<noteq> 0
      then Some (pad_zeros 8 (show_hex (unat disksig)) @ S ''-'' @ pad_zeros 2 (show_hex index))
      else None)"

definition mbr_partition :: "(nat \<Rightarrow> str option) \<Rightarrow> nat \<Rightarrow> u64 \<Rightarrow> raw_entry \<Rightarrow> partition" where
  "mbr_partition part_uuid index start_byte e =
     (let (kind, probe_worthy) = mbr_type_name (re_type e)
      in \<lparr>p_index = index,
          p_start_byte = start_byte,
          p_size_bytes = lba_bytes (re_sectors e),
          p_kind = kind,
          p_type_id = mbr_type_id (re_type e),
          p_name = None,
          p_probe_worthy = probe_worthy,
          p_part_uuid = part_uuid index\<rparr>)"

text \<open>The loop over the four primary entries: the partitions and where the extended one starts.\<close>

fun mbr_primary ::
  "(nat \<Rightarrow> str option) \<Rightarrow> nat \<Rightarrow> raw_entry list \<Rightarrow> partition list \<Rightarrow> u64 option \<Rightarrow>
   partition list \<times> u64 option" where
  "mbr_primary part_uuid i [] partitions extended_start = (partitions, extended_start)"
| "mbr_primary part_uuid i (e # es) partitions extended_start =
     (if re_type e = TYPE_EMPTY \<or> re_sectors e = 0 then
        mbr_primary part_uuid (i + 1) es partitions extended_start
      else if re_type e = TYPE_GPT_PROTECTIVE then
        mbr_primary part_uuid (i + 1) es partitions extended_start
      else if is_extended (re_type e) then
        mbr_primary part_uuid (i + 1) es partitions (Some (lba_bytes (re_start_lba e)))
      else
        mbr_primary part_uuid (i + 1) es
          (partitions @ [mbr_partition part_uuid (i + 1) (lba_bytes (re_start_lba e)) e])
          extended_start)"

text \<open>
  The EBR chain. The third argument counts the iterations left of \<open>for _ in 0..128\<close>; running out of
  them ends the loop, as it does in the code.
\<close>

fun ebr_walk ::
  "dev \<Rightarrow> (nat \<Rightarrow> str option) \<Rightarrow> nat \<Rightarrow> u64 \<Rightarrow> u64 \<Rightarrow> nat \<Rightarrow> partition list \<Rightarrow>
   partition list result" where
  "ebr_walk disk part_uuid 0 ext_base ebr_offset index partitions = Ok partitions"
| "ebr_walk disk part_uuid (Suc k) ext_base ebr_offset index partitions =
     (case check_bounds (dev_size disk) ebr_offset 512 of
        Inl _ \<Rightarrow> Ok partitions
      | Inr _ \<Rightarrow>
          rbind (dev_read disk ebr_offset 512) (\<lambda>ebr.
            case parse_entries ebr of
              None \<Rightarrow> Ok partitions
            | Some entries \<Rightarrow>
                let data = entries ! 0;
                    link = entries ! 1;
                    found = re_type data \<noteq> TYPE_EMPTY \<and> re_sectors data \<noteq> 0;
                    partitions' =
                      (if found
                       then partitions @
                         [mbr_partition part_uuid index
                            (ebr_offset + lba_bytes (re_start_lba data)) data]
                       else partitions);
                    index' = (if found then index + 1 else index)
                in if is_extended (re_type link)
                   then ebr_walk disk part_uuid k ext_base
                          (ext_base + lba_bytes (re_start_lba link)) index' partitions'
                   else Ok partitions'))"

definition plausible :: "raw_entry \<Rightarrow> bool" where
  "plausible e \<longleftrightarrow> re_type e \<noteq> TYPE_EMPTY \<and> 0 < re_start_lba e \<and> 0 < re_sectors e"

definition mbr_scan :: "dev \<Rightarrow> partition_table option result" where
  "mbr_scan disk =
     (if dev_size disk < SECTOR then Ok None
      else rbind (dev_read disk 0 512) (\<lambda>sector.
        case parse_entries sector of
          None \<Rightarrow> Ok None
        | Some entries \<Rightarrow>
            if \<not> list_ex plausible entries then Ok None
            else
              let part_uuid = mbr_part_uuid (le32_at sector 440);
                  (primaries, extended_start) = mbr_primary part_uuid 0 entries [] None
              in rbind
                   (case extended_start of
                      None \<Rightarrow> Ok primaries
                    | Some ext_base \<Rightarrow> ebr_walk disk part_uuid 128 ext_base ext_base 5 primaries)
                   (\<lambda>partitions.
                      if partitions = [] then Ok None
                      else Ok (Some \<lparr>pt_kind = Mbr, pt_partitions = partitions\<rparr>))))"

section \<open>Offsets\<close>

lemma unat_ucast_32: "unat (ucast (l :: u32) :: u64) = unat l"
  by transfer (simp add: take_bit_eq_mod mod_mod_cancel)

lemma unat_lba_bytes [simp]: "unat (lba_bytes l) = unat l * 512"
proof -
  have "unat l < 2 ^ 32" using unsigned_less [of l, where ?'a = nat] by simp
  moreover have "unat (ucast l :: u64) = unat l"
    by (rule unat_ucast_32)
  ultimately show ?thesis by (simp add: lba_bytes_def SECTOR_def unat_word_ariths)
qed

lemma unat_u32_lt: "unat (l :: u32) < 2 ^ 32"
  using unsigned_less [of l, where ?'a = nat] by simp

lemma unat_add_lba:
  "unat b < 2 ^ 42 \<Longrightarrow> unat (b + lba_bytes l) = unat b + unat l * 512"
  using unat_u32_lt [of l] by (simp add: unat_word_ariths)

lemma mbr_partition_simps [simp]:
  "p_index (mbr_partition u i s e) = i"
  "p_start_byte (mbr_partition u i s e) = s"
  "p_size_bytes (mbr_partition u i s e) = lba_bytes (re_sectors e)"
  "p_part_uuid (mbr_partition u i s e) = u i"
  by (simp_all add: mbr_partition_def split: prod.splits)

section \<open>Primary entries\<close>

text \<open>The primary loop as a map: entry \<open>i\<close> gives partition \<open>i + 1\<close>, or none.\<close>

definition primary_partition :: "(nat \<Rightarrow> str option) \<Rightarrow> nat \<Rightarrow> raw_entry \<Rightarrow> partition option" where
  "primary_partition part_uuid i e =
     (if re_type e = TYPE_EMPTY \<or> re_sectors e = 0 \<or> re_type e = TYPE_GPT_PROTECTIVE \<or>
         is_extended (re_type e)
      then None
      else Some (mbr_partition part_uuid (i + 1) (lba_bytes (re_start_lba e)) e))"

fun primary_partitions :: "(nat \<Rightarrow> str option) \<Rightarrow> nat \<Rightarrow> raw_entry list \<Rightarrow> partition list" where
  "primary_partitions u i [] = []"
| "primary_partitions u i (e # es) =
     (case primary_partition u i e of None \<Rightarrow> [] | Some p \<Rightarrow> [p]) @ primary_partitions u (i + 1) es"

lemma mbr_primary_partitions:
  "fst (mbr_primary u i es ps x) = ps @ primary_partitions u i es"
  by (induction u i es ps x rule: mbr_primary.induct) (auto simp: primary_partition_def)

lemma mbr_primary_extended:
  "snd (mbr_primary u i es ps x) = Some b \<Longrightarrow>
   x = Some b \<or> (\<exists>e \<in> set es. is_extended (re_type e) \<and> b = lba_bytes (re_start_lba e))"
  by (induction u i es ps x rule: mbr_primary.induct) (auto split: if_splits)

lemma primary_partitions_in:
  "p \<in> set (primary_partitions u i es) \<Longrightarrow>
   \<exists>j < length es. primary_partition u (i + j) (es ! j) = Some p"
proof (induction es arbitrary: i)
  case (Cons e es)
  from Cons.prems consider "primary_partition u i e = Some p"
    | "p \<in> set (primary_partitions u (i + 1) es)"
    by (auto split: option.splits)
  then show ?case
  proof cases
    case 2
    then obtain j where "j < length es" "primary_partition u (i + 1 + j) (es ! j) = Some p"
      using Cons.IH by blast
    then show ?thesis by (intro exI [of _ "Suc j"]) simp
  qed auto
qed simp

lemma primary_partitions_index:
  "p \<in> set (primary_partitions u i es) \<Longrightarrow> i < p_index p \<and> p_index p \<le> i + length es"
  by (drule primary_partitions_in) (auto simp: primary_partition_def split: if_splits)

lemma primary_partitions_indices_ok: "indices_ok (primary_partitions u i es)"
proof (induction es arbitrary: i)
  case (Cons e es)
  have "p_index p = i + 1" if "primary_partition u i e = Some p" for p
    using that by (auto simp: primary_partition_def split: if_splits)
  with Cons [of "i + 1"] show ?case
    by (auto simp: indices_ok_def split: option.splits dest: primary_partitions_index)
qed (simp add: indices_ok_def)

lemma length_primary_partitions: "length (primary_partitions u i es) \<le> length es"
  by (induction es arbitrary: i) (auto split: option.splits intro: le_SucI)

section \<open>The EBR chain\<close>

text \<open>The records the chain can reach from the extended partition's start, as a relation.\<close>

inductive ebr_reach :: "dev \<Rightarrow> u64 \<Rightarrow> u64 \<Rightarrow> bool" for disk ext_base where
  ebr_first: "ebr_reach disk ext_base ext_base"
| ebr_link: "ebr_reach disk ext_base off \<Longrightarrow>
    check_bounds (dev_size disk) off 512 = Ok () \<Longrightarrow>
    dev_read disk off 512 = Ok ebr \<Longrightarrow> parse_entries ebr = Some es \<Longrightarrow>
    is_extended (re_type (es ! 1)) \<Longrightarrow>
    ebr_reach disk ext_base (ext_base + lba_bytes (re_start_lba (es ! 1)))"

inductive_cases ebr_reachE: "ebr_reach disk ext_base off"

text \<open>A partition that a record of the chain describes, under the index \<open>i\<close>.\<close>

definition logical_at :: "dev \<Rightarrow> (nat \<Rightarrow> str option) \<Rightarrow> u64 \<Rightarrow> partition \<Rightarrow> bool" where
  "logical_at disk u off p \<longleftrightarrow>
     check_bounds (dev_size disk) off 512 = Ok () \<and>
     (\<exists>ebr es. dev_read disk off 512 = Ok ebr \<and> parse_entries ebr = Some es \<and>
        re_type (es ! 0) \<noteq> TYPE_EMPTY \<and> re_sectors (es ! 0) \<noteq> 0 \<and>
        p = mbr_partition u (p_index p) (off + lba_bytes (re_start_lba (es ! 0))) (es ! 0))"

text \<open>One round of the walk: it ends with what it has, or adds the record's partition and follows the link.\<close>

definition ebr_new :: "(nat \<Rightarrow> str option) \<Rightarrow> u64 \<Rightarrow> nat \<Rightarrow> raw_entry \<Rightarrow> partition list" where
  "ebr_new u off i e =
     (if re_type e \<noteq> TYPE_EMPTY \<and> re_sectors e \<noteq> 0
      then [mbr_partition u i (off + lba_bytes (re_start_lba e)) e] else [])"

lemma length_ebr_new: "length (ebr_new u off i e) \<le> 1"
  by (simp add: ebr_new_def)

lemma ebr_new_index: "p \<in> set (ebr_new u off i e) \<Longrightarrow> p_index p = i \<and> length (ebr_new u off i e) = 1"
  by (simp add: ebr_new_def split: if_splits)

lemma ebr_walk_round:
  assumes "ebr_walk disk u (Suc k) base off i ps = Ok qs"
  obtains (stop) "qs = ps"
  | (last) ebr es where "check_bounds (dev_size disk) off 512 = Ok ()"
      "dev_read disk off 512 = Ok ebr" "parse_entries ebr = Some es"
      "qs = ps @ ebr_new u off i (es ! 0)"
  | (follow) ebr es where "check_bounds (dev_size disk) off 512 = Ok ()"
      "dev_read disk off 512 = Ok ebr" "parse_entries ebr = Some es"
      "is_extended (re_type (es ! 1))"
      "ebr_walk disk u k base (base + lba_bytes (re_start_lba (es ! 1)))
         (i + length (ebr_new u off i (es ! 0))) (ps @ ebr_new u off i (es ! 0)) = Ok qs"
proof (cases "check_bounds (dev_size disk) off 512")
  case (Inl e)
  with assms stop show thesis by simp
next
  case bounds: (Inr v)
  with assms obtain ebr where read: "dev_read disk off 512 = Ok ebr"
    by (cases "dev_read disk off 512") auto
  show thesis
  proof (cases "parse_entries ebr")
    case None
    with assms bounds read stop show thesis by simp
  next
    case (Some es)
    show thesis
    proof (cases "is_extended (re_type (es ! 1))")
      case True
      then show thesis using assms bounds read Some
        by (intro follow) (auto simp: ebr_new_def Let_def)
    next
      case False
      then show thesis using assms bounds read Some
        by (intro last) (auto simp: ebr_new_def Let_def split: if_splits)
    qed
  qed
qed

lemma ebr_new_logical:
  assumes "check_bounds (dev_size disk) off 512 = Ok ()"
    and "dev_read disk off 512 = Ok ebr" and "parse_entries ebr = Some es"
    and "q \<in> set (ebr_new u off i (es ! 0))"
  shows "logical_at disk u off q"
  using assms by (auto simp: ebr_new_def logical_at_def split: if_splits)

lemma ebr_walk_sound:
  assumes "ebr_walk disk u k base off i ps = Ok qs" and "ebr_reach disk base off" and "q \<in> set qs"
  shows "q \<in> set ps \<or> (\<exists>off'. ebr_reach disk base off' \<and> logical_at disk u off' q)"
  using assms
proof (induction k arbitrary: off i ps)
  case (Suc k)
  from Suc.prems(1) show ?case
  proof (cases rule: ebr_walk_round)
    case stop
    with Suc.prems show ?thesis by simp
  next
    case (last ebr es)
    with Suc.prems show ?thesis by (auto dest: ebr_new_logical)
  next
    case (follow ebr es)
    note Suc.IH [OF follow(5) ebr_link [OF Suc.prems(2) follow(1-4)] Suc.prems(3)]
    with Suc.prems(2) follow show ?thesis by (auto dest: ebr_new_logical)
  qed
qed simp

lemma ebr_walk_indices:
  assumes "ebr_walk disk u k base off i ps = Ok qs"
    and "indices_ok ps" and "1 \<le> i" and "\<forall>p \<in> set ps. p_index p < i"
  shows "indices_ok qs \<and> (\<exists>more. qs = ps @ more \<and> map p_index more = [i..<i + length more] \<and> length more \<le> k)"
  using assms
proof (induction k arbitrary: off i ps)
  case (Suc k)
  let ?new = "\<lambda>es. ebr_new u off i (es ! 0)"
  have new: "indices_ok (ps @ ?new es)" "map p_index (?new es) = [i..<i + length (?new es)]"
    "length (?new es) \<le> 1" for es
    using Suc.prems by (auto simp: ebr_new_def indices_ok_snoc)
  from Suc.prems(1) show ?case
  proof (cases rule: ebr_walk_round)
    case stop
    with Suc.prems show ?thesis by simp
  next
    case (last ebr es)
    with new [of es] show ?thesis by (intro conjI exI [of _ "?new es"]) auto
  next
    case (follow ebr es)
    have "\<forall>p \<in> set (ps @ ?new es). p_index p < i + length (?new es)"
      using Suc.prems(4) by (fastforce dest: ebr_new_index)
    with Suc.IH [OF follow(5)] new [of es] Suc.prems(3) obtain more where
      "indices_ok qs" "qs = (ps @ ?new es) @ more" "length more \<le> k"
      "map p_index more = [i + length (?new es)..<i + length (?new es) + length more]"
      by auto
    moreover from this have "map p_index (?new es @ more) = [i..<i + length (?new es @ more)]"
      using new(2) [of es] upt_add_eq_append [of i "i + length (?new es)" "length more"]
      by (simp add: add.assoc)
    moreover have "length (?new es @ more) \<le> Suc k"
      using new(3) [of es] calculation(3) by simp
    ultimately show ?thesis by (metis append.assoc)
  qed
qed simp

text \<open>No offset of the chain wraps: every LBA is below \<open>2 ^ 32\<close>.\<close>

lemma ebr_reach_bound:
  assumes "ebr_reach disk base off" and "unat base < 2 ^ 41"
  shows "unat off < 2 ^ 42"
  using assms
proof (cases rule: ebr_reach.cases)
  case (ebr_link off ebr es)
  then show ?thesis
    using assms(2) unat_u32_lt [of "re_start_lba (es ! 1)"]
    by (simp add: unat_add_lba)
qed simp

lemma lba_bytes_lt: "unat (lba_bytes l) < 2 ^ 41"
  using unat_u32_lt [of l] by simp

section \<open>The whole scan\<close>

lemma parse_entries_length: "parse_entries s = Some es \<Longrightarrow> length es = 4"
  by (auto simp: parse_entries_def split: if_splits)

text \<open>
  What a successful scan found: the plausible boot sector's primaries in slot order, then the
  logical partitions, numbered from 5, each read off a record that the chain reaches.
\<close>

lemma mbr_scan_Some:
  assumes "mbr_scan disk = Ok (Some t)"
  obtains sector es more where
    "dev_read disk 0 512 = Ok sector" and "parse_entries sector = Some es" and
    "list_ex plausible es" and "pt_kind t = Mbr" and "pt_partitions t \<noteq> []" and
    "indices_ok (pt_partitions t)" and
    "pt_partitions t = primary_partitions (mbr_part_uuid (le32_at sector 440)) 0 es @ more" and
    "map p_index more = [5..<5 + length more]" and "length more \<le> 128" and
    "\<forall>q \<in> set more. \<exists>e \<in> set es. \<exists>off. is_extended (re_type e) \<and>
       ebr_reach disk (lba_bytes (re_start_lba e)) off \<and>
       logical_at disk (mbr_part_uuid (le32_at sector 440)) off q"
proof -
  from assms obtain sector where sector: "dev_read disk 0 512 = Ok sector"
    by (cases "dev_read disk 0 512") (auto simp: mbr_scan_def split: if_splits)
  with assms obtain es where es: "parse_entries sector = Some es"
    by (cases "parse_entries sector") (auto simp: mbr_scan_def split: if_splits)
  from assms sector es have pl: "list_ex plausible es"
    by (auto simp: mbr_scan_def split: if_splits)
  define u where "u = mbr_part_uuid (le32_at sector 440)"
  define ps where "ps = primary_partitions u 0 es"
  obtain x where prim: "mbr_primary u 0 es [] None = (ps, x)"
    using mbr_primary_partitions [of u 0 es "[]" None]
    by (cases "mbr_primary u 0 es [] None") (simp add: ps_def)
  have ok: "indices_ok ps" unfolding ps_def by (rule primary_partitions_indices_ok)
  have below: "\<forall>p \<in> set ps. p_index p < 5"
    using primary_partitions_index [of _ u 0 es] parse_entries_length [OF es]
    by (fastforce simp: ps_def)
  let ?run = "case x of None \<Rightarrow> Ok ps | Some b \<Rightarrow> ebr_walk disk u 128 b b 5 ps"
  have "rbind ?run (\<lambda>qs. if qs = [] then Ok None
      else Ok (Some \<lparr>pt_kind = Mbr, pt_partitions = qs\<rparr>)) = Ok (Some t)"
    using assms sector es pl prim unfolding u_def by (simp add: mbr_scan_def split: if_splits)
  then obtain qs where run: "(case x of None \<Rightarrow> Ok ps | Some b \<Rightarrow> ebr_walk disk u 128 b b 5 ps) = Ok qs"
    and t: "t = \<lparr>pt_kind = Mbr, pt_partitions = qs\<rparr>" and ne: "qs \<noteq> []"
    by (auto simp: rbind_eq_Ok split: if_splits)
  show thesis
  proof (cases x)
    case None
    with run have "qs = ps" by simp
    with that [of sector es "[]"] sector es pl t ne ok show thesis by (simp add: ps_def u_def)
  next
    case (Some b)
    with run have walk: "ebr_walk disk u 128 b b 5 ps = Ok qs" by simp
    from ebr_walk_indices [OF walk ok _ below] obtain more where idx: "indices_ok qs"
      "qs = ps @ more" "map p_index more = [5..<5 + length more]" "length more \<le> 128" by auto
    obtain e where e: "e \<in> set es" "b = lba_bytes (re_start_lba e)" "is_extended (re_type e)"
      using mbr_primary_extended [of u 0 es "[]" None b] prim Some by auto
    have "q \<in> set ps \<or> (\<exists>off. ebr_reach disk b off \<and> logical_at disk u off q)"
      if "q \<in> set qs" for q
      by (rule ebr_walk_sound [OF walk ebr_first that])
    moreover have "q \<notin> set ps" if "q \<in> set more" for q
      using that below idx(3) by (metis atLeastLessThan_iff image_eqI linorder_not_less set_map set_upt)
    ultimately have "\<forall>q \<in> set more. \<exists>e \<in> set es. \<exists>off. is_extended (re_type e) \<and>
        ebr_reach disk (lba_bytes (re_start_lba e)) off \<and> logical_at disk u off q"
      using e idx(2) by (metis Un_iff set_append)
    with that [of sector es more] sector es pl t ne idx show thesis by (simp add: ps_def u_def)
  qed
qed

lemma mbr_scan_indices_ok: "mbr_scan disk = Ok (Some t) \<Longrightarrow> indices_ok (pt_partitions t)"
  by (erule mbr_scan_Some)

text \<open>An offset of a partition is exact: no LBA arithmetic of the scan wraps.\<close>

lemma logical_at_start:
  assumes "logical_at disk u off q" and "unat off < 2 ^ 42"
  shows "\<exists>l :: u32. unat (p_start_byte q) = unat off + unat l * 512"
proof -
  from assms(1) obtain es :: "raw_entry list" where
    "q = mbr_partition u (p_index q) (off + lba_bytes (re_start_lba (es ! 0))) (es ! 0)"
    by (auto simp: logical_at_def)
  then have "p_start_byte q = off + lba_bytes (re_start_lba (es ! 0))"
    by (metis mbr_partition_simps(2))
  with unat_add_lba [OF assms(2)] show ?thesis by auto
qed

section \<open>A sector laid out by the format is read back\<close>

definition entry_head :: "u8 \<Rightarrow> bytes" where
  "entry_head t = [0, 0, 0, 0, t, 0, 0, 0]"

definition entry_bytes :: "raw_entry \<Rightarrow> bytes" where
  "entry_bytes e = entry_head (re_type e) @ le_enc 4 (unat (re_start_lba e)) @
     le_enc 4 (unat (re_sectors e))"

definition mbr_sector :: "bytes \<Rightarrow> u32 \<Rightarrow> bytes \<Rightarrow> raw_entry list \<Rightarrow> bytes" where
  "mbr_sector boot sig pad es =
     boot @ le_enc 4 (unat sig) @ pad @ concat (map entry_bytes es) @ [0x55, 0xaa]"

lemma entry_head [simp]: "length (entry_head t) = 8" "entry_head t ! 4 = t"
  by (simp_all add: entry_head_def)

lemma length_entry_bytes [simp]: "length (entry_bytes e) = 16"
  by (simp add: entry_bytes_def)

lemma raw_entry_bytes:
  "\<lparr>re_type = entry_bytes e ! 4, re_start_lba = le32_at (entry_bytes e) 8,
    re_sectors = le32_at (entry_bytes e) 12\<rparr> = e"
  using unat_u32_lt [of "re_start_lba e"] unat_u32_lt [of "re_sectors e"]
  by (simp add: entry_bytes_def le32_at_def bytes_simps le_val_enc nth_append)

lemma concat_entries: "length (concat (map entry_bytes es)) = length es * 16"
  by (induction es) auto

lemma field_entries:
  "i < length es \<Longrightarrow> field (concat (map entry_bytes es) @ r) (i * 16) 16 = entry_bytes (es ! i)"
proof (induction es arbitrary: i)
  case (Cons e es)
  then show ?case by (cases i) (simp_all add: field_def)
qed simp

lemma parse_entries_mbr_sector:
  assumes "length boot = 440" and "length pad = 2" and "length es = 4"
  shows "parse_entries (mbr_sector boot sig pad es) = Some es"
    and "length (mbr_sector boot sig pad es) = 512"
    and "le32_at (mbr_sector boot sig pad es) 440 = sig"
proof -
  let ?s = "mbr_sector boot sig pad es"
  show "length ?s = 512" using assms concat_entries [of es] by (simp add: mbr_sector_def)
  show "le32_at ?s 440 = sig"
    using assms unat_u32_lt [of sig]
    by (simp add: mbr_sector_def le32_at_def bytes_simps le_val_enc)
  have "field ?s 510 2 = [0x55, 0xaa]"
    using assms concat_entries [of es] by (simp add: mbr_sector_def field_def)
  moreover have "raw_entry_at ?s i = es ! i" if "i < 4" for i
  proof -
    have "field ?s (446 + i * 16) 16 = entry_bytes (es ! i)"
      using assms that field_entries [of i es "[0x55, 0xaa]"]
      by (simp add: mbr_sector_def field_def)
    then show ?thesis by (simp add: raw_entry_at_def raw_entry_bytes)
  qed
  then have "map (raw_entry_at ?s) [0..<4] = es"
    using assms(3) by (intro nth_equalityI) auto
  ultimately show "parse_entries ?s = Some es" by (simp add: parse_entries_def)
qed

lemma mbr_primary_no_extended:
  "\<forall>e \<in> set es. \<not> is_extended (re_type e) \<Longrightarrow> snd (mbr_primary u i es ps x) = x"
  by (induction u i es ps x rule: mbr_primary.induct) auto

text \<open>
  C9: round trip of the MBR. A disk whose first sector encodes four entries, one of them plausible
  and none extended, is scanned back entry by entry: primary \<open>i + 1\<close> is what entry \<open>i\<close> encodes,
  with its PARTUUID made of the disk signature; empty and GPT-protective entries give none.
\<close>

lemma mbr_scan_image:
  assumes "length boot = 440" and "length pad = 2" and "length es = 4"
    and "file_ok (mbr_sector boot sig pad es @ rest)"
    and "list_ex plausible es" and "\<forall>e \<in> set es. \<not> is_extended (re_type e)"
  shows "mbr_scan (file_dev (mbr_sector boot sig pad es @ rest)) =
    Ok (if primary_partitions (mbr_part_uuid sig) 0 es = [] then None
        else Some \<lparr>pt_kind = Mbr,
                   pt_partitions = primary_partitions (mbr_part_uuid sig) 0 es\<rparr>)"
proof -
  let ?img = "mbr_sector boot sig pad es @ rest"
  note sector = parse_entries_mbr_sector [OF assms(1-3), of sig]
  have "\<not> dev_size (file_dev ?img) < SECTOR"
    using file_size [OF assms(4)] sector(2) by (simp add: word_less_nat_alt)
  moreover have "dev_read (file_dev ?img) 0 512 = Ok (mbr_sector boot sig pad es)"
    using file_read_eq [OF assms(4), of 0 512] sector(2) by simp
  moreover have "mbr_primary (mbr_part_uuid sig) 0 es [] None =
      (primary_partitions (mbr_part_uuid sig) 0 es, None)"
    using mbr_primary_partitions [of "mbr_part_uuid sig" 0 es "[]" None]
      mbr_primary_no_extended [OF assms(6), of "mbr_part_uuid sig" 0 "[]" None]
    by (simp add: prod_eq_iff)
  ultimately show ?thesis
    using sector assms(5) by (simp add: mbr_scan_def)
qed

definition example_entry :: "u8 \<Rightarrow> u32 \<Rightarrow> raw_entry" where
  "example_entry t l = \<lparr>re_type = t, re_start_lba = l, re_sectors = 1\<rparr>"

definition no_entry :: raw_entry where
  "no_entry = \<lparr>re_type = 0, re_start_lba = 0, re_sectors = 0\<rparr>"

lemmas example_mbr_defs = example_entry_def no_entry_def plausible_def is_extended_def
  mbr_type_defs primary_partition_def

lemma mbr_scan_image_witness:
  "\<exists>p. mbr_scan (file_dev (mbr_sector (replicate 440 0) 1 [0, 0]
          [example_entry 0x83 2048, no_entry, no_entry, no_entry] @ [])) =
        Ok (Some \<lparr>pt_kind = Mbr, pt_partitions = [p]\<rparr>) \<and> p_index p = 1 \<and>
      p_start_byte p = lba_bytes 2048"
  using mbr_scan_image [of "replicate 440 0" "[0, 0]"
      "[example_entry 0x83 2048, no_entry, no_entry, no_entry]" 1 "[]"]
    parse_entries_mbr_sector(2) [of "replicate 440 0" "[0, 0]"
      "[example_entry 0x83 2048, no_entry, no_entry, no_entry]" 1]
  by (simp add: example_mbr_defs file_ok_def)

text \<open>
  C4: soundness of the MBR scan. A table that the scan reports is the primaries of a plausible boot
  sector, in slot order, followed by at most 128 logical partitions numbered from 5 without gaps;
  every logical partition is described by a boot record that the chain from an extended partition
  reaches, inside the disk, and its start is exact in bytes: no LBA arithmetic wraps.
\<close>

lemma mbr_scan_sound:
  assumes "mbr_scan disk = Ok (Some t)"
  shows "\<exists>sector es more. dev_read disk 0 512 = Ok sector \<and> parse_entries sector = Some es \<and>
    list_ex plausible es \<and> indices_ok (pt_partitions t) \<and>
    pt_partitions t = primary_partitions (mbr_part_uuid (le32_at sector 440)) 0 es @ more \<and>
    map p_index more = [5..<5 + length more] \<and> length more \<le> 128 \<and>
    (\<forall>q \<in> set more. \<exists>e \<in> set es. \<exists>off. is_extended (re_type e) \<and>
       ebr_reach disk (lba_bytes (re_start_lba e)) off \<and>
       logical_at disk (mbr_part_uuid (le32_at sector 440)) off q \<and>
       (\<exists>l :: u32. unat (p_start_byte q) = unat off + unat l * 512))"
  using assms
proof (rule mbr_scan_Some)
  fix sector es more
  let ?u = "mbr_part_uuid (le32_at sector 440)"
  assume l: "\<forall>q \<in> set more. \<exists>e \<in> set es. \<exists>off. is_extended (re_type e) \<and>
       ebr_reach disk (lba_bytes (re_start_lba e)) off \<and> logical_at disk ?u off q"
    and rest: "dev_read disk 0 512 = Ok sector" "parse_entries sector = Some es"
      "list_ex plausible es" "indices_ok (pt_partitions t)"
      "pt_partitions t = primary_partitions ?u 0 es @ more"
      "map p_index more = [5..<5 + length more]" "length more \<le> 128"
  have "\<exists>l :: u32. unat (p_start_byte q) = unat off + unat l * 512"
    if "ebr_reach disk (lba_bytes s) off" "logical_at disk ?u off q" for q s off
    by (rule logical_at_start [OF that(2) ebr_reach_bound [OF that(1) lba_bytes_lt]])
  with l have "\<forall>q \<in> set more. \<exists>e \<in> set es. \<exists>off. is_extended (re_type e) \<and>
       ebr_reach disk (lba_bytes (re_start_lba e)) off \<and> logical_at disk ?u off q \<and>
       (\<exists>l :: u32. unat (p_start_byte q) = unat off + unat l * 512)"
    by blast
  with rest show ?thesis by blast
qed

text \<open>The witness: a disk with an extended partition at LBA 1 that holds one logical partition.\<close>

abbreviation example_ebr_disk :: dev where
  "example_ebr_disk \<equiv> file_dev
     (mbr_sector (replicate 440 0) 0 [0, 0] [example_entry 0x05 1, no_entry, no_entry, no_entry] @
      mbr_sector (replicate 440 0) 0 [0, 0] [example_entry 0x83 1, no_entry, no_entry, no_entry] @
      replicate 512 0)"

lemma example_ebr_scan:
  "mbr_scan example_ebr_disk = Ok (Some \<lparr>pt_kind = Mbr, pt_partitions =
     [mbr_partition (mbr_part_uuid 0) 5 (lba_bytes 1 + lba_bytes 1) (example_entry 0x83 1)]\<rparr>)"
proof -
  let ?e0 = "[example_entry 0x05 1, no_entry, no_entry, no_entry]"
  let ?e1 = "[example_entry 0x83 1, no_entry, no_entry, no_entry]"
  note s0 = parse_entries_mbr_sector [of "replicate 440 0" "[0, 0]" ?e0 0, simplified]
  note s1 = parse_entries_mbr_sector [of "replicate 440 0" "[0, 0]" ?e1 0, simplified]
  have ok: "file_ok (mbr_sector (replicate 440 0) 0 [0, 0] ?e0 @
      mbr_sector (replicate 440 0) 0 [0, 0] ?e1 @ replicate 512 0)" (is "file_ok ?img")
    using s0 s1 by (simp add: file_ok_def)
  have sz: "unat (dev_size (file_dev ?img)) = 1536"
    using file_size [OF ok] s0 s1 by simp
  have r0: "dev_read (file_dev ?img) 0 512 = Ok (mbr_sector (replicate 440 0) 0 [0, 0] ?e0)"
    using file_read_eq [OF ok, of 0 512] s0 s1 by simp
  have l1: "unat (lba_bytes 1) = 512" by simp
  have r1: "dev_read (file_dev ?img) (lba_bytes 1) 512 =
      Ok (mbr_sector (replicate 440 0) 0 [0, 0] ?e1)"
    using file_read_eq [OF ok, of "lba_bytes 1" 512] s0 s1 l1 by simp
  have b: "check_bounds (dev_size (file_dev ?img)) (lba_bytes 1) 512 = Ok ()"
    using sz l1 by (simp add: check_bounds_Ok)
  have walk: "ebr_walk (file_dev ?img) (mbr_part_uuid 0) 128 (lba_bytes 1) (lba_bytes 1) 5 [] =
      Ok [mbr_partition (mbr_part_uuid 0) 5 (lba_bytes 1 + lba_bytes 1) (example_entry 0x83 1)]"
    using b r1 s1 ebr_walk.simps(2) [of "file_dev ?img" "mbr_part_uuid 0" 127]
    by (simp add: example_mbr_defs)
  have prim: "mbr_primary (mbr_part_uuid 0) 0 ?e0 [] None = ([], Some (lba_bytes 1))"
    by (simp add: example_mbr_defs)
  have "\<not> dev_size (file_dev ?img) < SECTOR" using sz by (simp add: word_less_nat_alt)
  with r0 s0 prim walk show ?thesis
    by (simp add: mbr_scan_def example_mbr_defs)
qed

lemma mbr_scan_sound_witness:
  "\<exists>(e :: raw_entry) off. is_extended (re_type e) \<and> ebr_reach example_ebr_disk (lba_bytes (re_start_lba e)) off \<and>
     logical_at example_ebr_disk (mbr_part_uuid 0) off
       (mbr_partition (mbr_part_uuid 0) 5 (lba_bytes 1 + lba_bytes 1) (example_entry 0x83 1))"
proof -
  let ?p = "mbr_partition (mbr_part_uuid 0) 5 (lba_bytes 1 + lba_bytes 1) (example_entry 0x83 1)"
  let ?e0 = "[example_entry 0x05 1, no_entry, no_entry, no_entry]"
  note s0 = parse_entries_mbr_sector [of "replicate 440 0" "[0, 0]" ?e0 0, simplified]
  from mbr_scan_sound [OF example_ebr_scan, unfolded partition_table.simps] obtain sector es more where
    r: "dev_read example_ebr_disk 0 512 = Ok sector" and
    ps: "[?p] = primary_partitions (mbr_part_uuid (le32_at sector 440)) 0 es @ more" and
    es: "parse_entries sector = Some es" and
    m: "\<forall>q \<in> set more. \<exists>e \<in> set es. \<exists>off. is_extended (re_type e) \<and>
       ebr_reach example_ebr_disk (lba_bytes (re_start_lba e)) off \<and>
       logical_at example_ebr_disk (mbr_part_uuid (le32_at sector 440)) off q"
    by blast
  have "sector = mbr_sector (replicate 440 0) 0 [0, 0] ?e0"
    using r raw_file.read_sound [OF r] s0(2)
    by (simp add: file_dev_def file_read_def split: if_splits)
  with s0 ps es have p: "?p \<in> set more" and sig: "le32_at sector 440 = 0"
    by (auto simp: example_mbr_defs)
  from m p show ?thesis unfolding sig by blast
qed

end
