(* ===== verification/Part_Scan.thy ===== *)
theory Part_Scan
  imports Part_Gpt Part_Mbr
begin

text \<open>
  \<open>scan\<close> of src/src/part/mod.rs: GPT first (a protective MBR would otherwise hide it), then MBR, and a
  disk without a table is one pseudo-partition.
\<close>

definition part_scan :: "dev \<Rightarrow> partition_table result" where
  "part_scan disk =
     rbind (gpt_scan disk) (\<lambda>g. case g of
        Some table \<Rightarrow> Ok table
      | None \<Rightarrow> rbind (mbr_scan disk) (\<lambda>m. case m of
          Some table \<Rightarrow> Ok table
        | None \<Rightarrow> Ok \<lparr>pt_kind = NoTable,
             pt_partitions = [\<lparr>p_index = 1, p_start_byte = 0, p_size_bytes = dev_size disk,
               p_kind = S ''whole disk'', p_type_id = [], p_name = None,
               p_probe_worthy = True, p_part_uuid = None\<rparr>]\<rparr>))"

lemma part_scan_cases:
  assumes "part_scan disk = Ok t"
  obtains (gpt) "gpt_scan disk = Ok (Some t)"
  | (mbr) "gpt_scan disk = Ok None" "mbr_scan disk = Ok (Some t)"
  | (whole) p where "gpt_scan disk = Ok None" "mbr_scan disk = Ok None" "pt_kind t = NoTable"
      "pt_partitions t = [p]" "p_index p = 1" "p_start_byte p = 0" "p_size_bytes p = dev_size disk"
proof -
  from assms obtain g where g: "gpt_scan disk = Ok g"
    by (cases "gpt_scan disk") (simp_all add: part_scan_def)
  show thesis
  proof (cases g)
    case (Some t')
    with assms g gpt show thesis by (simp add: part_scan_def)
  next
    case None
    with assms g obtain m where m: "mbr_scan disk = Ok m"
      by (cases "mbr_scan disk") (simp_all add: part_scan_def)
    show thesis
    proof (cases m)
      case (Some t')
      with assms g None m mbr show thesis by (simp add: part_scan_def)
    next
      assume "m = None"
      with assms g None m show thesis
        by (intro whole) (simp_all add: part_scan_def, force+)
    qed
  qed
qed

lemma gpt_scan_kind: "gpt_scan disk = Ok (Some t) \<Longrightarrow> pt_kind t = Gpt"
  by (erule gpt_scan_Some) simp

lemma part_scan_indices_ok:
  assumes "part_scan disk = Ok t"
  shows "indices_ok (pt_partitions t)"
  using assms
proof (cases rule: part_scan_cases)
  case (whole p)
  then show ?thesis by (simp add: indices_ok_def)
qed (auto intro: gpt_scan_indices_ok mbr_scan_indices_ok)

text \<open>
  C5: partitions are addressable by number. In whatever table a disk has, indices start at 1 and grow,
  so looking a partition up by its index finds that partition and no other; a GPT wins over an
  MBR, and a disk with neither is one partition that spans it.
\<close>

lemma part_scan_addressable:
  assumes "part_scan disk = Ok t"
  shows "indices_ok (pt_partitions t) \<and>
    (\<forall>p \<in> set (pt_partitions t). find (\<lambda>q. p_index q = p_index p) (pt_partitions t) = Some p) \<and>
    (pt_kind t = NoTable \<longrightarrow> gpt_scan disk = Ok None \<and> mbr_scan disk = Ok None \<and>
       (\<exists>p. pt_partitions t = [p] \<and> p_start_byte p = 0 \<and> p_size_bytes p = dev_size disk)) \<and>
    (pt_kind t = Mbr \<longrightarrow> gpt_scan disk = Ok None)"
proof -
  have kind: "(pt_kind t = NoTable \<longrightarrow> gpt_scan disk = Ok None \<and> mbr_scan disk = Ok None \<and>
       (\<exists>p. pt_partitions t = [p] \<and> p_start_byte p = 0 \<and> p_size_bytes p = dev_size disk)) \<and>
    (pt_kind t = Mbr \<longrightarrow> gpt_scan disk = Ok None)"
    using assms
  proof (cases rule: part_scan_cases)
    case gpt
    then show ?thesis by (simp add: gpt_scan_kind)
  next
    case mbr
    from mbr(2) have "pt_kind t = Mbr" by (rule mbr_scan_Some)
    with mbr show ?thesis by simp
  qed simp
  with part_scan_indices_ok [OF assms] show ?thesis by (auto intro: indices_ok_find)
qed

lemma part_scan_addressable_witness:
  "\<exists>t. part_scan (file_dev []) = Ok t \<and> indices_ok (pt_partitions t) \<and>
     (\<exists>p. pt_partitions t = [p] \<and> p_start_byte p = 0 \<and> p_size_bytes p = dev_size (file_dev []))"
proof -
  have none: "gpt_scan (file_dev []) = Ok None" "mbr_scan (file_dev []) = Ok None"
    by (simp_all add: gpt_scan_def mbr_scan_def file_dev_def file_len_def SECTOR_def)
  then obtain t where t: "part_scan (file_dev []) = Ok t" and "pt_kind t = NoTable"
    by (simp add: part_scan_def)
  with part_scan_addressable [OF t] show ?thesis by blast
qed

end
