(* ===== verification/Fsys.thy ===== *)
theory Fsys
  imports Bytes
begin

text \<open>
  src/src/fsys: filesystems behind one interface. The trait \<open>FileSystem\<close> is a record of its
  operations; \<open>detect\<close> tells the type of a filesystem by its magic bytes, \<open>fs_open\<close> opens the two
  supported ones. The libraries that read ext4 and FAT are parameters (records of the calls the
  adapters make); the adapters themselves are modelled, with the loop that reads a prefix of a file.
\<close>

datatype file_kind = KFile | KDir | KSymlink | KOther

record dir_entry =
  de_name :: str
  de_kind :: file_kind
  de_size :: u64

record filesystem =
  fs_type :: str
  fs_label :: "str option"
  fs_read_dir :: "str \<Rightarrow> dir_entry list result"
  fs_read_file :: "str \<Rightarrow> bytes result"
  fs_exists :: "str \<Rightarrow> bool"
  fs_read_prefix :: "str \<Rightarrow> nat \<Rightarrow> bytes result"
  fs_file_size :: "str \<Rightarrow> u64 result"
  fs_read_link :: "str \<Rightarrow> str option"

text \<open>The default \<open>read_prefix\<close> and \<open>read_link\<close> of the trait.\<close>

definition default_read_prefix :: "(str \<Rightarrow> bytes result) \<Rightarrow> str \<Rightarrow> nat \<Rightarrow> bytes result" where
  "default_read_prefix read_file path max_len = rbind (read_file path) (\<lambda>data. Ok (take max_len data))"

definition default_read_link :: "str \<Rightarrow> str option" where
  "default_read_link path = None"

section \<open>Detection\<close>

definition starts_with_magic :: "bytes \<Rightarrow> nat \<Rightarrow> bytes \<Rightarrow> bool" where
  "starts_with_magic sector off magic \<longleftrightarrow> field sector off (length magic) = magic"

definition in_bounds :: "dev \<Rightarrow> u64 \<Rightarrow> nat \<Rightarrow> bool" where
  "in_bounds dev off n \<longleftrightarrow> check_bounds (dev_size dev) off n = Ok ()"

definition detect_boot_sector :: "bytes \<Rightarrow> str option" where
  "detect_boot_sector sector =
     (if field sector 3 8 = B ''NTFS    '' then Some (S ''ntfs'')
      else if field sector 3 8 = B ''EXFAT   '' then Some (S ''exfat'')
      else if field sector 3 8 = B ''ReFS'' @ [0, 0, 0, 0] then Some (S ''refs'')
      else
        let jump_ok = (sector ! 0 = 0xeb \<or> sector ! 0 = 0xe9);
            fat32 = (field sector 82 8 = B ''FAT32   '');
            fat16 = starts_with (B ''FAT'') (field sector 54 8)
        in if jump_ok \<and> (fat32 \<or> fat16) then Some (S ''vfat'') else None)"

text \<open>The probes in the order of the code; each looks only where the device has room for its magic.\<close>

definition detect_ext4 :: "dev \<Rightarrow> str option result" where
  "detect_ext4 dev =
     (if in_bounds dev 1080 2
      then rbind (dev_read dev 1080 2) (\<lambda>m. Ok (if le16_at m 0 = 0xef53 then Some (S ''ext4'') else None))
      else Ok None)"

definition detect_start :: "dev \<Rightarrow> str option result" where
  "detect_start dev =
     (if in_bounds dev 0 4
      then rbind (dev_read dev 0 4) (\<lambda>buf.
        Ok (if buf = B ''XFSB'' then Some (S ''xfs'')
            else if buf = B ''hsqs'' then Some (S ''squashfs'') else None))
      else Ok None)"

definition detect_btrfs :: "dev \<Rightarrow> str option result" where
  "detect_btrfs dev =
     (if in_bounds dev 0x10040 8
      then rbind (dev_read dev 0x10040 8) (\<lambda>m. Ok (if m = B ''_BHRfS_M'' then Some (S ''btrfs'') else None))
      else Ok None)"

definition detect_sector :: "dev \<Rightarrow> str option result" where
  "detect_sector dev =
     (if in_bounds dev 0 512
      then rbind (dev_read dev 0 512) (\<lambda>sector. Ok (detect_boot_sector sector))
      else Ok None)"

definition or_detect :: "str option result \<Rightarrow> str option result \<Rightarrow> str option result" where
  "or_detect a b = rbind a (\<lambda>x. case x of Some t \<Rightarrow> Ok (Some t) | None \<Rightarrow> b)"

definition detect :: "dev \<Rightarrow> str option result" where
  "detect dev =
     or_detect (detect_ext4 dev) (or_detect (detect_start dev)
       (or_detect (detect_btrfs dev) (detect_sector dev)))"

definition fs_open ::
  "(dev \<Rightarrow> filesystem result) \<Rightarrow> (dev \<Rightarrow> filesystem result) \<Rightarrow> dev \<Rightarrow> filesystem result" where
  "fs_open ext4_open vfat_open dev =
     rbind (detect dev) (\<lambda>t.
       if t = Some (S ''ext4'') then ext4_open dev
       else if t = Some (S ''vfat'') then vfat_open dev
       else Err (UnknownFilesystem t))"

section \<open>Reading a prefix\<close>

text \<open>
  The loop both adapters use: read into the rest of the buffer until it is full or a read returns
  nothing, then truncate to what was filled.
\<close>

function read_filled ::
  "('f \<Rightarrow> nat \<Rightarrow> error + (bytes \<times> 'f)) \<Rightarrow> 'f \<Rightarrow> nat \<Rightarrow> bytes \<Rightarrow> bytes result" where
  "read_filled read h max_len acc =
     (if \<not> length acc < max_len then Ok acc
      else case read h (max_len - length acc) of
        Inl e \<Rightarrow> Err e
      | Inr (chunk, h') \<Rightarrow>
          if chunk = [] then Ok acc else read_filled read h' max_len (acc @ chunk))"
  by pat_completeness auto
termination
proof (relation "measure (\<lambda>(read, h, max_len, acc). max_len - length acc)")
  fix read :: "'f \<Rightarrow> nat \<Rightarrow> error + (bytes \<times> 'f)" and h h' :: 'f and max_len and acc chunk :: bytes and x y
  assume "\<not> \<not> length acc < max_len" and "chunk \<noteq> []"
  then have "max_len - (length acc + length chunk) < max_len - length acc"
    by (cases chunk) auto
  then show "((read, h', max_len, acc @ chunk), read, h, max_len, acc)
      \<in> measure (\<lambda>(read, h, max_len, acc). max_len - length acc)" by simp
qed simp

declare read_filled.simps [simp del]

text \<open>
  What a reader of a file promises: each call returns a piece of what is left, no longer than
  asked for and not empty while something is left and asked for. \<open>R h rest\<close> says that \<open>rest\<close> is left.
\<close>

locale byte_stream =
  fixes read :: "'f \<Rightarrow> nat \<Rightarrow> error + (bytes \<times> 'f)"
    and R :: "'f \<Rightarrow> bytes \<Rightarrow> bool"
  assumes stream_read: "R h rest \<Longrightarrow>
    \<exists>k h'. k \<le> n \<and> read h n = Inr (take k rest, h') \<and> R h' (drop k rest) \<and>
      (0 < n \<and> rest \<noteq> [] \<longrightarrow> 0 < k)"
begin

lemma read_filled_stream:
  "R h rest \<Longrightarrow> length acc \<le> max_len \<Longrightarrow>
   read_filled read h max_len acc = Ok (take max_len (acc @ rest))"
proof (induction "max_len - length acc" arbitrary: h rest acc rule: less_induct)
  case less
  show ?case
  proof (cases "length acc < max_len")
    case False
    with less.prems show ?thesis by (simp add: read_filled.simps [of read h])
  next
    case True
    obtain k h' where k: "k \<le> max_len - length acc"
      "read h (max_len - length acc) = Inr (take k rest, h')" "R h' (drop k rest)"
      "rest \<noteq> [] \<longrightarrow> 0 < k"
      using stream_read [OF less.prems(1), of "max_len - length acc"] True by auto
    show ?thesis
    proof (cases "rest = []")
      case True
      with k less.prems(2) show ?thesis by (simp add: read_filled.simps [of read h])
    next
      case False
      let ?acc = "acc @ take k rest"
      have "length ?acc \<le> max_len" using k(1) less.prems(2) by simp
      moreover have "max_len - length ?acc < max_len - length acc"
        using k(4) False True by (cases rest) auto
      ultimately have "read_filled read h' max_len ?acc = Ok (take max_len (?acc @ drop k rest))"
        using less.hyps k(3) by blast
      with k(2,4) False True show ?thesis
        by (simp add: read_filled.simps [of read h])
    qed
  qed
qed

lemma read_filled_prefix: "R h rest \<Longrightarrow> read_filled read h max_len [] = Ok (take max_len rest)"
  using read_filled_stream [of h rest "[]" max_len] by simp

end

text \<open>The stream adapter over a raw file keeps the promise.\<close>

definition adapter_read :: "io_adapter \<Rightarrow> nat \<Rightarrow> error + (bytes \<times> io_adapter)" where
  "adapter_read a n = (case io_read a n of (Inl e, _) \<Rightarrow> Inl e | (Inr bs, a') \<Rightarrow> Inr (bs, a'))"

definition adapter_rest :: "bytes \<Rightarrow> io_adapter \<Rightarrow> bytes \<Rightarrow> bool" where
  "adapter_rest data a rest \<longleftrightarrow>
     io_dev a = file_dev data \<and>
     rest = segment ((!) data) (unat (io_pos a)) (unat (file_len data) - unat (io_pos a))"

lemma io_read_total:
  assumes "io_dev a = file_dev data"
  obtains bs a' where "io_read a n = (Ok bs, a')"
proof -
  let ?n = "min n (unat (file_len data) - unat (io_pos a))"
  have sz: "dev_size (file_dev data) = file_len data" by (simp add: file_dev_def)
  show thesis
  proof (cases "?n = 0")
    case True
    with that assms sz show ?thesis by (simp add: io_read_def Let_def unat_saturating_sub)
  next
    case False
    then have "unat (io_pos a) + ?n \<le> unat (dev_size (file_dev data))"
      unfolding sz by linarith
    from raw_file.read_total [OF this] obtain bs
      where "dev_read (file_dev data) (io_pos a) ?n = Ok bs" by blast
    with that assms sz False show ?thesis
      by (simp add: io_read_def Let_def unat_saturating_sub)
  qed
qed

interpretation adapter_stream: byte_stream adapter_read "adapter_rest data" for data
proof
  fix a rest n
  assume R: "adapter_rest data a rest"
  then have dev: "io_dev a = file_dev data" by (simp add: adapter_rest_def)
  obtain bs a' where run: "io_read a n = (Ok bs, a')" by (rule io_read_total [OF dev])
  have sound: "sound_device (dev_size (io_dev a)) (dev_read (io_dev a)) ((!) data)"
    unfolding dev by (rule raw_file.sound_device_axioms)
  note io = io_read_sound [OF sound run]
  have sz: "dev_size (file_dev data) = file_len data" by (simp add: file_dev_def)
  have rest: "rest = segment ((!) data) (unat (io_pos a)) (unat (file_len data) - unat (io_pos a))"
    using R by (simp add: adapter_rest_def)
  have len: "length bs = min n (length rest)" using io(2) dev sz rest by simp
  have "bs = take (length bs) rest"
    using io(1) len unfolding rest by (simp add: take_segment)
  moreover have "adapter_rest data a' (drop (length bs) rest)"
    using io(3,4) dev unfolding rest
    by (simp add: adapter_rest_def drop_segment)
  ultimately show "\<exists>k a'. k \<le> n \<and> adapter_read a n = Inr (take k rest, a') \<and>
      adapter_rest data a' (drop k rest) \<and> (0 < n \<and> rest \<noteq> [] \<longrightarrow> 0 < k)"
    using run len
    by (intro exI [of _ "length bs"] exI [of _ a']) (auto simp: adapter_read_def)
qed

section \<open>The ext4 adapter\<close>

text \<open>The calls of \<open>ext4_view\<close>; an error of the library is its text.\<close>

datatype lib_file_type = LRegular | LDir | LSymlink | LOther

record ext4_dir_entry =
  xe_name :: bytes
  xe_type :: "str + lib_file_type"
  xe_len :: "str + u64"

record 'f ext4_lib =
  x4_label :: "str option"
  x4_read_dir :: "str \<Rightarrow> str + (str + ext4_dir_entry) list"
  x4_read :: "str \<Rightarrow> str + bytes"
  x4_open :: "str \<Rightarrow> str + 'f"
  x4_file_read :: "'f \<Rightarrow> nat \<Rightarrow> str + (bytes \<times> 'f)"
  x4_exists :: "str \<Rightarrow> str + bool"
  x4_read_link :: "str \<Rightarrow> str + bytes"
  x4_len :: "str \<Rightarrow> str + u64"

definition ext4_err :: "str + 'a \<Rightarrow> 'a result" where
  "ext4_err r = (case r of Inl e \<Rightarrow> Err (Ext4Error e) | Inr x \<Rightarrow> Ok x)"

text \<open>An open file is read through \<open>std::io::Read\<close>, whose errors are i/o errors.\<close>

definition ext4_file_read :: "'f ext4_lib \<Rightarrow> 'f \<Rightarrow> nat \<Rightarrow> error + (bytes \<times> 'f)" where
  "ext4_file_read lib h n = (case x4_file_read lib h n of Inl e \<Rightarrow> Err (Io e) | Inr x \<Rightarrow> Ok x)"

text \<open>\<open>Reader::read\<close>, through which the library reads the device.\<close>

definition ext4_reader :: "dev \<Rightarrow> u64 \<Rightarrow> nat \<Rightarrow> str + bytes" where
  "ext4_reader dev start_byte n =
     (case dev_read dev start_byte n of Inl e \<Rightarrow> Inl (error_display e) | Inr bs \<Rightarrow> Inr bs)"

definition ext4_kind :: "str + lib_file_type \<Rightarrow> file_kind" where
  "ext4_kind t =
     (case t of
        Inr LRegular \<Rightarrow> KFile
      | Inr LDir \<Rightarrow> KDir
      | Inr LSymlink \<Rightarrow> KSymlink
      | _ \<Rightarrow> KOther)"

fun ext4_entries :: "(str + ext4_dir_entry) list \<Rightarrow> dir_entry list \<Rightarrow> dir_entry list result" where
  "ext4_entries [] out = Ok out"
| "ext4_entries (entry # es) out =
     rbind (ext4_err entry) (\<lambda>entry.
       let name = from_utf8_lossy (xe_name entry) in
       if name = S ''.'' \<or> name = S ''..'' then ext4_entries es out
       else ext4_entries es (out @ [\<lparr>de_name = name, de_kind = ext4_kind (xe_type entry),
              de_size = (case xe_len entry of Inl _ \<Rightarrow> 0 | Inr n \<Rightarrow> n)\<rparr>]))"

definition ext4_label :: "'f ext4_lib \<Rightarrow> str option" where
  "ext4_label lib = (case x4_label lib of Some s \<Rightarrow> if s \<noteq> [] then Some s else None | None \<Rightarrow> None)"

definition ext4_read_prefix :: "'f ext4_lib \<Rightarrow> str \<Rightarrow> nat \<Rightarrow> bytes result" where
  "ext4_read_prefix lib path max_len =
     rbind (ext4_err (x4_open lib path)) (\<lambda>h.
       read_filled (ext4_file_read lib) h max_len [])"

definition ext4_fs :: "'f ext4_lib \<Rightarrow> filesystem" where
  "ext4_fs lib =
     \<lparr>fs_type = S ''ext4'',
      fs_label = ext4_label lib,
      fs_read_dir = (\<lambda>path. rbind (ext4_err (x4_read_dir lib path)) (\<lambda>es. ext4_entries es [])),
      fs_read_file = (\<lambda>path. ext4_err (x4_read lib path)),
      fs_exists = (\<lambda>path. case x4_exists lib path of Inl _ \<Rightarrow> False | Inr b \<Rightarrow> b),
      fs_read_prefix = ext4_read_prefix lib,
      fs_file_size = (\<lambda>path. ext4_err (x4_len lib path)),
      fs_read_link = (\<lambda>path. case x4_read_link lib path of
                        Inl _ \<Rightarrow> None | Inr target \<Rightarrow> Some (from_utf8_lossy target))\<rparr>"

definition ext4_open :: "(dev \<Rightarrow> str + 'f ext4_lib) \<Rightarrow> dev \<Rightarrow> filesystem result" where
  "ext4_open load dev = rbind (ext4_err (load dev)) (\<lambda>lib. Ok (ext4_fs lib))"

section \<open>The FAT adapter\<close>

record fat_dir_entry =
  fe_name :: str
  fe_is_dir :: bool
  fe_len :: u64

record 'f fat_lib =
  ft_label :: str
  ft_root :: "(str + fat_dir_entry) list"
  ft_open_dir :: "str \<Rightarrow> str + (str + fat_dir_entry) list"
  ft_open_file :: "str \<Rightarrow> str + 'f"
  ft_file_read :: "'f \<Rightarrow> nat \<Rightarrow> str + (bytes \<times> 'f)"
  ft_read_to_end :: "'f \<Rightarrow> str + bytes"
  ft_seek_end :: "'f \<Rightarrow> str + u64"

definition vfat_err :: "str + 'a \<Rightarrow> 'a result" where
  "vfat_err r = (case r of Inl e \<Rightarrow> Err (VfatError e) | Inr x \<Rightarrow> Ok x)"

definition vfat_found :: "str \<Rightarrow> str + 'a \<Rightarrow> 'a result" where
  "vfat_found path r = (case r of Inl _ \<Rightarrow> Err (NotFound path) | Inr x \<Rightarrow> Ok x)"

definition normalize :: "str \<Rightarrow> str" where
  "normalize path = trim_start_by (\<lambda>c. c = ch CHR ''/'') path"

fun vfat_entries :: "(str + fat_dir_entry) list \<Rightarrow> dir_entry list \<Rightarrow> dir_entry list result" where
  "vfat_entries [] out = Ok out"
| "vfat_entries (entry # es) out =
     rbind (vfat_err entry) (\<lambda>entry.
       let name = fe_name entry in
       if name = S ''.'' \<or> name = S ''..'' then vfat_entries es out
       else vfat_entries es (out @ [\<lparr>de_name = name,
              de_kind = (if fe_is_dir entry then KDir else KFile), de_size = fe_len entry\<rparr>]))"

definition vfat_label :: "'f fat_lib \<Rightarrow> str option" where
  "vfat_label lib =
     (let label = str_trim (ft_label lib)
      in if label = [] \<or> label = S ''NO NAME'' then None else Some label)"

definition vfat_read_dir :: "'f fat_lib \<Rightarrow> str \<Rightarrow> dir_entry list result" where
  "vfat_read_dir lib path =
     rbind (if normalize path = [] then Ok (ft_root lib)
            else vfat_found path (ft_open_dir lib (normalize path)))
       (\<lambda>es. vfat_entries es [])"

definition vfat_read_file :: "'f fat_lib \<Rightarrow> str \<Rightarrow> bytes result" where
  "vfat_read_file lib path =
     rbind (vfat_found path (ft_open_file lib (normalize path))) (\<lambda>h. vfat_err (ft_read_to_end lib h))"

definition vfat_read_prefix :: "'f fat_lib \<Rightarrow> str \<Rightarrow> nat \<Rightarrow> bytes result" where
  "vfat_read_prefix lib path max_len =
     rbind (vfat_found path (ft_open_file lib (normalize path))) (\<lambda>h.
       read_filled (\<lambda>h n. vfat_err (ft_file_read lib h n)) h max_len [])"

definition vfat_exists :: "'f fat_lib \<Rightarrow> str \<Rightarrow> bool" where
  "vfat_exists lib path =
     (let p = normalize path
      in (case ft_open_file lib p of Inr _ \<Rightarrow> True | Inl _ \<Rightarrow> False) \<or>
         (case ft_open_dir lib p of Inr _ \<Rightarrow> True | Inl _ \<Rightarrow> False))"

definition vfat_file_size :: "'f fat_lib \<Rightarrow> str \<Rightarrow> u64 result" where
  "vfat_file_size lib path =
     rbind (vfat_found path (ft_open_file lib (normalize path))) (\<lambda>h. vfat_err (ft_seek_end lib h))"

definition vfat_fs :: "'f fat_lib \<Rightarrow> filesystem" where
  "vfat_fs lib =
     \<lparr>fs_type = S ''vfat'',
      fs_label = vfat_label lib,
      fs_read_dir = vfat_read_dir lib,
      fs_read_file = vfat_read_file lib,
      fs_exists = vfat_exists lib,
      fs_read_prefix = vfat_read_prefix lib,
      fs_file_size = vfat_file_size lib,
      fs_read_link = default_read_link\<rparr>"

definition vfat_open :: "(io_adapter \<Rightarrow> str + 'f fat_lib) \<Rightarrow> dev \<Rightarrow> filesystem result" where
  "vfat_open mount dev = rbind (vfat_err (mount (io_new dev))) (\<lambda>lib. Ok (vfat_fs lib))"

section \<open>Listings and labels\<close>

lemma ext4_entries_names:
  "ext4_entries es out = Ok ds \<Longrightarrow> \<forall>d \<in> set out. de_name d \<noteq> S ''.'' \<and> de_name d \<noteq> S ''..'' \<Longrightarrow>
   \<forall>d \<in> set ds. de_name d \<noteq> S ''.'' \<and> de_name d \<noteq> S ''..''"
proof (induction es out rule: ext4_entries.induct)
  case (2 entry es out)
  then obtain x where x: "ext4_err entry = Ok x" by (auto simp: rbind_eq_Ok)
  show ?case
  proof (cases "from_utf8_lossy (xe_name x) = S ''.'' \<or> from_utf8_lossy (xe_name x) = S ''..''")
    case True
    with 2(1) [OF x refl] 2(3,4) x show ?thesis by (auto simp: Let_def)
  next
    case False
    with 2(2) [OF x refl] 2(3,4) x show ?thesis by (auto simp: Let_def)
  qed
qed simp

lemma vfat_entries_names:
  "vfat_entries es out = Ok ds \<Longrightarrow> \<forall>d \<in> set out. de_name d \<noteq> S ''.'' \<and> de_name d \<noteq> S ''..'' \<Longrightarrow>
   \<forall>d \<in> set ds. de_name d \<noteq> S ''.'' \<and> de_name d \<noteq> S ''..''"
proof (induction es out rule: vfat_entries.induct)
  case (2 entry es out)
  then obtain x where x: "vfat_err entry = Ok x" by (auto simp: rbind_eq_Ok)
  show ?case
  proof (cases "fe_name x = S ''.'' \<or> fe_name x = S ''..''")
    case True
    with 2(1) [OF x refl] 2(3,4) x show ?thesis by (auto simp: Let_def)
  next
    case False
    with 2(2) [OF x refl] 2(3,4) x show ?thesis by (auto simp: Let_def)
  qed
qed simp

section \<open>Detection by content\<close>

text \<open>What detection decides, as a function of the device's bytes and size alone.\<close>

definition detect_spec :: "nat \<Rightarrow> (nat \<Rightarrow> u8) \<Rightarrow> str option" where
  "detect_spec sz f =
     (if 1082 \<le> sz \<and> segment f 1080 2 = [0x53, 0xef] then Some (S ''ext4'')
      else if 4 \<le> sz \<and> segment f 0 4 = B ''XFSB'' then Some (S ''xfs'')
      else if 4 \<le> sz \<and> segment f 0 4 = B ''hsqs'' then Some (S ''squashfs'')
      else if 65608 \<le> sz \<and> segment f 65600 8 = B ''_BHRfS_M'' then Some (S ''btrfs'')
      else if 512 \<le> sz then detect_boot_sector (segment f 0 512)
      else None)"

lemma le16_magic: "length m = 2 \<Longrightarrow> le16_at m 0 = 0xef53 \<longleftrightarrow> m = [0x53, 0xef]"
proof -
  assume "length m = 2"
  then obtain a b where m: "m = [a, b]" by (auto simp: numeral_2_eq_2 length_Suc_conv)
  have "unat a + 256 * unat b < 65536" using unat_u8_lt [of a] unat_u8_lt [of b] by linarith
  then have n: "unat (of_nat (unat a + 256 * unat b) :: u16) = unat a + 256 * unat b"
    by (simp only: unat_of_nat) simp
  have "le16_at m 0 = of_nat (unat a + 256 * unat b)"
    by (simp only: m le16_at_def field_def) (simp add: numeral_2_eq_2)
  then have "unat (le16_at m 0) = unat a + 256 * unat b" by (simp only: n)
  moreover have "le16_at m 0 = 0xef53 \<longleftrightarrow> unat (le16_at m 0) = 0xef53"
    by (simp add: word_unat_eq_iff)
  ultimately have "le16_at m 0 = 0xef53 \<longleftrightarrow> unat a + 256 * unat b = 0xef53" by simp
  also have "\<dots> \<longleftrightarrow> unat a = 0x53 \<and> unat b = 0xef"
  proof
    assume e: "unat a + 256 * unat b = 0xef53"
    have "unat a = (unat a + 256 * unat b) mod 256" by simp
    also have "\<dots> = 0x53" unfolding e by simp
    finally show "unat a = 0x53 \<and> unat b = 0xef" using e by simp
  qed simp
  finally show ?thesis by (simp add: m word_unat_eq_iff)
qed

lemma in_bounds_iff: "in_bounds dev off n \<longleftrightarrow> unat off + n \<le> unat (dev_size dev)"
  by (simp add: in_bounds_def check_bounds_Ok)

lemma detect_total:
  assumes "total_device (dev_size dev) (dev_read dev) f"
  shows "detect dev = Ok (detect_spec (unat (dev_size dev)) f)"
proof -
  note r = total_device.read_eq [OF assms]
  have 1: "detect_ext4 dev = Ok (if 1082 \<le> unat (dev_size dev) \<and> segment f 1080 2 = [0x53, 0xef]
      then Some (S ''ext4'') else None)"
    using r [of 1080 2] le16_magic [of "segment f 1080 2"]
    by (simp add: detect_ext4_def in_bounds_iff)
  have 2: "detect_start dev = Ok (if 4 \<le> unat (dev_size dev) \<and> segment f 0 4 = B ''XFSB''
      then Some (S ''xfs'') else if 4 \<le> unat (dev_size dev) \<and> segment f 0 4 = B ''hsqs''
      then Some (S ''squashfs'') else None)"
    using r [of 0 4] by (simp add: detect_start_def in_bounds_iff)
  have 3: "detect_btrfs dev = Ok (if 65608 \<le> unat (dev_size dev) \<and>
      segment f 65600 8 = B ''_BHRfS_M'' then Some (S ''btrfs'') else None)"
    using r [of 65600 8] by (simp add: detect_btrfs_def in_bounds_iff)
  have 4: "detect_sector dev = Ok (if 512 \<le> unat (dev_size dev)
      then detect_boot_sector (segment f 0 512) else None)"
    using r [of 0 512] by (simp add: detect_sector_def in_bounds_iff)
  show ?thesis
    unfolding detect_def or_detect_def 1 2 3 4 detect_spec_def by (simp only: rbind_simps) simp
qed

section \<open>Properties\<close>

text \<open>
  C18: detecting a filesystem never fails on a device that answers reads in its bounds, whatever its
  size: it returns the first type whose magic the device holds, in the order ext4, XFS, squashfs,
  btrfs, NTFS/exFAT/ReFS, FAT, and looks at no byte that is not there.
\<close>

lemma detect_by_content:
  assumes "total_device (dev_size dev) (dev_read dev) f"
  shows "detect dev = Ok (detect_spec (unat (dev_size dev)) f)"
  using assms by (rule detect_total)

lemma detect_by_content_witness:
  "detect (file_dev (B ''XFSB'')) = Ok (Some (S ''xfs''))"
  using detect_by_content [OF raw_file.total_device_axioms [of "B ''XFSB''"]]
  by (simp add: detect_spec_def segment_def upt_rec file_dev_def file_len_def)

text \<open>
  The two streaming overrides of \<open>read_prefix\<close> agree with the default that reads the whole file. When
  the library's handle for a path streams the content that its whole-file read returns, the prefix
  that the ext4 adapter reads is the default's, for every length.
\<close>

lemma ext4_read_prefix_default:
  assumes "byte_stream (ext4_file_read lib) R"
    and "x4_open lib path = Inr h" and "x4_read lib path = Inr data" and "R h data"
  shows "fs_read_prefix (ext4_fs lib) path n = default_read_prefix (fs_read_file (ext4_fs lib)) path n"
  using byte_stream.read_filled_prefix [OF assms(1,4)] assms(2,3)
  by (simp add: ext4_fs_def ext4_read_prefix_def default_read_prefix_def ext4_err_def)

definition example_ext4 :: "io_adapter ext4_lib" where
  "example_ext4 = \<lparr>x4_label = None, x4_read_dir = (\<lambda>_. Inl []),
     x4_read = (\<lambda>_. Inr [1, 2, 3]), x4_open = (\<lambda>_. Inr (io_new (file_dev [1, 2, 3]))),
     x4_file_read = (\<lambda>a n. case adapter_read a n of Inl _ \<Rightarrow> Inl [] | Inr r \<Rightarrow> Inr r),
     x4_exists = (\<lambda>_. Inr True), x4_read_link = (\<lambda>_. Inl []), x4_len = (\<lambda>_. Inr 3)\<rparr>"

lemma ext4_read_prefix_default_witness:
  "fs_read_prefix (ext4_fs example_ext4) (S ''/a'') 2 = Ok [1, 2]"
proof -
  have bs: "byte_stream (ext4_file_read example_ext4) (adapter_rest [1, 2, 3])"
  proof
    fix h rest n
    assume "adapter_rest [1, 2, 3] h rest"
    from adapter_stream.stream_read [OF this, of n]
    show "\<exists>k h'. k \<le> n \<and> ext4_file_read example_ext4 h n = Inr (take k rest, h') \<and>
        adapter_rest [1, 2, 3] h' (drop k rest) \<and> (0 < n \<and> rest \<noteq> [] \<longrightarrow> 0 < k)"
      by (auto simp: example_ext4_def ext4_file_read_def)
  qed
  have "adapter_rest [1, 2, 3] (io_new (file_dev [1, 2, 3])) [1, 2, 3]"
    by (simp add: adapter_rest_def io_new_def file_len_def segment_def upt_rec)
  then have "fs_read_prefix (ext4_fs example_ext4) (S ''/a'') 2 =
      default_read_prefix (fs_read_file (ext4_fs example_ext4)) (S ''/a'') 2"
    by (intro ext4_read_prefix_default [OF bs, where data = "[1, 2, 3]"
          and h = "io_new (file_dev [1, 2, 3])"]) (simp_all add: example_ext4_def)
  then show ?thesis
    by (simp add: default_read_prefix_def ext4_fs_def example_ext4_def ext4_err_def)
qed

end
