(* ===== verification/Boot_Types.thy ===== *)
theory Boot_Types
  imports Fsys
begin

text \<open>
  The data of src/src/boot/mod.rs: boot entries, what a scan returns, the filter that renumbers the
  default, and the expansion of \<open>$var\<close> and \<open>${var}\<close> that the config parsers share. An environment
  (\<open>BTreeMap<String, String>\<close>) is a map.
\<close>

type_synonym env = "str \<rightharpoonup> str"

datatype boot_source = SrcGrub | SrcBls | SrcExtlinux | SrcFallback | SrcWindows

fun source_display :: "boot_source \<Rightarrow> str" where
  "source_display SrcGrub = S ''grub''"
| "source_display SrcBls = S ''bls''"
| "source_display SrcExtlinux = S ''extlinux''"
| "source_display SrcFallback = S ''fallback''"
| "source_display SrcWindows = S ''windows''"

datatype entry_kind = KindLinux | KindWindows

fun entry_kind_display :: "entry_kind \<Rightarrow> str" where
  "entry_kind_display KindLinux = S ''linux''"
| "entry_kind_display KindWindows = S ''windows''"

datatype firmware = Uefi | Bios | Both

fun firmware_display :: "firmware \<Rightarrow> str" where
  "firmware_display Uefi = S ''uefi''"
| "firmware_display Bios = S ''bios''"
| "firmware_display Both = S ''uefi+bios''"

record windows_boot =
  wb_firmware :: firmware
  wb_arch :: "str option"
  wb_loader :: "str option"

record boot_entry =
  be_title :: "str option"
  be_id :: "str option"
  be_kernel :: "str option"
  be_initrd :: "str list"
  be_cmdline :: "str option"
  be_version :: "str option"
  be_source :: boot_source
  be_windows :: "windows_boot option"
  be_chainloader :: "str option"

text \<open>\<open>Default::default()\<close>.\<close>

definition default_entry_value :: boot_entry where
  "default_entry_value =
     \<lparr>be_title = None, be_id = None, be_kernel = None, be_initrd = [], be_cmdline = None,
      be_version = None, be_source = SrcFallback, be_windows = None, be_chainloader = None\<rparr>"

definition entry_kind_of :: "boot_entry \<Rightarrow> entry_kind" where
  "entry_kind_of e = (case be_windows e of Some _ \<Rightarrow> KindWindows | None \<Rightarrow> KindLinux)"

record boot_scan =
  bs_entries :: "boot_entry list"
  bs_default :: "nat option"
  bs_configs :: "str list"

definition empty_scan :: boot_scan where
  "empty_scan = \<lparr>bs_entries = [], bs_default = None, bs_configs = []\<rparr>"

definition scan_default_entry :: "boot_scan \<Rightarrow> boot_entry option" where
  "scan_default_entry s =
     Option.bind (opt_or (bs_default s) (if bs_entries s = [] then None else Some 0))
       (get (bs_entries s))"

text \<open>The invariant of a scan: there is a default exactly when there are entries, and it is one of them.\<close>

definition default_ok :: "'a list \<Rightarrow> nat option \<Rightarrow> bool" where
  "default_ok entries d \<longleftrightarrow>
     (case d of None \<Rightarrow> entries = [] | Some i \<Rightarrow> i < length entries)"

lemma default_ok_None [simp]: "default_ok entries None \<longleftrightarrow> entries = []"
  by (simp add: default_ok_def)

lemma default_ok_Some [simp]: "default_ok entries (Some i) \<longleftrightarrow> i < length entries"
  by (simp add: default_ok_def)

lemma default_ok_entry:
  "default_ok (bs_entries s) (bs_default s) \<Longrightarrow> bs_entries s \<noteq> [] \<Longrightarrow>
   \<exists>e \<in> set (bs_entries s). scan_default_entry s = Some e"
  by (cases "bs_default s") (auto simp: scan_default_entry_def get_def)

section \<open>Keeping some of the entries\<close>

text \<open>
  \<open>retain\<close>. The slices \<open>keep[..d]\<close> and \<open>keep[d]\<close> panic when the default is out of range; \<open>zip\<close>
  drops what has no partner.
\<close>

definition retain :: "'a list \<Rightarrow> nat option \<Rightarrow> bool list \<Rightarrow> ('a list \<times> nat option) result" where
  "retain entries dflt keep =
     (let kept = map fst (filter snd (zip entries keep))
      in case dflt of
           None \<Rightarrow> Ok (kept, if kept = [] then None else Some 0)
         | Some d \<Rightarrow>
             if length keep \<le> d then Err Panic
             else
               let new_default = (if keep ! d then Some (length (filter id (take d keep))) else None)
               in Ok (kept, if kept = [] then None else opt_or new_default (Some 0)))"

lemma length_filter_zip:
  "length xs = length bs \<Longrightarrow> length (filter snd (zip xs bs)) = length (filter id bs)"
  by (induction xs bs rule: list_induct2) auto

lemma filter_take_less:
  "d < length bs \<Longrightarrow> bs ! d \<Longrightarrow> length (filter id (take d bs)) < length (filter id bs)"
proof (induction bs arbitrary: d)
  case (Cons b bs)
  then show ?case by (cases d) auto
qed simp

lemma retain_nth:
  "length xs = length bs \<Longrightarrow> d < length bs \<Longrightarrow> bs ! d \<Longrightarrow>
   map fst (filter snd (zip xs bs)) ! length (filter id (take d bs)) = xs ! d"
proof (induction xs bs arbitrary: d rule: list_induct2)
  case (Cons x xs b bs)
  then show ?case by (cases d) auto
qed simp

text \<open>What \<open>retain\<close> does on the inputs its callers give it.\<close>

lemma retain_total:
  assumes "length keep = length entries" and "default_ok entries dflt"
  obtains kept d' where "retain entries dflt keep = Ok (kept, d')"
    and "kept = map fst (filter snd (zip entries keep))" and "default_ok kept d'"
    and "\<And>d. dflt = Some d \<Longrightarrow> keep ! d \<Longrightarrow> \<exists>i. d' = Some i \<and> kept ! i = entries ! d"
    and "\<And>d. dflt = Some d \<Longrightarrow> \<not> keep ! d \<Longrightarrow> kept \<noteq> [] \<Longrightarrow> d' = Some 0"
proof (cases dflt)
  case None
  with assms that [of "map fst (filter snd (zip entries keep))" None] show thesis
    by (simp add: retain_def)
next
  case (Some d)
  then have d: "d < length keep" using assms by simp
  let ?kept = "map fst (filter snd (zip entries keep))"
  let ?i = "length (filter id (take d keep))"
  have len: "length ?kept = length (filter id keep)"
    using assms(1) by (simp add: length_filter_zip)
  have i: "keep ! d \<Longrightarrow> ?i < length ?kept" unfolding len using d by (rule filter_take_less)
  have nth: "keep ! d \<Longrightarrow> ?kept ! ?i = entries ! d"
    using assms(1) d by (intro retain_nth) auto
  let ?d' = "if ?kept = [] then None else opt_or (if keep ! d then Some ?i else None) (Some 0)"
  show thesis
  proof (rule that [of ?kept ?d'])
    show "retain entries dflt keep = Ok (?kept, ?d')"
      using Some d by (simp add: retain_def Let_def)
    show "default_ok ?kept ?d'" using i by (cases "?kept = []") auto
    show "\<exists>i. ?d' = Some i \<and> ?kept ! i = entries ! e" if "dflt = Some e" "keep ! e" for e
      using that Some i nth by (cases "?kept = []") auto
    show "?d' = Some 0" if "dflt = Some e" "\<not> keep ! e" "?kept \<noteq> []" for e
      using that Some by auto
  qed simp
qed

section \<open>Variables\<close>

definition is_var_char :: "nat \<Rightarrow> bool" where
  "is_var_char c \<longleftrightarrow> is_ascii_alphanumeric c \<or> c = ch CHR ''_''"

text \<open>The name after a \<open>$\<close> and what follows it; an unclosed brace takes the rest.\<close>

definition var_name :: "str \<Rightarrow> str \<times> str" where
  "var_name s =
     (case s of
        c # cs \<Rightarrow>
          if c = ch CHR ''{''
          then (takeWhile (\<lambda>c. c \<noteq> ch CHR ''}'') cs, tl (dropWhile (\<lambda>c. c \<noteq> ch CHR ''}'') cs))
          else (takeWhile is_var_char s, dropWhile is_var_char s)
      | [] \<Rightarrow> ([], []))"

lemma length_var_name: "length (snd (var_name s)) \<le> length s"
  using length_dropWhile_le [of is_var_char s]
  by (auto simp: var_name_def le_SucI le_diff_conv length_dropWhile_le split: list.splits)

function expand :: "env \<Rightarrow> str \<Rightarrow> str" where
  "expand env [] = []"
| "expand env (c # cs) =
     (if c \<noteq> ch CHR ''$'' then c # expand env cs
      else
        let name = fst (var_name cs);
            rest = snd (var_name cs)
        in if name = [] then ch CHR ''$'' # expand env rest
           else case env name of
                  Some v \<Rightarrow> v @ expand env rest
                | None \<Rightarrow> expand env rest)"
  by pat_completeness auto
termination
  by (relation "measure (length \<circ> snd)") (auto simp: le_imp_less_Suc length_var_name)

lemma expand_plain: "ch CHR ''$'' \<notin> set s \<Longrightarrow> expand env (s @ t) = s @ expand env t"
  by (induction s) auto

lemma expand_id: "ch CHR ''$'' \<notin> set s \<Longrightarrow> expand env s = s"
  using expand_plain [of s env "[]"] by simp

lemma var_name_plain:
  assumes "n \<noteq> []" and "\<forall>c \<in> set n. is_var_char c" and "r = [] \<or> \<not> is_var_char (hd r)"
  shows "var_name (n @ r) = (n, r)"
proof -
  have "hd n \<noteq> ch CHR ''{''" using assms(1,2) by (cases n) (auto simp: is_var_char_def ascii_class_defs)
  moreover have "takeWhile is_var_char (n @ r) = n" "dropWhile is_var_char (n @ r) = r"
    using assms(2,3) by (auto simp: takeWhile_append dropWhile_append2 takeWhile_eq_Nil_iff)
      (metis dropWhile_eq_self_iff)
  ultimately show ?thesis using assms(1) by (cases n) (auto simp: var_name_def)
qed

lemma var_name_braced:
  assumes "ch CHR ''}'' \<notin> set n"
  shows "var_name (ch CHR ''{'' # n @ ch CHR ''}'' # r) = (n, r)"
proof -
  have "\<forall>c \<in> set n. c \<noteq> ch CHR ''}''" using assms by auto
  then show ?thesis by (simp add: var_name_def takeWhile_append2 dropWhile_append2)
qed

lemma expand_var:
  assumes "var_name t = (n, r)" and "n \<noteq> []"
  shows "expand env (ch CHR ''$'' # t) = unwrap_or (env n) [] @ expand env r"
  using assms by (simp split: option.splits)

section \<open>Absolute paths\<close>

text \<open>
  Paths in an entry are rooted at the filesystem; a chainloader target may also be a block list
  (\<open>+1\<close>).
\<close>

definition is_abs :: "str \<Rightarrow> bool" where
  "is_abs p \<longleftrightarrow> starts_with (S ''/'') p"

definition is_block_list :: "str \<Rightarrow> bool" where
  "is_block_list p \<longleftrightarrow> starts_with (S ''+'') p"

definition entry_paths_ok :: "boot_entry \<Rightarrow> bool" where
  "entry_paths_ok e \<longleftrightarrow>
     (\<forall>k. be_kernel e = Some k \<longrightarrow> is_abs k) \<and>
     (\<forall>p \<in> set (be_initrd e). is_abs p) \<and>
     (\<forall>c. be_chainloader e = Some c \<longrightarrow> is_abs c \<or> is_block_list c)"

lemma entry_paths_ok_default: "entry_paths_ok default_entry_value"
  by (simp add: entry_paths_ok_def default_entry_value_def)

lemma entry_paths_ok_simps [simp]:
  "entry_paths_ok (e\<lparr>be_title := t\<rparr>) = entry_paths_ok e"
  "entry_paths_ok (e\<lparr>be_id := t\<rparr>) = entry_paths_ok e"
  "entry_paths_ok (e\<lparr>be_cmdline := t\<rparr>) = entry_paths_ok e"
  "entry_paths_ok (e\<lparr>be_version := t\<rparr>) = entry_paths_ok e"
  "entry_paths_ok (e\<lparr>be_source := sr\<rparr>) = entry_paths_ok e"
  "entry_paths_ok (e\<lparr>be_windows := w\<rparr>) = entry_paths_ok e"
  by (simp_all add: entry_paths_ok_def)

lemma entry_paths_ok_kernel:
  "entry_paths_ok e \<Longrightarrow> is_abs k \<Longrightarrow> entry_paths_ok (e\<lparr>be_kernel := Some k\<rparr>)"
  by (simp add: entry_paths_ok_def)

lemma entry_paths_ok_initrd:
  "entry_paths_ok e \<Longrightarrow> \<forall>p \<in> set ps. is_abs p \<Longrightarrow> entry_paths_ok (e\<lparr>be_initrd := ps\<rparr>)"
  by (simp add: entry_paths_ok_def)

lemma entry_paths_ok_initrds: "entry_paths_ok e \<Longrightarrow> p \<in> set (be_initrd e) \<Longrightarrow> is_abs p"
  by (simp add: entry_paths_ok_def)

lemma entry_paths_ok_chainloader:
  "entry_paths_ok e \<Longrightarrow> \<forall>c. x = Some c \<longrightarrow> is_abs c \<or> is_block_list c \<Longrightarrow>
   entry_paths_ok (e\<lparr>be_chainloader := x\<rparr>)"
  by (simp add: entry_paths_ok_def)

end
