(* ===== verification/Grubenv.thy ===== *)
theory Grubenv
  imports Boot_Types
begin

text \<open>
  src/src/boot/grubenv.rs: the GRUB environment block. The round trip shows that a block written as
  GRUB writes it is read back as the same bindings.
\<close>

definition GRUBENV_CANDIDATES :: "str list" where
  "GRUBENV_CANDIDATES =
     [S ''/grub2/grubenv'', S ''/grub/grubenv'', S ''/boot/grub2/grubenv'', S ''/boot/grub/grubenv'']"

text \<open>One line of the block: what it binds, if anything.\<close>

definition grubenv_line :: "str \<Rightarrow> (str \<times> str) option" where
  "grubenv_line line =
     (if starts_with (S ''#'') line then None
      else case split_once (ch CHR ''='') line of
             None \<Rightarrow> None
           | Some (key, value) \<Rightarrow>
               Some (str_trim key, str_trim (trim_end_by (\<lambda>c. c = ch CHR ''#'') value)))"

fun grubenv_insert :: "env \<Rightarrow> str list \<Rightarrow> env" where
  "grubenv_insert env [] = env"
| "grubenv_insert env (line # ls) =
     (case grubenv_line line of
        None \<Rightarrow> grubenv_insert env ls
      | Some (k, v) \<Rightarrow> grubenv_insert (env(k \<mapsto> v)) ls)"

definition grubenv_parse :: "str \<Rightarrow> env" where
  "grubenv_parse s = grubenv_insert Map.empty (str_lines s)"

fun load_first :: "filesystem \<Rightarrow> str list \<Rightarrow> env" where
  "load_first fs [] = Map.empty"
| "load_first fs (path # ps) =
     (case fs_read_file fs path of
        Inr data \<Rightarrow> grubenv_parse (from_utf8_lossy data)
      | Inl _ \<Rightarrow> load_first fs ps)"

definition grubenv_load :: "filesystem \<Rightarrow> env" where
  "grubenv_load fs = load_first fs GRUBENV_CANDIDATES"

section \<open>A block as GRUB writes it\<close>

definition trimmed :: "str \<Rightarrow> bool" where
  "trimmed s \<longleftrightarrow> s = [] \<or> \<not> is_whitespace (hd s) \<and> \<not> is_whitespace (last s)"

definition grubenv_binding :: "str \<times> str \<Rightarrow> bool" where
  "grubenv_binding b \<longleftrightarrow>
     fst b \<noteq> [] \<and> trimmed (fst b) \<and> ch CHR ''='' \<notin> set (fst b) \<and> 10 \<notin> set (fst b) \<and>
     hd (fst b) \<noteq> ch CHR ''#'' \<and>
     trimmed (snd b) \<and> 10 \<notin> set (snd b) \<and> (snd b = [] \<or> last (snd b) \<noteq> ch CHR ''#'')"

definition grubenv_print_line :: "str \<times> str \<Rightarrow> str" where
  "grubenv_print_line b = fst b @ S ''='' @ snd b @ [10]"

definition grubenv_block :: "(str \<times> str) list \<Rightarrow> nat \<Rightarrow> str" where
  "grubenv_block bs padding =
     S ''# GRUB Environment Block'' @ [10] @ concat (map grubenv_print_line bs) @
     replicate padding (ch CHR ''#'')"

lemma is_whitespace_cr: "is_whitespace 13"
  by (simp add: is_whitespace_def)

lemma strip_cr_id: "s = [] \<or> last s \<noteq> 13 \<Longrightarrow> strip_cr s = s"
  by (auto simp: strip_cr_def strip_suffix_Some split: option.splits)

lemma grubenv_line_print:
  assumes "grubenv_binding (k, v)"
  shows "strip_cr (k @ S ''='' @ v) = k @ S ''='' @ v"
    and "grubenv_line (k @ S ''='' @ v) = Some (k, v)"
proof -
  have v: "v = [] \<or> last v \<noteq> 13"
    using assms is_whitespace_cr by (auto simp: grubenv_binding_def trimmed_def)
  then show "strip_cr (k @ S ''='' @ v) = k @ S ''='' @ v"
    by (intro strip_cr_id) auto
  have "\<forall>x \<in> set k. x \<noteq> ch CHR ''=''" using assms by (auto simp: grubenv_binding_def)
  then have split: "split_once (ch CHR ''='') (k @ S ''='' @ v) = Some (k, v)"
    using split_once_append [of k "\<lambda>x. x = ch CHR ''=''" "ch CHR ''=''" v] by simp
  have "\<not> starts_with (S ''#'') (k @ S ''='' @ v)"
    using assms by (cases k) (auto simp: grubenv_binding_def)
  moreover have "str_trim k = k" using assms by (intro str_trim_id) (auto simp: grubenv_binding_def trimmed_def)
  moreover have "trim_end_by (\<lambda>c. c = ch CHR ''#'') v = v"
    using assms by (intro trim_end_by_id) (auto simp: grubenv_binding_def)
  moreover have "str_trim v = v" using assms by (intro str_trim_id) (auto simp: grubenv_binding_def trimmed_def)
  ultimately show "grubenv_line (k @ S ''='' @ v) = Some (k, v)"
    unfolding grubenv_line_def split by simp
qed

lemma grubenv_insert_bindings:
  "\<forall>b \<in> set bs. grubenv_binding b \<Longrightarrow>
   grubenv_insert env (str_lines (concat (map grubenv_print_line bs) @ rest)) =
   grubenv_insert (env ++ map_of (rev bs)) (str_lines rest)"
proof (induction bs arbitrary: env)
  case (Cons b bs)
  obtain k v where b: "b = (k, v)" by (cases b)
  have ok: "grubenv_binding (k, v)" using Cons.prems b by simp
  have nl: "10 \<notin> set (k @ S ''='' @ v)" using ok by (auto simp: grubenv_binding_def)
  have "concat (map grubenv_print_line (b # bs)) @ rest =
      (k @ S ''='' @ v) @ 10 # (concat (map grubenv_print_line bs) @ rest)"
    by (simp add: b grubenv_print_line_def)
  then have "str_lines (concat (map grubenv_print_line (b # bs)) @ rest) =
      (k @ S ''='' @ v) # str_lines (concat (map grubenv_print_line bs) @ rest)"
    using str_lines_line [OF nl] grubenv_line_print(1) [OF ok] by simp
  then have "grubenv_insert env (str_lines (concat (map grubenv_print_line (b # bs)) @ rest)) =
      grubenv_insert (env(k \<mapsto> v)) (str_lines (concat (map grubenv_print_line bs) @ rest))"
    using grubenv_line_print(2) [OF ok] by simp
  also have "\<dots> = grubenv_insert (env(k \<mapsto> v) ++ map_of (rev bs)) (str_lines rest)"
    using Cons by simp
  also have "env(k \<mapsto> v) ++ map_of (rev bs) = env ++ map_of (rev (b # bs))"
    by (simp add: b map_add_assoc)
  finally show ?case .
qed simp

lemma grubenv_insert_padding: "grubenv_insert env (str_lines (replicate n (ch CHR ''#''))) = env"
proof (cases n)
  case (Suc m)
  have "split_on 10 (replicate n (35 :: nat)) = [replicate n 35]"
    by (intro split_on_plain) (auto simp: Suc)
  then have "str_lines (replicate n (ch CHR ''#'')) = [replicate n (ch CHR ''#'')]"
    by (simp add: str_lines_def Suc)
  then show ?thesis by (simp add: grubenv_line_def Suc)
qed simp

section \<open>Properties\<close>

text \<open>
  C17: round trip of the environment block. The bindings that GRUB writes into a block -- a comment
  line, one \<open>key=value\<close> line each, then \<open>#\<close> padding -- are read back exactly; a later binding of a
  key replaces an earlier one.
\<close>

lemma grubenv_roundtrip:
  assumes "\<forall>b \<in> set bs. grubenv_binding b"
  shows "grubenv_parse (grubenv_block bs padding) = map_of (rev bs)"
proof -
  have "grubenv_block bs padding = S ''# GRUB Environment Block'' @ 10 #
      (concat (map grubenv_print_line bs) @ replicate padding (ch CHR ''#''))"
    by (simp add: grubenv_block_def)
  then have "str_lines (grubenv_block bs padding) = strip_cr (S ''# GRUB Environment Block'') #
      str_lines (concat (map grubenv_print_line bs) @ replicate padding (ch CHR ''#''))"
    by (simp only: str_lines_line) (rule str_lines_line, simp)
  moreover have "grubenv_line (strip_cr (S ''# GRUB Environment Block'')) = None"
    by (simp add: strip_cr_id grubenv_line_def)
  ultimately show ?thesis
    using grubenv_insert_bindings [OF assms] grubenv_insert_padding
    by (simp add: grubenv_parse_def)
qed

definition test_bindings :: "(str \<times> str) list" where
  "test_bindings = [(S ''saved_entry'', S ''1>2''), (S ''kernelopts'', S ''root=UUID=abc ro'')]"

lemma grubenv_roundtrip_witness:
  "grubenv_parse (grubenv_block test_bindings 900) (S ''saved_entry'') = Some (S ''1>2'') \<and>
   grubenv_parse (grubenv_block test_bindings 900) (S ''kernelopts'') = Some (S ''root=UUID=abc ro'')"
  using grubenv_roundtrip [of test_bindings 900]
  by (simp add: test_bindings_def grubenv_binding_def trimmed_def is_whitespace_def)

end
