(* ===== verification/Grub.thy ===== *)
theory Grub
  imports Grubenv
begin

text \<open>
  src/src/boot/grub.rs: the structure of a \<open>grub.cfg\<close> and the resolution of its \<open>default\<close>. The state of
  the parser is the record \<open>grub_state\<close>; each line is one step. The lemmas show that every entry has
  an address of its own (top-level position, position in its submenu), that the default is one of the
  entries, and that a path \<open>parent>child\<close> selects the child.
\<close>

type_synonym i32 = "32 word"

record grub_scan =
  gs_entries :: "boot_entry list"
  gs_default :: "nat option"
  gs_uses_bls :: bool

record grub_raw =
  gr_entry :: boot_entry
  gr_top :: nat
  gr_sub :: "nat option"

record grub_submenu =
  gm_top :: nat
  gm_id :: "str option"
  gm_title :: "str option"

section \<open>Words and paths\<close>

text \<open>\<open>split_words\<close>: the word under construction and the two quote flags.\<close>

fun split_words_loop :: "str list \<Rightarrow> str \<Rightarrow> bool \<Rightarrow> bool \<Rightarrow> str \<Rightarrow> str list" where
  "split_words_loop words cur in_single in_double [] =
     (if cur \<noteq> [] then words @ [cur] else words)"
| "split_words_loop words cur in_single in_double (c # cs) =
     (if c = 39 \<and> \<not> in_double then split_words_loop words cur (\<not> in_single) in_double cs
      else if c = 34 \<and> \<not> in_single then split_words_loop words cur in_single (\<not> in_double) cs
      else if is_whitespace c \<and> \<not> in_single \<and> \<not> in_double
      then (if cur \<noteq> [] then split_words_loop (words @ [cur]) [] in_single in_double cs
            else split_words_loop words cur in_single in_double cs)
      else split_words_loop words (cur @ [c]) in_single in_double cs)"

definition split_words :: "str \<Rightarrow> str list" where
  "split_words line = split_words_loop [] [] False False line"

definition clean_path :: "str \<Rightarrow> str" where
  "clean_path p =
     (let p = (case strip_prefix (S ''('') p of
                 Some rest \<Rightarrow>
                   (case split_once (ch CHR '')'') rest of Some (_, path) \<Rightarrow> path | None \<Rightarrow> rest)
               | None \<Rightarrow> p)
      in if starts_with (S ''/'') p then p else S ''/'' @ p)"

section \<open>The parser\<close>

record grub_state =
  st_raw :: "grub_raw list"
  st_submenus :: "grub_submenu list"
  st_default_spec :: "str option"
  st_uses_bls :: bool
  st_depth :: i32
  st_top_count :: nat
  st_submenu :: "(i32 \<times> nat \<times> nat) option"
  st_current :: "(i32 \<times> grub_raw) option"

definition grub_initial :: grub_state where
  "grub_initial =
     \<lparr>st_raw = [], st_submenus = [], st_default_spec = None, st_uses_bls = False, st_depth = 0,
      st_top_count = 0, st_submenu = None, st_current = None\<rparr>"

text \<open>A line inside a menuentry.\<close>

definition grub_body :: "env \<Rightarrow> str list \<Rightarrow> boot_entry \<Rightarrow> boot_entry" where
  "grub_body env words e =
     (let kw = words ! 0 in
      if (kw = S ''linux'' \<or> kw = S ''linux16'' \<or> kw = S ''linuxefi'') \<and> 2 \<le> length words then
        let cmdline = str_trim (expand env (str_join (S '' '') (drop 2 words)));
            e = e\<lparr>be_kernel := Some (clean_path (words ! 1))\<rparr>
        in if cmdline \<noteq> [] then e\<lparr>be_cmdline := Some cmdline\<rparr> else e
      else if kw = S ''initrd'' \<or> kw = S ''initrd16'' \<or> kw = S ''initrdefi'' then
        e\<lparr>be_initrd := map clean_path (drop 1 words)\<rparr>
      else if kw = S ''chainloader'' then
        e\<lparr>be_chainloader :=
          map_option (\<lambda>w. if starts_with (S ''+'') w then w else clean_path w)
            (find (\<lambda>w. \<not> starts_with (S ''-'') w) (drop 1 words))\<rparr>
      else e)"

text \<open>The word after \<open>$menuentry_id_option\<close>.\<close>

definition menuentry_id :: "str list \<Rightarrow> str option" where
  "menuentry_id words =
     Option.bind (position (\<lambda>w. w = S ''$menuentry_id_option'') words) (\<lambda>i. get words (i + 1))"

text \<open>A line outside of every menuentry.\<close>

definition open_menuentry :: "str list \<Rightarrow> grub_state \<Rightarrow> grub_state" where
  "open_menuentry words st =
     (let e = default_entry_value\<lparr>be_title := get words 1, be_id := menuentry_id words,
                be_source := SrcGrub\<rparr>
      in case st_submenu st of
           Some (d, t, nxt) \<Rightarrow>
             st\<lparr>st_submenu := Some (d, t, nxt + 1),
                st_current := Some (st_depth st, \<lparr>gr_entry = e, gr_top = t, gr_sub = Some nxt\<rparr>)\<rparr>
         | None \<Rightarrow>
             st\<lparr>st_top_count := st_top_count st + 1,
                st_current :=
                  Some (st_depth st, \<lparr>gr_entry = e, gr_top = st_top_count st, gr_sub = None\<rparr>)\<rparr>)"

definition open_submenu :: "str list \<Rightarrow> grub_state \<Rightarrow> grub_state" where
  "open_submenu words st =
     st\<lparr>st_submenus := st_submenus st @
          [\<lparr>gm_top = st_top_count st, gm_id = menuentry_id words, gm_title = get words 1\<rparr>],
        st_submenu := Some (st_depth st, st_top_count st, 0),
        st_top_count := st_top_count st + 1\<rparr>"

definition grub_outside :: "env \<Rightarrow> str list \<Rightarrow> bool \<Rightarrow> grub_state \<Rightarrow> grub_state" where
  "grub_outside env words opens_block st =
     (let kw = words ! 0;
          st' =
            (if kw = S ''menuentry'' \<and> opens_block then open_menuentry words st
             else if kw = S ''submenu'' \<and> opens_block then open_submenu words st
             else if kw = S ''set'' \<and> 2 \<le> length words then
               (case strip_prefix (S ''default='') (words ! 1) of
                  Some value \<Rightarrow> st\<lparr>st_default_spec := Some (expand env value)\<rparr>
                | None \<Rightarrow> st)
             else st)
      in if list_ex (\<lambda>w. w = S ''blscfg'') words then st'\<lparr>st_uses_bls := True\<rparr> else st')"

text \<open>Brace bookkeeping.\<close>

definition grub_braces :: "str \<Rightarrow> bool \<Rightarrow> grub_state \<Rightarrow> grub_state" where
  "grub_braces line opens_block st =
     (if opens_block then st\<lparr>st_depth := st_depth st + 1\<rparr>
      else if line = S ''}'' then
        let depth = st_depth st - 1;
            st = st\<lparr>st_depth := depth\<rparr>
        in case st_current st of
             Some (open_depth, cur) \<Rightarrow>
               if depth = open_depth
               then st\<lparr>st_raw := st_raw st @ [cur], st_current := None\<rparr>
               else (case st_submenu st of
                       Some (d, _) \<Rightarrow> if depth = d then st\<lparr>st_submenu := None\<rparr> else st
                     | None \<Rightarrow> st)
           | None \<Rightarrow>
               (case st_submenu st of
                  Some (d, _) \<Rightarrow> if depth = d then st\<lparr>st_submenu := None\<rparr> else st
                | None \<Rightarrow> st)
      else st)"

definition grub_words :: "env \<Rightarrow> str \<Rightarrow> str list \<Rightarrow> grub_state \<Rightarrow> grub_state" where
  "grub_words env line words st =
     (let opens_block = ends_with (S ''{'') line;
          st' =
            (case st_current st of
               Some (d, cur) \<Rightarrow>
                 st\<lparr>st_current := Some (d, cur\<lparr>gr_entry := grub_body env words (gr_entry cur)\<rparr>)\<rparr>
             | None \<Rightarrow> grub_outside env words opens_block st)
      in grub_braces line opens_block st')"

definition grub_line :: "env \<Rightarrow> str \<Rightarrow> grub_state \<Rightarrow> grub_state" where
  "grub_line env raw_line st =
     (let line = str_trim raw_line in
      if line = [] \<or> starts_with (S ''#'') line then st
      else
        let words = split_words line in
        if words = [] then st else grub_words env line words st)"

fun grub_lines :: "env \<Rightarrow> str list \<Rightarrow> grub_state \<Rightarrow> grub_state" where
  "grub_lines env [] st = st"
| "grub_lines env (l # ls) st = grub_lines env ls (grub_line env l st)"

text \<open>After the last line an unterminated entry is kept.\<close>

definition grub_finish :: "grub_state \<Rightarrow> grub_raw list" where
  "grub_finish st =
     (case st_current st of Some (_, cur) \<Rightarrow> st_raw st @ [cur] | None \<Rightarrow> st_raw st)"

section \<open>The default\<close>

definition named :: "str \<Rightarrow> str option \<Rightarrow> str option \<Rightarrow> bool" where
  "named name i t \<longleftrightarrow> i = Some name \<or> t = Some name"

definition flat_match :: "grub_raw list \<Rightarrow> str \<Rightarrow> nat option" where
  "flat_match entries name =
     opt_or (position (\<lambda>e. be_id (gr_entry e) = Some name) entries)
       (position (\<lambda>e. be_title (gr_entry e) = Some name) entries)"

definition first_of_top :: "grub_raw list \<Rightarrow> nat \<Rightarrow> nat option" where
  "first_of_top entries tp =
     opt_or (position (\<lambda>e. gr_top e = tp \<and> gr_sub e = None) entries)
       (position (\<lambda>e. gr_top e = tp) entries)"

definition submenu_named :: "grub_submenu list \<Rightarrow> str \<Rightarrow> nat option" where
  "submenu_named submenus head =
     map_option gm_top (find (\<lambda>s. named head (gm_id s) (gm_title s)) submenus)"

definition resolve_head :: "grub_raw list \<Rightarrow> grub_submenu list \<Rightarrow> str \<Rightarrow> nat option" where
  "resolve_head entries submenus head =
     (case parse_usize head of
        Some tp \<Rightarrow> Some tp
      | None \<Rightarrow>
          opt_or
            (map_option gr_top (find (\<lambda>e. gr_sub e = None \<and>
               named head (be_id (gr_entry e)) (be_title (gr_entry e))) entries))
            (submenu_named submenus head))"

definition resolve_child :: "grub_raw list \<Rightarrow> nat \<Rightarrow> str \<Rightarrow> nat option" where
  "resolve_child entries tp child =
     (case parse_usize child of
        Some sub \<Rightarrow> position (\<lambda>e. gr_top e = tp \<and> gr_sub e = Some sub) entries
      | None \<Rightarrow> position (\<lambda>e. gr_top e = tp \<and> gr_sub e \<noteq> None \<and>
                  named child (be_id (gr_entry e)) (be_title (gr_entry e))) entries)"

definition resolve_single :: "grub_raw list \<Rightarrow> grub_submenu list \<Rightarrow> str \<Rightarrow> nat option" where
  "resolve_single entries submenus head =
     (case parse_usize head of
        Some tp \<Rightarrow> first_of_top entries tp
      | None \<Rightarrow> opt_or (flat_match entries head)
                  (Option.bind (submenu_named submenus head) (first_of_top entries)))"

definition resolve_default :: "grub_raw list \<Rightarrow> grub_submenu list \<Rightarrow> str \<Rightarrow> nat option" where
  "resolve_default entries submenus spec =
     (if entries = [] then None
      else
        let spec = (if spec = [] then S ''0'' else spec);
            comps = map str_trim (split_on (ch CHR ''>'') spec)
        in if length comps = 1 then opt_or (resolve_single entries submenus (comps ! 0)) (Some 0)
           else case resolve_head entries submenus (comps ! 0) of
                  None \<Rightarrow> opt_or (flat_match entries (last comps)) (Some 0)
                | Some tp \<Rightarrow>
                    opt_or (opt_or (resolve_child entries tp (comps ! 1)) (first_of_top entries tp))
                      (Some 0))"

definition grub_result :: "grub_state \<Rightarrow> grub_scan" where
  "grub_result st =
     (let raw = grub_finish st
      in \<lparr>gs_entries = map gr_entry raw,
          gs_default = resolve_default raw (st_submenus st) (unwrap_or (st_default_spec st) (S ''0'')),
          gs_uses_bls = st_uses_bls st\<rparr>)"

definition grub_parse_str :: "str \<Rightarrow> env \<Rightarrow> grub_scan" where
  "grub_parse_str s env = grub_result (grub_lines env (str_lines s) grub_initial)"

definition grub_parse :: "filesystem \<Rightarrow> str \<Rightarrow> env \<Rightarrow> grub_scan result" where
  "grub_parse fs cfg_path env =
     rbind (fs_read_file fs cfg_path) (\<lambda>data. Ok (grub_parse_str (from_utf8_lossy data) env))"

section \<open>The default is an entry\<close>

lemma flat_match_lt: "flat_match entries name = Some i \<Longrightarrow> i < length entries"
  by (auto simp: flat_match_def elim!: opt_or_cases dest: position_lt)

lemma first_of_top_lt: "first_of_top entries tp = Some i \<Longrightarrow> i < length entries"
  by (auto simp: first_of_top_def elim!: opt_or_cases dest: position_lt)

lemma resolve_single_lt: "resolve_single entries submenus head = Some i \<Longrightarrow> i < length entries"
  by (auto simp: resolve_single_def bind_eq_Some_conv elim!: opt_or_cases
      dest: flat_match_lt first_of_top_lt split: option.splits)

lemma resolve_child_lt: "resolve_child entries tp child = Some i \<Longrightarrow> i < length entries"
  by (auto simp: resolve_child_def dest: position_lt split: option.splits)

lemma resolve_default_Some:
  assumes "entries \<noteq> []"
  shows "\<exists>i. resolve_default entries submenus spec = Some i \<and> i < length entries"
proof -
  have or0: "\<exists>i. opt_or x (Some 0) = Some i \<and> i < length entries"
    if "\<And>i. x = Some i \<Longrightarrow> i < length entries" for x
    using that assms by (cases x) auto
  have or2: "j < length entries"
    if "opt_or (resolve_child entries t c) (first_of_top entries t) = Some j" for t c j
    using that by (auto elim!: opt_or_cases dest: resolve_child_lt first_of_top_lt)
  show ?thesis
    using assms
    by (auto simp: resolve_default_def Let_def split: option.splits
        intro!: or0 dest: resolve_single_lt flat_match_lt or2)
qed

lemma grub_parse_str_default: "default_ok (gs_entries (grub_parse_str s env)) (gs_default (grub_parse_str s env))"
proof -
  let ?st = "grub_lines env (str_lines s) grub_initial"
  show ?thesis
  proof (cases "grub_finish ?st = []")
    case True
    then show ?thesis by (simp add: grub_parse_str_def grub_result_def resolve_default_def)
  next
    case False
    from resolve_default_Some [OF False, of "st_submenus ?st"
        "unwrap_or (st_default_spec ?st) (S ''0'')"]
    obtain i where "resolve_default (grub_finish ?st) (st_submenus ?st)
        (unwrap_or (st_default_spec ?st) (S ''0'')) = Some i" "i < length (grub_finish ?st)" by blast
    then show ?thesis by (simp add: grub_parse_str_def grub_result_def Let_def)
  qed
qed

section \<open>Every entry has an address of its own\<close>

text \<open>The address of an entry, as \<open>default\<close> paths name it: top-level position, then submenu position.\<close>

definition gr_address :: "grub_raw \<Rightarrow> nat \<times> nat option" where
  "gr_address e = (gr_top e, gr_sub e)"

definition before :: "nat \<times> nat option \<Rightarrow> nat \<times> nat option \<Rightarrow> bool" where
  "before a b \<longleftrightarrow>
     fst a < fst b \<or>
     (fst a = fst b \<and> (\<exists>i j. snd a = Some i \<and> snd b = Some j \<and> i < j))"

text \<open>
  The invariant of the parser: entries are in the order of their addresses, all below the next
  top-level position; while a submenu is open it is the last top-level item and the next position in
  it is free.
\<close>

definition grub_inv :: "grub_state \<Rightarrow> bool" where
  "grub_inv st \<longleftrightarrow>
     sorted_wrt before (map gr_address (grub_finish st)) \<and>
     (\<forall>e \<in> set (grub_finish st). gr_top e < st_top_count st) \<and>
     (case st_submenu st of
        None \<Rightarrow> True
      | Some (d, t, nxt) \<Rightarrow>
          Suc t = st_top_count st \<and>
          (\<forall>e \<in> set (grub_finish st). gr_top e = t \<longrightarrow> (\<exists>s. gr_sub e = Some s \<and> s < nxt))) \<and>
     (\<forall>m \<in> set (st_submenus st). gm_top m < st_top_count st)"

lemma grub_inv_initial: "grub_inv grub_initial"
  by (simp add: grub_inv_def grub_initial_def grub_finish_def)

lemma grub_inv_open_menuentry:
  assumes "grub_inv st" and "st_current st = None"
  shows "grub_inv (open_menuentry words st)"
proof (cases "st_submenu st")
  case None
  with assms show ?thesis
    by (auto simp: grub_inv_def grub_finish_def open_menuentry_def Let_def sorted_wrt_append
        gr_address_def before_def)
next
  case (Some s)
  then obtain d t nxt where s: "st_submenu st = Some (d, t, nxt)" by (cases s) auto
  have "before (gr_address e) (t, Some nxt)" if "e \<in> set (st_raw st)" for e
  proof -
    from that assms s have "gr_top e < Suc t" "gr_top e = t \<longrightarrow> (\<exists>s. gr_sub e = Some s \<and> s < nxt)"
      by (auto simp: grub_inv_def grub_finish_def)
    then show ?thesis by (auto simp: before_def gr_address_def)
  qed
  with assms s show ?thesis
    by (auto simp: grub_inv_def grub_finish_def open_menuentry_def Let_def sorted_wrt_append
        gr_address_def)
qed

lemma grub_inv_open_submenu:
  assumes "grub_inv st" and "st_current st = None"
  shows "grub_inv (open_submenu words st)"
  using assms
  by (auto simp: grub_inv_def grub_finish_def open_submenu_def less_Suc_eq split: option.splits)

lemma grub_finish_simps [simp]:
  "grub_finish (st\<lparr>st_default_spec := x\<rparr>) = grub_finish st"
  "grub_finish (st\<lparr>st_uses_bls := b\<rparr>) = grub_finish st"
  "grub_finish (st\<lparr>st_depth := k\<rparr>) = grub_finish st"
  "grub_finish (st\<lparr>st_submenu := m\<rparr>) = grub_finish st"
  by (simp_all add: grub_finish_def cong: option.case_cong)

lemma grub_inv_congs:
  "grub_inv (st\<lparr>st_default_spec := x\<rparr>) = grub_inv st"
  "grub_inv (st\<lparr>st_uses_bls := b\<rparr>) = grub_inv st"
  "grub_inv (st\<lparr>st_depth := k\<rparr>) = grub_inv st"
  by (simp_all add: grub_inv_def cong: option.case_cong)

lemma grub_inv_close_submenu: "grub_inv st \<Longrightarrow> grub_inv (st\<lparr>st_submenu := None\<rparr>)"
  by (simp add: grub_inv_def)

lemma grub_inv_close_entry:
  "grub_inv st \<Longrightarrow> st_current st = Some (d, cur) \<Longrightarrow>
   grub_inv (st\<lparr>st_raw := st_raw st @ [cur], st_current := None\<rparr>)"
  by (simp add: grub_inv_def grub_finish_def cong: option.case_cong)

lemma grub_inv_body:
  "grub_inv st \<Longrightarrow> st_current st = Some (d, cur) \<Longrightarrow>
   grub_inv (st\<lparr>st_current := Some (d, cur\<lparr>gr_entry := e\<rparr>)\<rparr>)"
  by (auto simp: grub_inv_def grub_finish_def gr_address_def split: option.splits)

lemma grub_inv_outside:
  assumes "grub_inv st" and "st_current st = None"
  shows "grub_inv (grub_outside env words opens_block st)"
  using grub_inv_open_menuentry [OF assms, of words] grub_inv_open_submenu [OF assms, of words] assms(1)
  by (simp add: grub_outside_def Let_def grub_inv_congs split: option.splits)

lemma grub_inv_braces:
  assumes "grub_inv st"
  shows "grub_inv (grub_braces line opens_block st)"
proof -
  have depth: "grub_inv (st\<lparr>st_depth := k\<rparr>)" for k using assms by (simp add: grub_inv_congs)
  show ?thesis
    using depth [THEN grub_inv_close_submenu]
      grub_inv_close_entry [OF depth] depth assms
    by (auto simp: grub_braces_def Let_def split: option.splits)
qed

lemma grub_inv_line: "grub_inv st \<Longrightarrow> grub_inv (grub_line env l st)"
  by (auto simp: grub_line_def grub_words_def Let_def split: option.splits
      intro!: grub_inv_braces grub_inv_outside grub_inv_body)

lemma grub_inv_lines: "grub_inv st \<Longrightarrow> grub_inv (grub_lines env ls st)"
  by (induction env ls st rule: grub_lines.induct) (auto intro: grub_inv_line)

lemma before_irrefl: "\<not> before a a"
  by (simp add: before_def)

lemma sorted_before_distinct: "sorted_wrt before as \<Longrightarrow> distinct as"
  by (induction as) (auto simp: before_irrefl)

lemma grub_lines_addresses:
  "distinct (map gr_address (grub_finish (grub_lines env ls grub_initial)))"
  using grub_inv_lines [OF grub_inv_initial] by (auto simp: grub_inv_def intro: sorted_before_distinct)

section \<open>Paths into a submenu\<close>

lemma parse_usize_ws: "parse_usize (S ''x'') = None"
  by (simp add: from_str_radix_def strip_plus_def digit_value_def ascii_class_defs Let_def)

text \<open>A path of two components goes through the head's level and then the child's.\<close>

lemma split_path:
  assumes "ch CHR ''>'' \<notin> set a" and "ch CHR ''>'' \<notin> set b"
  shows "split_on (ch CHR ''>'') (a @ S ''>'' @ b) = [a, b]"
  using split_on_append_sep [OF assms(1), of b] split_on_plain [OF assms(2)] by simp

lemma resolve_child_Some:
  assumes "distinct (map gr_address entries)" and "i < length entries"
    and "gr_address (entries ! i) = (t, Some s)" and "parse_usize child = Some s"
  shows "resolve_child entries t child = Some i"
proof -
  have "\<not> (gr_top (entries ! j) = t \<and> gr_sub (entries ! j) = Some s)" if "j < i" for j
  proof
    assume "gr_top (entries ! j) = t \<and> gr_sub (entries ! j) = Some s"
    then have "map gr_address entries ! j = map gr_address entries ! i"
      using assms(2,3) that by (simp add: gr_address_def)
    then have "j = i" using nth_eq_iff_index_eq [OF assms(1)] assms(2) that by simp
    with that show False by simp
  qed
  with assms show ?thesis by (simp add: resolve_child_def position_Some gr_address_def)
qed

lemma resolve_default_path:
  assumes "entries \<noteq> []" and "ch CHR ''>'' \<notin> set a" and "ch CHR ''>'' \<notin> set b"
    and "resolve_head entries submenus (str_trim a) = Some t"
    and "resolve_child entries t (str_trim b) = Some i"
  shows "resolve_default entries submenus (a @ S ''>'' @ b) = Some i"
proof -
  from split_path [OF assms(2,3)] assms show ?thesis
    by (simp add: resolve_default_def Let_def)
qed

section \<open>Paths of the entries\<close>

lemma clean_path_abs: "is_abs (clean_path p)"
  by (simp add: clean_path_def Let_def is_abs_def)

lemma grub_body_paths: "entry_paths_ok e \<Longrightarrow> entry_paths_ok (grub_body env words e)"
  by (auto simp: grub_body_def Let_def clean_path_abs is_block_list_def
      intro!: entry_paths_ok_kernel entry_paths_ok_initrd entry_paths_ok_chainloader)

definition grub_paths_ok :: "grub_state \<Rightarrow> bool" where
  "grub_paths_ok st \<longleftrightarrow> (\<forall>e \<in> set (grub_finish st). entry_paths_ok (gr_entry e))"

lemma grub_paths_outside:
  "grub_paths_ok st \<Longrightarrow> st_current st = None \<Longrightarrow> grub_paths_ok (grub_outside env words ob st)"
  by (auto simp: grub_paths_ok_def grub_outside_def open_menuentry_def open_submenu_def grub_finish_def
      Let_def entry_paths_ok_default split: option.splits)

lemma grub_paths_braces: "grub_paths_ok st \<Longrightarrow> grub_paths_ok (grub_braces line ob st)"
  by (auto simp: grub_paths_ok_def grub_braces_def grub_finish_def Let_def split: option.splits)

lemma grub_paths_line: "grub_paths_ok st \<Longrightarrow> grub_paths_ok (grub_line env l st)"
  by (auto simp: grub_line_def grub_words_def Let_def split: option.splits
      intro!: grub_paths_braces grub_paths_outside)
    (auto simp: grub_paths_ok_def grub_finish_def grub_body_paths)

lemma grub_paths_lines: "grub_paths_ok st \<Longrightarrow> grub_paths_ok (grub_lines env ls st)"
  by (induction env ls st rule: grub_lines.induct) (auto intro: grub_paths_line)

lemma grub_parse_str_paths: "\<forall>e \<in> set (gs_entries (grub_parse_str s env)). entry_paths_ok e"
proof -
  have "grub_paths_ok grub_initial"
    by (simp add: grub_paths_ok_def grub_finish_def grub_initial_def)
  from grub_paths_lines [OF this] show ?thesis
    by (auto simp: grub_parse_str_def grub_result_def grub_paths_ok_def Let_def)
qed

section \<open>Properties\<close>

text \<open>
  C11: every menu entry that the parser reads has an address of its own. Whatever the text of a
  \<open>grub.cfg\<close>, the entries come in the order of their addresses (top-level position, then position in
  the submenu), no two have the same one, a numeric path \<open>t>s\<close> selects exactly the entry at that
  address, and the default is always one of the entries, or none when there are none.
\<close>

lemma grub_addresses:
  fixes cfg :: str and env :: env
  defines "st \<equiv> grub_lines env (str_lines cfg) grub_initial"
  shows "sorted_wrt before (map gr_address (grub_finish st)) \<and>
    distinct (map gr_address (grub_finish st)) \<and>
    (\<forall>i t s. i < length (grub_finish st) \<longrightarrow> t < 2 ^ 64 \<longrightarrow> s < 2 ^ 64 \<longrightarrow>
       gr_address (grub_finish st ! i) = (t, Some s) \<longrightarrow>
       resolve_default (grub_finish st) (st_submenus st) (show_nat t @ S ''>'' @ show_nat s) = Some i) \<and>
    default_ok (gs_entries (grub_parse_str cfg env)) (gs_default (grub_parse_str cfg env))"
proof -
  have inv: "grub_inv st" unfolding st_def by (intro grub_inv_lines grub_inv_initial)
  then have sorted: "sorted_wrt before (map gr_address (grub_finish st))" by (simp add: grub_inv_def)
  then have dist: "distinct (map gr_address (grub_finish st))" by (rule sorted_before_distinct)
  have no_gt: "ch CHR ''>'' \<notin> set (show_nat k)" for k
    using show_nat_digits [of "ch CHR ''>''" k] by (auto simp: is_ascii_digit_def)
  have trim: "str_trim (show_nat k) = show_nat k" for k
  proof (rule str_trim_id)
    have "\<not> is_whitespace c" if "c \<in> set (show_nat k)" for c
      using show_nat_digits [OF that] by (auto simp: is_ascii_digit_def is_whitespace_def)
    then show "show_nat k = [] \<or> \<not> is_whitespace (hd (show_nat k)) \<and> \<not> is_whitespace (last (show_nat k))"
      by simp
  qed
  have path: "resolve_default (grub_finish st) (st_submenus st) (show_nat t @ S ''>'' @ show_nat s) = Some i"
    if "i < length (grub_finish st)" "t < 2 ^ 64" "s < 2 ^ 64"
      "gr_address (grub_finish st ! i) = (t, Some s)" for i t s
  proof (rule resolve_default_path [OF _ no_gt no_gt])
    show "grub_finish st \<noteq> []" using that(1) by auto
    show "resolve_head (grub_finish st) (st_submenus st) (str_trim (show_nat t)) = Some t"
      using that(2) by (simp add: trim resolve_head_def parse_usize_show)
    show "resolve_child (grub_finish st) t (str_trim (show_nat s)) = Some i"
      using resolve_child_Some [OF dist that(1,4)] that(3) by (simp add: trim parse_usize_show)
  qed
  show ?thesis using sorted dist path grub_parse_str_default by blast
qed

lemmas grub_eval = trim_eval grub_line_def Let_def split_words_def grub_words_def grub_braces_def
  grub_initial_def grub_outside_def open_menuentry_def open_submenu_def menuentry_id_def
  grub_body_def grub_finish_def get_def clean_path_def default_entry_value_def

definition small_cfg :: "str list" where
  "small_cfg = [S ''submenu s {'', S ''menuentry a {'', S ''}'', S ''menuentry b {'']"

lemma small_cfg_lines: "str_lines (unlines small_cfg) = small_cfg"
  by (rule str_lines_unlines) (simp add: small_cfg_def)

lemma small_cfg_state:
  "map gr_address (grub_finish (grub_lines Map.empty small_cfg grub_initial)) = [(0, Some 0), (0, Some 1)]"
  by (simp add: small_cfg_def grub_eval gr_address_def)

lemma grub_addresses_witness:
  "resolve_default (grub_finish (grub_lines Map.empty (str_lines (unlines small_cfg)) grub_initial))
     (st_submenus (grub_lines Map.empty (str_lines (unlines small_cfg)) grub_initial))
     (show_nat 0 @ S ''>'' @ show_nat 1) = Some 1"
proof -
  let ?raw = "grub_finish (grub_lines Map.empty (str_lines (unlines small_cfg)) grub_initial)"
  have m: "map gr_address ?raw = [(0, Some 0), (0, Some 1)]"
    unfolding small_cfg_lines by (rule small_cfg_state)
  have "length (map gr_address ?raw) = 2" unfolding m by simp
  then have len: "length ?raw = 2" by simp
  then have "gr_address (?raw ! 1) = (0, Some 1)" using nth_map [of 1 ?raw gr_address] m by simp
  with len show ?thesis
    using grub_addresses [where cfg = "unlines small_cfg" and env = Map.empty] by fastforce
qed

text \<open>
  C12: a \<open>default\<close> path into a submenu selects the child, not the first entry of the menu. When the part
  before \<open>>\<close> names a submenu by id or title (and neither a number nor a top-level entry) and the part
  after it names one of the submenu's entries by id or title, the default is the first such
  entry; when it names none, it is the submenu's first entry (or a top-level entry of the same
  number, had a config one: the parser never gives a submenu's number to another entry).
\<close>

lemma grub_path_default:
  assumes "entries \<noteq> []" and "ch CHR ''>'' \<notin> set a" and "ch CHR ''>'' \<notin> set b"
    and "parse_usize (str_trim a) = None" and "parse_usize (str_trim b) = None"
    and "\<forall>e \<in> set entries. gr_sub e = None \<longrightarrow>
      \<not> named (str_trim a) (be_id (gr_entry e)) (be_title (gr_entry e))"
    and "submenu_named submenus (str_trim a) = Some t" and "\<exists>e \<in> set entries. gr_top e = t"
  shows "let child = \<lambda>e. gr_top e = t \<and> gr_sub e \<noteq> None \<and>
        named (str_trim b) (be_id (gr_entry e)) (be_title (gr_entry e));
      top_level = \<lambda>e. gr_top e = t \<and> gr_sub e = None
    in \<exists>i < length entries. resolve_default entries submenus (a @ S ''>'' @ b) = Some i \<and>
      gr_top (entries ! i) = t \<and>
      (if \<exists>e \<in> set entries. child e
       then child (entries ! i) \<and> (\<forall>j < i. \<not> child (entries ! j))
       else if \<exists>e \<in> set entries. top_level e
       then top_level (entries ! i) \<and> (\<forall>j < i. \<not> top_level (entries ! j))
       else \<forall>j < i. gr_top (entries ! j) \<noteq> t)"
proof -
  let ?child = "\<lambda>e. gr_top e = t \<and> gr_sub e \<noteq> None \<and>
      named (str_trim b) (be_id (gr_entry e)) (be_title (gr_entry e))"
  have head: "resolve_head entries submenus (str_trim a) = Some t"
  proof -
    have "find (\<lambda>e. gr_sub e = None \<and> named (str_trim a) (be_id (gr_entry e)) (be_title (gr_entry e)))
        entries = None"
      using assms(6) by (auto simp: find_None_iff)
    with assms(4,7) show ?thesis by (simp add: resolve_head_def)
  qed
  have child: "resolve_child entries t (str_trim b) = position ?child entries"
    using assms(5) by (simp add: resolve_child_def)
  have spec: "resolve_default entries submenus (a @ S ''>'' @ b) =
      opt_or (opt_or (position ?child entries) (first_of_top entries t)) (Some 0)"
    using split_path [OF assms(2,3)] assms(1) head child by (simp add: resolve_default_def Let_def)
  show ?thesis
  proof (cases "position ?child entries")
    case (Some i)
    then have "i < length entries" "?child (entries ! i)" "\<forall>j < i. \<not> ?child (entries ! j)"
      by (simp_all add: position_Some)
    moreover from this have "\<exists>e \<in> set entries. ?child e" by auto
    ultimately show ?thesis using Some spec by auto
  next
    case None
    then have none: "\<forall>e \<in> set entries. \<not> ?child e" by (simp add: position_None)
    show ?thesis
    proof (cases "position (\<lambda>e. gr_top e = t \<and> gr_sub e = None) entries")
      case (Some i)
      then have "i < length entries" "gr_top (entries ! i) = t \<and> gr_sub (entries ! i) = None"
        "\<forall>j < i. \<not> (gr_top (entries ! j) = t \<and> gr_sub (entries ! j) = None)"
        by (simp_all add: position_Some)
      moreover from this have "\<exists>e \<in> set entries. gr_top e = t \<and> gr_sub e = None" by auto
      ultimately show ?thesis using Some None none spec unfolding Let_def
        by (intro exI [of _ i]) (auto simp: first_of_top_def)
    next
      case notop: None
      then have top: "\<forall>e \<in> set entries. gr_top e = t \<longrightarrow> gr_sub e \<noteq> None" by (simp add: position_None)
      obtain i where i: "position (\<lambda>e. gr_top e = t) entries = Some i"
        using assms(8) position_is_Some [of _ entries "\<lambda>e. gr_top e = t"] by auto
      then have "i < length entries" "gr_top (entries ! i) = t" "\<forall>j < i. gr_top (entries ! j) \<noteq> t"
        by (simp_all add: position_Some)
      with i notop None none spec top show ?thesis unfolding Let_def
        by (intro exI [of _ i]) (auto simp: first_of_top_def)
    qed
  qed
qed

definition example_raw :: "nat \<Rightarrow> nat option \<Rightarrow> str \<Rightarrow> grub_raw" where
  "example_raw t s i = \<lparr>gr_entry = default_entry_value\<lparr>be_id := Some i\<rparr>, gr_top = t, gr_sub = s\<rparr>"

text \<open>The witness has a submenu of two entries, and names its second one and then none.\<close>

definition example_entries :: "grub_raw list" where
  "example_entries = [example_raw 0 None (S ''a''), example_raw 1 (Some 0) (S ''b''),
     example_raw 1 (Some 1) (S ''c'')]"

definition example_submenus :: "grub_submenu list" where
  "example_submenus = [\<lparr>gm_top = 1, gm_id = Some (S ''p''), gm_title = None\<rparr>]"

lemma grub_path_default_witness:
  "resolve_default example_entries example_submenus (S ''p'' @ S ''>'' @ S ''c'') = Some 2 \<and>
   resolve_default example_entries example_submenus (S ''p'' @ S ''>'' @ S ''d'') = Some 1"
proof -
  note ev = example_entries_def example_submenus_def example_raw_def default_entry_value_def named_def
    submenu_named_def trim_eval from_str_radix_def strip_plus_def digit_value_def ascii_class_defs
  have three: "length example_entries = 3" by (simp add: example_entries_def)
  have cases3: "i = 0 \<or> i = 1 \<or> i = 2" if "i < length example_entries" for i
    using that three by linarith
  have shape: "example_entries \<noteq> []" "ch CHR ''>'' \<notin> set (S ''p'')" "ch CHR ''>'' \<notin> set (S ''c'')"
    "ch CHR ''>'' \<notin> set (S ''d'')"
    by (simp_all add: ev)
  have texts: "str_trim (S ''p'') = S ''p''" "str_trim (S ''c'') = S ''c''" "str_trim (S ''d'') = S ''d''"
    "parse_usize (S ''p'') = None" "parse_usize (S ''c'') = None" "parse_usize (S ''d'') = None"
    by (simp_all add: ev)
  have head: "\<forall>e \<in> set example_entries. gr_sub e = None \<longrightarrow>
      \<not> named (str_trim (S ''p'')) (be_id (gr_entry e)) (be_title (gr_entry e))"
    "submenu_named example_submenus (str_trim (S ''p'')) = Some 1"
    "\<exists>e \<in> set example_entries. gr_top e = 1"
    unfolding texts by (simp_all add: ev)
  have c: "\<exists>e \<in> set example_entries. gr_top e = 1 \<and> gr_sub e \<noteq> None \<and>
      named (S ''c'') (be_id (gr_entry e)) (be_title (gr_entry e))"
    and d: "\<not> (\<exists>e \<in> set example_entries. gr_top e = 1 \<and> gr_sub e \<noteq> None \<and>
      named (S ''d'') (be_id (gr_entry e)) (be_title (gr_entry e)))"
    and t: "\<not> (\<exists>e \<in> set example_entries. gr_top e = 1 \<and> gr_sub e = None)"
    by (simp_all add: ev)
  note path = grub_path_default [OF shape(1,2) _ _ _ head]
  have "\<exists>i < length example_entries.
      resolve_default example_entries example_submenus (S ''p'' @ S ''>'' @ S ''c'') = Some i \<and>
      named (S ''c'') (be_id (gr_entry (example_entries ! i))) (be_title (gr_entry (example_entries ! i)))"
    using path [of "S ''c''"] shape(3) c unfolding texts Let_def by (simp only: texts if_True) blast
  moreover have "\<exists>i < length example_entries.
      resolve_default example_entries example_submenus (S ''p'' @ S ''>'' @ S ''d'') = Some i \<and>
      gr_top (example_entries ! i) = 1 \<and> (\<forall>j < i. gr_top (example_entries ! j) \<noteq> 1)"
    using path [of "S ''d''"] shape(4) d t unfolding texts Let_def by (simp only: texts if_False) blast
  ultimately obtain i j where
    i: "i < length example_entries"
      "resolve_default example_entries example_submenus (S ''p'' @ S ''>'' @ S ''c'') = Some i"
      "named (S ''c'') (be_id (gr_entry (example_entries ! i))) (be_title (gr_entry (example_entries ! i)))" and
    j: "j < length example_entries"
      "resolve_default example_entries example_submenus (S ''p'' @ S ''>'' @ S ''d'') = Some j"
      "gr_top (example_entries ! j) = 1" "\<forall>k < j. gr_top (example_entries ! k) \<noteq> 1" by blast
  have "i = 2" using cases3 [OF i(1)] i(3) by (auto simp: ev)
  moreover have "j = 1"
    using cases3 [OF j(1)] j(3) j(4) [THEN spec, of 1] by (auto simp: ev)
  ultimately show ?thesis using i(2) j(2) by (simp only:)
qed

end
