(* ===== verification/Vercmp.thy ===== *)
theory Vercmp
  imports Rust_Fmt
begin

text \<open>
  src/src/boot/vercmp.rs: the comparison of kernel versions that sorts boot entries. The lemmas show
  that it is a total preorder, which is what a sort needs of it, and that digits compare by value.
\<close>

datatype seg = SNum str | SAlpha str

text \<open>
  \<open>segments\<close>: maximal runs of ASCII digits and letters; everything else, the bytes of other characters
  included, separates.
\<close>

function segments :: "str \<Rightarrow> seg list" where
  "segments [] = []"
| "segments (c # cs) =
     (if is_ascii_digit c
      then SNum (takeWhile is_ascii_digit (c # cs)) # segments (dropWhile is_ascii_digit (c # cs))
      else if is_ascii_alphabetic c
      then SAlpha (takeWhile is_ascii_alphabetic (c # cs))
             # segments (dropWhile is_ascii_alphabetic (c # cs))
      else segments cs)"
  by pat_completeness auto
termination
  by (relation "measure length") (auto intro: le_imp_less_Suc length_dropWhile_le)

definition trim_zeros :: "str \<Rightarrow> str" where
  "trim_zeros s = trim_start_by (\<lambda>c. c = ch CHR ''0'') s"

definition cmp_numeric :: "str \<Rightarrow> str \<Rightarrow> ordering" where
  "cmp_numeric a b =
     (let a = trim_zeros a; b = trim_zeros b
      in then_with (cmp_of (length a) (length b)) (cmp_list a b))"

fun cmp_seg :: "seg \<Rightarrow> seg \<Rightarrow> ordering" where
  "cmp_seg (SNum x) (SNum y) = cmp_numeric x y"
| "cmp_seg (SAlpha x) (SAlpha y) = cmp_list x y"
| "cmp_seg (SNum _) (SAlpha _) = Greater"
| "cmp_seg (SAlpha _) (SNum _) = Less"

text \<open>The loop over the zipped segments: the first difference, if there is one.\<close>

fun first_difference :: "(seg \<times> seg) list \<Rightarrow> ordering option" where
  "first_difference [] = None"
| "first_difference ((x, y) # ps) =
     (let ord = cmp_seg x y in if ord \<noteq> Equal then Some ord else first_difference ps)"

definition vercmp :: "str \<Rightarrow> str \<Rightarrow> ordering" where
  "vercmp a b =
     (let sa = segments a; sb = segments b
      in case first_difference (zip sa sb) of
           Some ord \<Rightarrow> ord
         | None \<Rightarrow> cmp_of (length sa) (length sb))"

section \<open>A total preorder\<close>

lemma cmp_numeric_swap: "cmp_numeric b a = ord_reverse (cmp_numeric a b)"
  unfolding cmp_numeric_def Let_def then_with_reverse
  using cmp_of_swap [of "length (trim_zeros a)" "length (trim_zeros b)"]
    cmp_list_swap [of "trim_zeros a" "trim_zeros b"] by simp

lemma cmp_numeric_trans:
  "cmp_numeric a b \<noteq> Greater \<Longrightarrow> cmp_numeric b c \<noteq> Greater \<Longrightarrow> cmp_numeric a c \<noteq> Greater"
  using cmp_list_trans_le [of "trim_zeros a" "trim_zeros b" "trim_zeros c"]
  by (auto simp: cmp_numeric_def Let_def then_with_def cmp_of_eq cmp_of_def split: if_splits)

lemma cmp_seg_swap: "cmp_seg y x = ord_reverse (cmp_seg x y)"
  by (cases x; cases y; simp; rule cmp_numeric_swap cmp_list_swap)

lemma cmp_seg_trans:
  "cmp_seg x y \<noteq> Greater \<Longrightarrow> cmp_seg y z \<noteq> Greater \<Longrightarrow> cmp_seg x z \<noteq> Greater"
  by (cases x; cases y; cases z) (auto dest: cmp_numeric_trans cmp_list_trans_le)

interpretation seg_order: total_preorder_cmp cmp_seg
  by unfold_locales (rule cmp_seg_swap, erule (1) cmp_seg_trans)

text \<open>\<open>vercmp\<close> as a recursion over the two lists of segments.\<close>

fun cmp_segs :: "seg list \<Rightarrow> seg list \<Rightarrow> ordering" where
  "cmp_segs [] [] = Equal"
| "cmp_segs [] (_ # _) = Less"
| "cmp_segs (_ # _) [] = Greater"
| "cmp_segs (x # xs) (y # ys) = then_with (cmp_seg x y) (cmp_segs xs ys)"

lemma vercmp_segs: "vercmp a b = cmp_segs (segments a) (segments b)"
proof -
  have "(case first_difference (zip xs ys) of Some ord \<Rightarrow> ord | None \<Rightarrow> cmp_of (length xs) (length ys)) =
      cmp_segs xs ys" for xs ys
  proof (induction xs ys rule: cmp_segs.induct)
    case (4 x xs y ys)
    then show ?case
      by (cases "first_difference (zip xs ys)") (auto simp: Let_def then_with_def cmp_of_def)
  qed (simp_all add: cmp_of_def)
  then show ?thesis by (simp add: vercmp_def Let_def)
qed

lemma cmp_segs_swap: "cmp_segs ys xs = ord_reverse (cmp_segs xs ys)"
proof (induction xs ys rule: cmp_segs.induct)
  case (4 x xs y ys)
  then show ?case by (simp add: then_with_reverse cmp_seg_swap [of y x])
qed simp_all

lemma cmp_segs_trans:
  "cmp_segs xs ys \<noteq> Greater \<Longrightarrow> cmp_segs ys zs \<noteq> Greater \<Longrightarrow> cmp_segs xs zs \<noteq> Greater"
proof (induction xs ys arbitrary: zs rule: cmp_segs.induct)
  case (4 x xs y ys)
  show ?case
  proof (cases zs)
    case (Cons z zs')
    have xy: "cmp_seg x y \<noteq> Greater" and yz: "cmp_seg y z \<noteq> Greater"
      using 4(2,3) Cons by (auto simp: then_with_def split: if_splits)
    then have xz: "cmp_seg x z \<noteq> Greater" by (rule cmp_seg_trans)
    show ?thesis
    proof (cases "cmp_seg x z = Equal")
      case True
      have "cmp_seg z x = Equal" using True cmp_seg_swap [of x z] by simp
      then have "cmp_seg y x \<noteq> Greater" "cmp_seg z y \<noteq> Greater"
        using cmp_seg_trans [of y z x] cmp_seg_trans [of z x y] xy yz by simp_all
      moreover have "cmp_seg a b = Equal" if "cmp_seg a b \<noteq> Greater" "cmp_seg b a \<noteq> Greater" for a b
        using that cmp_seg_swap [of a b] by (cases "cmp_seg a b"; cases "cmp_seg b a") simp_all
      ultimately have "cmp_seg x y = Equal" "cmp_seg y z = Equal" using xy yz by blast+
      with 4 Cons True show ?thesis by (simp add: then_with_def)
    next
      case False
      with xz Cons show ?thesis by (simp add: then_with_def)
    qed
  qed (use 4 in simp)
next
  case (2 y ys)
  then show ?case by (cases zs) auto
qed auto

text \<open>The comparison that sorts entries meets the contract of a sort.\<close>

interpretation vercmp_order: total_preorder_cmp vercmp
  by unfold_locales (unfold vercmp_segs, rule cmp_segs_swap, erule (1) cmp_segs_trans)

section \<open>Digits compare by value\<close>

fun dec_value :: "str \<Rightarrow> nat" where
  "dec_value [] = 0"
| "dec_value (c # cs) = (c - 48) * 10 ^ length cs + dec_value cs"

lemma dec_value_bound: "\<forall>c \<in> set s. is_ascii_digit c \<Longrightarrow> dec_value s < 10 ^ length s"
proof (induction s)
  case (Cons c cs)
  then have "c - 48 \<le> 9" and IH: "dec_value cs < 10 ^ length cs"
    by (auto simp: is_ascii_digit_def)
  then have "(c - 48) * 10 ^ length cs \<le> 9 * 10 ^ length cs" by (intro mult_right_mono) auto
  then have "(c - 48) * 10 ^ length cs + dec_value cs < 9 * 10 ^ length cs + 10 ^ length cs"
    using IH by (rule add_le_less_mono)
  then show ?case by simp
qed simp

lemma dec_value_trim: "dec_value (trim_zeros s) = dec_value s"
  by (induction s) (auto simp: trim_zeros_def trim_start_by_def)

lemma trim_zeros_digits: "\<forall>c \<in> set s. is_ascii_digit c \<Longrightarrow> \<forall>c \<in> set (trim_zeros s). is_ascii_digit c"
  by (auto simp: trim_zeros_def trim_start_by_def dest: set_dropWhileD)

lemma trim_zeros_hd: "trim_zeros s \<noteq> [] \<Longrightarrow> hd (trim_zeros s) \<noteq> 48"
  using hd_dropWhile [of "\<lambda>c. c = 48" s] by (auto simp: trim_zeros_def trim_start_by_def)

lemma dec_value_ge:
  "\<forall>c \<in> set s. is_ascii_digit c \<Longrightarrow> s \<noteq> [] \<Longrightarrow> hd s \<noteq> 48 \<Longrightarrow> 10 ^ (length s - 1) \<le> dec_value s"
proof (cases s)
  case (Cons c cs)
  assume "\<forall>c \<in> set s. is_ascii_digit c" "hd s \<noteq> 48"
  with Cons have "1 \<le> c - 48" by (auto simp: is_ascii_digit_def)
  then have "1 * 10 ^ length cs \<le> (c - 48) * 10 ^ length cs" by (intro mult_right_mono) auto
  then have "10 ^ length cs \<le> dec_value (c # cs)" unfolding dec_value.simps by linarith
  with Cons show ?thesis by simp
qed simp

lemma dec_value_lex:
  "length a = length b \<Longrightarrow> \<forall>c \<in> set a. is_ascii_digit c \<Longrightarrow> \<forall>c \<in> set b. is_ascii_digit c \<Longrightarrow>
   cmp_list a b = cmp_of (dec_value a) (dec_value b)"
proof (induction a b rule: list_induct2)
  case (Cons x xs y ys)
  have IH: "cmp_list xs ys = cmp_of (dec_value xs) (dec_value ys)" using Cons by simp
  have b: "dec_value xs < 10 ^ length ys" "dec_value ys < 10 ^ length ys"
    using dec_value_bound [of xs] dec_value_bound [of ys] Cons by auto
  have lt: "dec_value (u # us) < dec_value (v # vs)"
    if "u < v" "48 \<le> u" "length us = length vs" "dec_value us < 10 ^ length vs" for u v us vs
  proof -
    have "(u - 48 + 1) * 10 ^ length vs \<le> (v - 48) * 10 ^ length vs"
      using that by (intro mult_right_mono) auto
    then have "(u - 48) * 10 ^ length vs + 10 ^ length vs \<le> (v - 48) * 10 ^ length vs" by simp
    with that(3,4) show ?thesis unfolding dec_value.simps by simp
  qed
  have ge: "48 \<le> x" "48 \<le> y" using Cons.prems by (auto simp: is_ascii_digit_def)
  consider "x < y" | "x = y" | "y < x" by linarith
  then show ?case
  proof cases
    case 1
    with lt [of x y xs ys] ge b Cons.hyps show ?thesis by (simp add: then_with_def cmp_of_def)
  next
    case 2
    with IH Cons.hyps show ?thesis by (simp add: then_with_def cmp_of_def)
  next
    case 3
    with lt [of y x ys xs] ge b Cons.hyps show ?thesis by (simp add: then_with_def cmp_of_def)
  qed
qed (simp add: cmp_of_def)

lemma cmp_numeric_value:
  assumes "\<forall>c \<in> set a. is_ascii_digit c" and "\<forall>c \<in> set b. is_ascii_digit c"
  shows "cmp_numeric a b = cmp_of (dec_value a) (dec_value b)"
proof -
  let ?a = "trim_zeros a" and ?b = "trim_zeros b"
  have da: "\<forall>c \<in> set ?a. is_ascii_digit c" and db: "\<forall>c \<in> set ?b. is_ascii_digit c"
    using assms trim_zeros_digits by blast+
  have lt: "dec_value u < dec_value v"
    if "length u < length v" "\<forall>c \<in> set u. is_ascii_digit c" "\<forall>c \<in> set v. is_ascii_digit c"
      "v \<noteq> [] \<longrightarrow> hd v \<noteq> 48" for u v
  proof -
    have "dec_value u < 10 ^ length u" using that(2) by (rule dec_value_bound)
    also have "\<dots> \<le> 10 ^ (length v - 1)" using that(1) by (intro power_increasing) auto
    also have "\<dots> \<le> dec_value v" using that by (intro dec_value_ge) auto
    finally show ?thesis .
  qed
  consider "length ?a < length ?b" | "length ?a = length ?b" | "length ?b < length ?a" by linarith
  then have "cmp_numeric a b = cmp_of (dec_value ?a) (dec_value ?b)"
  proof cases
    case 1
    with lt [of ?a ?b] da db trim_zeros_hd [of b] show ?thesis
      by (simp add: cmp_numeric_def Let_def then_with_def cmp_of_def)
  next
    case 2
    with dec_value_lex [OF 2 da db] show ?thesis
      by (simp add: cmp_numeric_def Let_def then_with_def cmp_of_def)
  next
    case 3
    with lt [of ?b ?a] da db trim_zeros_hd [of a] show ?thesis
      by (simp add: cmp_numeric_def Let_def then_with_def cmp_of_def)
  qed
  then show ?thesis by (simp add: dec_value_trim)
qed

lemma segments_num_digits:
  "SNum s \<in> set (segments v) \<Longrightarrow> s \<noteq> [] \<and> (\<forall>c \<in> set s. is_ascii_digit c)"
proof (induction v rule: segments.induct)
  case (2 c cs)
  show ?case
  proof (cases "is_ascii_digit c")
    case True
    with 2(4) consider "s = takeWhile is_ascii_digit (c # cs)"
      | "SNum s \<in> set (segments (dropWhile is_ascii_digit (c # cs)))" by auto
    then show ?thesis
    proof cases
      case 1
      then show ?thesis using True by (auto dest: set_takeWhileD)
    next
      case 2
      then show ?thesis using "2.IH"(1) True by blast
    qed
  next
    case False
    show ?thesis
    proof (cases "is_ascii_alphabetic c")
      case True
      with False 2(4) have "SNum s \<in> set (segments (dropWhile is_ascii_alphabetic (c # cs)))" by simp
      then show ?thesis using "2.IH"(2) True False by blast
    next
      case nonalpha: False
      with False 2(4) have "SNum s \<in> set (segments cs)" by simp
      then show ?thesis using "2.IH"(3) nonalpha False by blast
    qed
  qed
qed simp

section \<open>Properties\<close>

text \<open>
  C16: comparing versions is a total preorder that compares numbers by value. It never depends on the
  order of its arguments, it is transitive (so the sort that lists the newest kernel first is well
  defined), and runs of digits compare as the numbers they denote, whatever their leading zeros
  and however long they are.
\<close>

lemma vercmp_order_laws:
  "vercmp b a = ord_reverse (vercmp a b) \<and>
   (vercmp a b \<noteq> Greater \<longrightarrow> vercmp b c \<noteq> Greater \<longrightarrow> vercmp a c \<noteq> Greater) \<and>
   (\<forall>m \<in> set (segments a). \<forall>n \<in> set (segments b). \<forall>x y. m = SNum x \<longrightarrow> n = SNum y \<longrightarrow>
      cmp_seg m n = cmp_of (dec_value x) (dec_value y))"
proof (intro conjI impI)
  show "vercmp b a = ord_reverse (vercmp a b)" by (rule vercmp_order.cmp_swap)
  show "vercmp a c \<noteq> Greater" if "vercmp a b \<noteq> Greater" "vercmp b c \<noteq> Greater"
    using that by (rule vercmp_order.cmp_le_trans)
  show "\<forall>m \<in> set (segments a). \<forall>n \<in> set (segments b). \<forall>x y. m = SNum x \<longrightarrow> n = SNum y \<longrightarrow>
      cmp_seg m n = cmp_of (dec_value x) (dec_value y)"
    by (auto simp: cmp_numeric_value segments_num_digits)
qed

lemma vercmp_order_laws_witness:
  "vercmp (S ''6.6.9'') (S ''6.10.1'') = Less \<and> vercmp (S ''6.6.9'') (S ''7'') \<noteq> Greater"
proof -
  have "vercmp (S ''6.6.9'') (S ''6.10.1'') = Less" "vercmp (S ''6.10.1'') (S ''7'') = Less"
    by code_simp+
  with vercmp_order_laws [of "S ''6.10.1''" "S ''6.6.9''" "S ''7''"] show ?thesis by simp
qed

text \<open>The unit tests of the module.\<close>

definition vercmp_tests :: "(string \<times> string \<times> ordering) list" where
  "vercmp_tests =
     [(''6.6.9'', ''6.6.30'', Less),
      (''6.6.30'', ''6.6.30'', Equal),
      (''6.10.1'', ''6.9.9'', Greater),
      (''6.6.30-200.fc39'', ''6.6.30-100.fc39'', Greater),
      (''5.15.0-105-generic'', ''5.15.0-91-generic'', Greater),
      (''5.14.0-362.el9'', ''5.14.0-70.el9'', Greater),
      (''0-rescue-abc123'', ''6.6.30-200.fc39'', Less),
      (''6.6.1'', ''6.6.rc1'', Greater),
      (''6.6.30.1'', ''6.6.30'', Greater)]"

lemma vercmp_tests_hold: "\<forall>(a, b, r) \<in> set vercmp_tests. vercmp (S a) (S b) = r"
  by code_simp

end
