(* ===== verification/Bls.thy ===== *)
theory Bls
  imports Grubenv Vercmp
begin

text \<open>
  src/src/boot/bls.rs: Boot Loader Specification entries. The lemmas show that the entries come newest
  first and in a stable order, that the default is one of them and follows GRUB's saved entry before
  the glob of loader.conf, and that the glob matcher decides its language.
\<close>

record bls_scan =
  bl_entries :: "boot_entry list"
  bl_default :: "nat option"

definition strip_boot_counter :: "str \<Rightarrow> str" where
  "strip_boot_counter stem = hd (split_on (ch CHR ''+'') stem)"

definition absolute :: "str \<Rightarrow> str" where
  "absolute p = (if starts_with (S ''/'') p then p else S ''/'' @ p)"

text \<open>\<open>glob_match\<close> works on bytes: \<open>*\<close> is 42 and \<open>?\<close> is 63.\<close>

function glob_rec :: "bytes \<Rightarrow> bytes \<Rightarrow> bool" where
  "glob_rec [] s \<longleftrightarrow> s = []"
| "glob_rec (p # ps) s \<longleftrightarrow>
     (if p = 42 then glob_rec ps s \<or> (if s = [] then False else glob_rec (p # ps) (tl s))
      else if s = [] then False
      else if p = 63 then glob_rec ps (tl s)
      else if hd s = p then glob_rec ps (tl s)
      else False)"
  by pat_completeness auto
termination
  by (relation "measure (\<lambda>(p, s). length p + length s)") (auto simp: neq_Nil_conv)

declare glob_rec.simps(2) [simp del]

definition glob_match :: "str \<Rightarrow> str \<Rightarrow> bool" where
  "glob_match pat s \<longleftrightarrow> glob_rec (as_bytes pat) (as_bytes s)"

section \<open>One file\<close>

definition bls_keyword :: "env \<Rightarrow> str \<Rightarrow> str \<Rightarrow> boot_entry \<times> str list \<Rightarrow> boot_entry \<times> str list" where
  "bls_keyword env key value st =
     (case st of (entry, options) \<Rightarrow>
        if key = S ''title'' then (entry\<lparr>be_title := Some value\<rparr>, options)
        else if key = S ''version'' then (entry\<lparr>be_version := Some value\<rparr>, options)
        else if key = S ''linux'' then (entry\<lparr>be_kernel := Some (absolute value)\<rparr>, options)
        else if key = S ''initrd'' then
          (entry\<lparr>be_initrd := be_initrd entry @ map absolute (split_whitespace value)\<rparr>, options)
        else if key = S ''options'' then (entry, options @ [expand env value])
        else (entry, options))"

definition bls_line :: "env \<Rightarrow> str \<Rightarrow> boot_entry \<times> str list \<Rightarrow> boot_entry \<times> str list" where
  "bls_line env raw_line st =
     (let line = str_trim raw_line in
      if line = [] \<or> starts_with (S ''#'') line then st
      else case split_once_by is_whitespace line of
             None \<Rightarrow> st
           | Some (key, value) \<Rightarrow> bls_keyword env key (str_trim value) st)"

fun bls_lines :: "env \<Rightarrow> str list \<Rightarrow> boot_entry \<times> str list \<Rightarrow> boot_entry \<times> str list" where
  "bls_lines env [] st = st"
| "bls_lines env (l # ls) st = bls_lines env ls (bls_line env l st)"

definition bls_entry :: "env \<Rightarrow> str \<Rightarrow> str \<Rightarrow> boot_entry" where
  "bls_entry env stem contents =
     (case bls_lines env (str_lines contents)
             (default_entry_value\<lparr>be_id := Some stem, be_source := SrcBls\<rparr>, []) of
        (entry, options) \<Rightarrow>
          let cmdline = str_trim (str_join (S '' '') options)
          in if cmdline \<noteq> [] then entry\<lparr>be_cmdline := Some cmdline\<rparr> else entry)"

text \<open>The loop over the directory, with the list of config paths it extends.\<close>

definition bls_stem :: "str \<Rightarrow> str" where
  "bls_stem name = trim_end_str (S ''.conf'') name"

fun bls_files ::
  "filesystem \<Rightarrow> str \<Rightarrow> env \<Rightarrow> dir_entry list \<Rightarrow> (str \<times> boot_entry) list \<Rightarrow> str list \<Rightarrow>
   (str \<times> boot_entry) list \<times> str list" where
  "bls_files fs entries_dir env [] items configs = (items, configs)"
| "bls_files fs entries_dir env (f # files) items configs =
     (if de_kind f = KDir \<or> \<not> ends_with (S ''.conf'') (de_name f)
      then bls_files fs entries_dir env files items configs
      else
        let path = entries_dir @ S ''/'' @ de_name f
        in case fs_read_file fs path of
             Inl _ \<Rightarrow> bls_files fs entries_dir env files items configs
           | Inr data \<Rightarrow>
               bls_files fs entries_dir env files
                 (items @ [(bls_stem (de_name f),
                    bls_entry env (bls_stem (de_name f)) (from_utf8_lossy data))])
                 (configs @ [path]))"

section \<open>The directory\<close>

text \<open>What an item is sorted by: its version, or its file name.\<close>

definition bls_version :: "str \<times> boot_entry \<Rightarrow> str" where
  "bls_version item = unwrap_or (be_version (snd item)) (fst item)"

definition bls_cmp :: "str \<times> boot_entry \<Rightarrow> str \<times> boot_entry \<Rightarrow> ordering" where
  "bls_cmp a b = vercmp (bls_version b) (bls_version a)"

definition is_saved :: "env \<Rightarrow> str \<times> boot_entry \<Rightarrow> bool" where
  "is_saved env item =
     (case env (S ''saved_entry'') of
        None \<Rightarrow> False
      | Some s \<Rightarrow> s = fst item \<or> s = strip_boot_counter (fst item))"

definition globbed :: "str \<Rightarrow> str \<times> boot_entry \<Rightarrow> bool" where
  "globbed pat item \<longleftrightarrow>
     glob_match pat (fst item) \<or> glob_match pat (fst item @ S ''.conf'') \<or>
     glob_match pat (strip_boot_counter (fst item))"

definition bls_default :: "env \<Rightarrow> str option \<Rightarrow> (str \<times> boot_entry) list \<Rightarrow> nat option" where
  "bls_default env sd_default items =
     opt_or (opt_or (position (is_saved env) items)
               (Option.bind sd_default (\<lambda>pat. position (globbed pat) items)))
       (if items = [] then None else Some 0)"

definition bls_parse_dir ::
  "filesystem \<Rightarrow> str \<Rightarrow> env \<Rightarrow> str option \<Rightarrow> str list \<Rightarrow> bls_scan result \<times> str list" where
  "bls_parse_dir fs entries_dir env sd_default configs =
     (case fs_read_dir fs entries_dir of
        Inl e \<Rightarrow> (Err e, configs)
      | Inr listing \<Rightarrow>
          (case bls_files fs entries_dir env listing [] configs of
             (items, configs') \<Rightarrow>
               let sorted = sort_by bls_cmp items
               in (Ok \<lparr>bl_entries = map snd sorted, bl_default = bls_default env sd_default sorted\<rparr>,
                   configs')))"

section \<open>The order of the entries\<close>

interpretation bls_order: total_preorder_cmp bls_cmp
  unfolding bls_cmp_def
  by (rule total_preorder_cmp_flip [OF total_preorder_cmp_key])
    (rule vercmp_order.total_preorder_cmp_axioms)

section \<open>Globs\<close>

text \<open>
  The language of a glob: the text is cut into one piece per pattern byte, any piece for \<open>*\<close>, any
  one byte for \<open>?\<close>, the byte itself otherwise.
\<close>

definition glob_piece :: "u8 \<Rightarrow> bytes \<Rightarrow> bool" where
  "glob_piece p w \<longleftrightarrow>
     (if p = 42 then True else if p = 63 then length w = 1 else w = [p])"

definition glob_lang :: "bytes \<Rightarrow> bytes \<Rightarrow> bool" where
  "glob_lang ps s \<longleftrightarrow> (\<exists>ws. list_all2 glob_piece ps ws \<and> concat ws = s)"

lemma glob_lang_Nil: "glob_lang [] s \<longleftrightarrow> s = []"
  by (auto simp: glob_lang_def)

lemma glob_lang_Cons: "glob_lang (p # ps) s \<longleftrightarrow> (\<exists>w r. s = w @ r \<and> glob_piece p w \<and> glob_lang ps r)"
proof
  assume "glob_lang (p # ps) s"
  then obtain w ws where "glob_piece p w" "list_all2 glob_piece ps ws" "s = w @ concat ws"
    by (auto simp: glob_lang_def list_all2_Cons1)
  then show "\<exists>w r. s = w @ r \<and> glob_piece p w \<and> glob_lang ps r"
    unfolding glob_lang_def by blast
next
  assume "\<exists>w r. s = w @ r \<and> glob_piece p w \<and> glob_lang ps r"
  then obtain w ws where "glob_piece p w" "list_all2 glob_piece ps ws" "s = w @ concat ws"
    unfolding glob_lang_def by blast
  then show "glob_lang (p # ps) s"
    unfolding glob_lang_def by (intro exI [of _ "w # ws"]) simp
qed

lemma glob_lang_star: "glob_lang (42 # ps) s \<longleftrightarrow>
   glob_lang ps s \<or> (s \<noteq> [] \<and> glob_lang (42 # ps) (tl s))"
proof -
  have "(\<exists>w r. s = w @ r \<and> glob_lang ps r) \<longleftrightarrow>
      glob_lang ps s \<or> (s \<noteq> [] \<and> (\<exists>w r. tl s = w @ r \<and> glob_lang ps r))"
  proof
    assume "\<exists>w r. s = w @ r \<and> glob_lang ps r"
    then obtain w r where wr: "s = w @ r" "glob_lang ps r" by blast
    then show "glob_lang ps s \<or> (s \<noteq> [] \<and> (\<exists>w r. tl s = w @ r \<and> glob_lang ps r))"
      by (cases w) auto
  next
    assume "glob_lang ps s \<or> (s \<noteq> [] \<and> (\<exists>w r. tl s = w @ r \<and> glob_lang ps r))"
    then show "\<exists>w r. s = w @ r \<and> glob_lang ps r"
    proof
      assume "glob_lang ps s"
      then show ?thesis by (intro exI [of _ "[]"] exI [of _ s]) simp
    next
      assume "s \<noteq> [] \<and> (\<exists>w r. tl s = w @ r \<and> glob_lang ps r)"
      then obtain w r where "s = (hd s # w) @ r" "glob_lang ps r" by (cases s) auto
      then show ?thesis by blast
    qed
  qed
  then show ?thesis by (simp add: glob_lang_Cons glob_piece_def)
qed

lemma glob_rec_lang: "glob_rec ps s \<longleftrightarrow> glob_lang ps s"
proof (induction ps s rule: glob_rec.induct)
  case (1 s)
  then show ?case by (simp add: glob_lang_Nil)
next
  case (2 p ps s)
  note unfold = glob_rec.simps(2) [of p ps s]
  consider (star) "p = 42" | (any) "p \<noteq> 42" "p = 63" | (byte) "p \<noteq> 42" "p \<noteq> 63" by blast
  then show ?case
  proof cases
    case star
    have "glob_rec ps s = glob_lang ps s" using 2 star by simp
    moreover have "s \<noteq> [] \<Longrightarrow> glob_rec (p # ps) (tl s) = glob_lang (p # ps) (tl s)"
      using 2 star by simp
    ultimately show ?thesis using unfold star glob_lang_star [of ps s] by auto
  next
    case any
    have "glob_lang (p # ps) s \<longleftrightarrow> s \<noteq> [] \<and> glob_lang ps (tl s)"
    proof (cases s)
      case (Cons c cs)
      have "(\<exists>w r. c # cs = w @ r \<and> length w = 1 \<and> glob_lang ps r) \<longleftrightarrow> glob_lang ps cs"
        by (auto simp: length_Suc_conv) (metis append_Cons append_Nil)
      with any Cons show ?thesis by (simp add: glob_lang_Cons glob_piece_def)
    qed (use any in \<open>auto simp: glob_lang_Cons glob_piece_def\<close>)
    moreover have "s \<noteq> [] \<Longrightarrow> glob_rec ps (tl s) = glob_lang ps (tl s)" using 2 any by simp
    ultimately show ?thesis using unfold any by auto
  next
    case byte
    have "glob_lang (p # ps) s \<longleftrightarrow> s \<noteq> [] \<and> hd s = p \<and> glob_lang ps (tl s)"
      using byte by (cases s) (auto simp: glob_lang_Cons glob_piece_def)
    moreover have "s \<noteq> [] \<Longrightarrow> hd s = p \<Longrightarrow> glob_rec ps (tl s) = glob_lang ps (tl s)"
      using 2 byte by simp
    ultimately show ?thesis using unfold byte by auto
  qed
qed

section \<open>Defaults and paths\<close>

lemma bls_default_ok: "default_ok items (bls_default env sd items)"
proof (cases "bls_default env sd items")
  case (Some i)
  then have "i < length items"
    by (auto simp: bls_default_def bind_eq_Some_conv elim!: opt_or_cases dest: position_lt split: if_splits)
  with Some show ?thesis by simp
next
  case None
  then show ?thesis by (auto simp: bls_default_def opt_or_eq_None split: if_splits)
qed

lemma absolute_abs: "is_abs (absolute p)"
  by (simp add: absolute_def is_abs_def)

lemma bls_keyword_paths:
  "entry_paths_ok (fst st) \<Longrightarrow> entry_paths_ok (fst (bls_keyword env key value st))"
  by (cases st) (auto simp: bls_keyword_def absolute_abs entry_paths_ok_initrds
      intro!: entry_paths_ok_kernel entry_paths_ok_initrd)

lemma bls_lines_paths: "entry_paths_ok (fst st) \<Longrightarrow> entry_paths_ok (fst (bls_lines env ls st))"
proof (induction env ls st rule: bls_lines.induct)
  case (2 env l ls st)
  have "entry_paths_ok (fst (bls_line env l st))"
    using 2(2) bls_keyword_paths by (auto simp: bls_line_def Let_def split: option.splits)
  with 2(1) show ?case by simp
qed simp

lemma bls_entry_paths: "entry_paths_ok (bls_entry env stem contents)"
  using bls_lines_paths [of "(default_entry_value\<lparr>be_id := Some stem, be_source := SrcBls\<rparr>, [])" env
      "str_lines contents"]
  by (auto simp: bls_entry_def Let_def entry_paths_ok_default split: prod.splits)

lemma bls_files_paths:
  "\<forall>i \<in> set items. entry_paths_ok (snd i) \<Longrightarrow>
   \<forall>i \<in> set (fst (bls_files fs dir env files items configs)). entry_paths_ok (snd i)"
  by (induction fs dir env files items configs rule: bls_files.induct)
    (auto simp: bls_entry_paths Let_def split: sum.splits)

lemma bls_parse_dir_Ok:
  assumes "bls_parse_dir fs dir env sd configs = (Ok b, configs')"
  shows "default_ok (bl_entries b) (bl_default b)" and "\<forall>e \<in> set (bl_entries b). entry_paths_ok e"
proof -
  obtain listing items where b:
    "bls_files fs dir env listing [] configs = (items, configs')"
    "b = \<lparr>bl_entries = map snd (sort_by bls_cmp items),
          bl_default = bls_default env sd (sort_by bls_cmp items)\<rparr>"
    using assms by (auto simp: bls_parse_dir_def Let_def split: sum.splits prod.splits)
  show "default_ok (bl_entries b) (bl_default b)"
    using bls_default_ok [of "sort_by bls_cmp items" env sd]
    by (simp add: b default_ok_def split: option.splits)
  show "\<forall>e \<in> set (bl_entries b). entry_paths_ok e"
    using bls_files_paths [of "[]" fs dir env listing configs] by (auto simp: b)
qed

section \<open>Properties\<close>

text \<open>What one file of the directory contributes, if anything.\<close>

definition bls_item :: "filesystem \<Rightarrow> str \<Rightarrow> env \<Rightarrow> dir_entry \<Rightarrow> (str \<times> boot_entry) option" where
  "bls_item fs dir env f =
     (if de_kind f = KDir \<or> \<not> ends_with (S ''.conf'') (de_name f) then None
      else map_option (\<lambda>data. (bls_stem (de_name f), bls_entry env (bls_stem (de_name f)) (from_utf8_lossy data)))
             (res_ok (fs_read_file fs (dir @ S ''/'' @ de_name f))))"

lemma bls_files_items:
  "fst (bls_files fs dir env files items configs) = items @ List.map_filter (bls_item fs dir env) files"
  by (induction fs dir env files items configs rule: bls_files.induct)
    (auto simp: bls_item_def map_filter_simps Let_def split: sum.splits)

lemma bls_parse_dir_items:
  assumes "fs_read_dir fs dir = Ok listing"
  shows "fst (bls_parse_dir fs dir env sd configs) =
    (let items = sort_by bls_cmp (List.map_filter (bls_item fs dir env) listing)
     in Ok \<lparr>bl_entries = map snd items, bl_default = bls_default env sd items\<rparr>)"
  using assms bls_files_items [of fs dir env listing "[]" configs]
  by (auto simp: bls_parse_dir_def Let_def split: prod.splits)

text \<open>
  C13: the entries of a BLS directory are those of its readable \<open>.conf\<close> files, one each, newest version
  first. Entries that compare equal keep the order of the listing: the subsequence of the entries
  equivalent to any one of them is that of the listing.
\<close>

theorem bls_newest_first:
  assumes "fs_read_dir fs dir = Ok listing"
  shows "\<exists>items b. fst (bls_parse_dir fs dir env sd configs) = Ok b \<and> bl_entries b = map snd items \<and>
    mset items = mset (List.map_filter (bls_item fs dir env) listing) \<and>
    sorted_wrt (\<lambda>x y. vercmp (bls_version x) (bls_version y) \<noteq> Less) items \<and>
    (\<forall>z. filter (\<lambda>x. vercmp (bls_version z) (bls_version x) = Equal) items =
         filter (\<lambda>x. vercmp (bls_version z) (bls_version x) = Equal)
           (List.map_filter (bls_item fs dir env) listing))"
proof -
  let ?raw = "List.map_filter (bls_item fs dir env) listing"
  let ?items = "sort_by bls_cmp ?raw"
  have swap: "vercmp b a = ord_reverse (vercmp a b)" for a b
    using vercmp_order.cmp_swap .
  have rev: "bls_cmp x y \<noteq> Greater \<longleftrightarrow> vercmp (bls_version x) (bls_version y) \<noteq> Less" for x y
    using swap [of "bls_version y" "bls_version x"]
    by (cases "vercmp (bls_version x) (bls_version y)") (auto simp: bls_cmp_def)
  have eq: "vercmp (bls_version z) (bls_version x) = Equal \<longleftrightarrow> bls_cmp z x = Equal" for x z
    using swap [of "bls_version z" "bls_version x"]
    by (cases "vercmp (bls_version x) (bls_version z)") (auto simp: bls_cmp_def)
  have "sorted_wrt (\<lambda>x y. vercmp (bls_version x) (bls_version y) \<noteq> Less) ?items"
    using bls_order.sort_by_sorted [of ?raw] unfolding rev .
  moreover have "filter (\<lambda>x. vercmp (bls_version z) (bls_version x) = Equal) ?items =
      filter (\<lambda>x. vercmp (bls_version z) (bls_version x) = Equal) ?raw" for z
    unfolding eq using bls_order.sort_by_stable [of z ?raw] by simp
  ultimately show ?thesis
    using bls_parse_dir_items [OF assms, of env sd configs] by (auto simp: Let_def)
qed

text \<open>A directory of two entries.\<close>

definition two_confs :: filesystem where
  "two_confs =
     \<lparr>fs_type = S ''ext4'', fs_label = None,
      fs_read_dir = (\<lambda>d. Ok [\<lparr>de_name = S ''a.conf'', de_kind = KFile, de_size = 0\<rparr>,
                            \<lparr>de_name = S ''b.conf'', de_kind = KFile, de_size = 0\<rparr>]),
      fs_read_file = (\<lambda>p. Ok []), fs_exists = (\<lambda>p. True), fs_read_prefix = (\<lambda>p n. Ok []),
      fs_file_size = (\<lambda>p. Ok 0), fs_read_link = (\<lambda>p. None)\<rparr>"

lemma two_confs_listing: "fs_read_dir two_confs dir = Ok
    [\<lparr>de_name = S ''a.conf'', de_kind = KFile, de_size = 0\<rparr>,
     \<lparr>de_name = S ''b.conf'', de_kind = KFile, de_size = 0\<rparr>]"
  by (simp add: two_confs_def)

lemma bls_newest_first_witness:
  "\<exists>items b. fst (bls_parse_dir two_confs (S ''/loader/entries'') Map.empty None []) = Ok b \<and>
    bl_entries b = map snd items \<and> length items = 2 \<and>
    sorted_wrt (\<lambda>x y. vercmp (bls_version x) (bls_version y) \<noteq> Less) items"
proof -
  let ?raw = "List.map_filter (bls_item two_confs (S ''/loader/entries'') Map.empty)
      [\<lparr>de_name = S ''a.conf'', de_kind = KFile, de_size = 0\<rparr>,
       \<lparr>de_name = S ''b.conf'', de_kind = KFile, de_size = 0\<rparr>]"
  have len: "length ?raw = 2"
    by (simp add: map_filter_simps bls_item_def two_confs_def ends_with_def strip_suffix_def)
  from bls_newest_first [OF two_confs_listing [of "S ''/loader/entries''"], of Map.empty None "[]"]
  obtain items b where "fst (bls_parse_dir two_confs (S ''/loader/entries'') Map.empty None []) = Ok b"
    "bl_entries b = map snd items" "mset items = mset ?raw"
    "sorted_wrt (\<lambda>x y. vercmp (bls_version x) (bls_version y) \<noteq> Less) items" by blast
  moreover from this(3) have "length items = 2" using len by (metis size_mset)
  ultimately show ?thesis by blast
qed

text \<open>The choice of the default, on the entries and by the language of the glob.\<close>

definition entry_saved :: "env \<Rightarrow> boot_entry \<Rightarrow> bool" where
  "entry_saved env e \<longleftrightarrow>
     (\<exists>s i. env (S ''saved_entry'') = Some s \<and> be_id e = Some i \<and> (s = i \<or> s = strip_boot_counter i))"

definition entry_globbed :: "str \<Rightarrow> boot_entry \<Rightarrow> bool" where
  "entry_globbed pat e \<longleftrightarrow>
     (\<exists>i. be_id e = Some i \<and>
        (glob_lang (as_bytes pat) (as_bytes i) \<or> glob_lang (as_bytes pat) (as_bytes (i @ S ''.conf'')) \<or>
         glob_lang (as_bytes pat) (as_bytes (strip_boot_counter i))))"

lemma bls_keyword_id [simp]: "be_id (fst (bls_keyword env key value st)) = be_id (fst st)"
  by (cases st) (simp add: bls_keyword_def)

lemma bls_lines_id: "be_id (fst (bls_lines env ls st)) = be_id (fst st)"
  by (induction env ls st rule: bls_lines.induct) (simp_all add: bls_line_def Let_def split: option.splits)

lemma bls_entry_id: "be_id (bls_entry env stem contents) = Some stem"
proof -
  let ?st = "(default_entry_value\<lparr>be_id := Some stem, be_source := SrcBls\<rparr>, [])"
  obtain e os where run: "bls_lines env (str_lines contents) ?st = (e, os)" by fastforce
  with bls_lines_id [of env "str_lines contents" ?st] have "be_id e = Some stem" by simp
  with run show ?thesis by (simp add: bls_entry_def Let_def)
qed

lemma bls_item_id: "bls_item fs dir env f = Some (i, e) \<Longrightarrow> be_id e = Some i"
  by (auto simp: bls_item_def bls_entry_id split: if_splits)

lemma bls_default_entries:
  assumes "\<forall>x \<in> set items. be_id (snd x) = Some (fst x)"
  shows "bls_default env sd items =
    opt_or (opt_or (position (entry_saved env) (map snd items))
              (Option.bind sd (\<lambda>pat. position (entry_globbed pat) (map snd items))))
      (if items = [] then None else Some 0)"
proof -
  have "position (entry_saved env) (map snd items) = position (is_saved env) items"
    unfolding position_map using assms
    by (intro position_cong) (auto simp: entry_saved_def is_saved_def split: option.splits)
  moreover have "position (entry_globbed pat) (map snd items) = position (globbed pat) items" for pat
    unfolding position_map using assms
    by (intro position_cong) (simp add: entry_globbed_def globbed_def glob_match_def glob_rec_lang)
  ultimately show ?thesis by (simp add: bls_default_def)
qed

text \<open>
  C14: the default of a BLS directory. It is the first entry that GRUB's \<open>saved_entry\<close> names, with or
  without its boot counter; without one, the first entry in the language of the glob of loader.conf;
  without either, the newest entry; and there is none exactly when there are no entries.
\<close>

theorem bls_default_choice:
  assumes "bls_parse_dir fs dir env sd configs = (Ok b, configs')"
  shows "(\<forall>i. position (entry_saved env) (bl_entries b) = Some i \<longrightarrow> bl_default b = Some i) \<and>
    ((\<forall>e \<in> set (bl_entries b). \<not> entry_saved env e) \<longrightarrow>
      (\<forall>pat i. sd = Some pat \<longrightarrow> position (entry_globbed pat) (bl_entries b) = Some i \<longrightarrow>
         bl_default b = Some i) \<and>
      ((\<forall>pat. sd = Some pat \<longrightarrow> (\<forall>e \<in> set (bl_entries b). \<not> entry_globbed pat e)) \<longrightarrow>
         bl_default b = (if bl_entries b = [] then None else Some 0)))"
proof -
  from assms obtain listing where l: "fs_read_dir fs dir = Ok listing"
    by (cases "fs_read_dir fs dir") (auto simp: bls_parse_dir_def)
  let ?items = "sort_by bls_cmp (List.map_filter (bls_item fs dir env) listing)"
  have b: "b = \<lparr>bl_entries = map snd ?items, bl_default = bls_default env sd ?items\<rparr>"
    using bls_parse_dir_items [OF l, of env sd configs] assms by (simp add: Let_def)
  have "\<forall>x \<in> set ?items. be_id (snd x) = Some (fst x)"
    by (auto simp: map_filter_def dest: bls_item_id)
  from bls_default_entries [OF this, of env sd]
  have "bl_default b =
      opt_or (opt_or (position (entry_saved env) (bl_entries b))
                (Option.bind sd (\<lambda>pat. position (entry_globbed pat) (bl_entries b))))
        (if bl_entries b = [] then None else Some 0)"
    by (simp add: b)
  then show ?thesis by (cases sd) (auto simp: position_None [symmetric])
qed

lemma bls_default_choice_witness:
  "\<exists>b configs'. bls_parse_dir two_confs (S ''/loader/entries'') Map.empty None [] = (Ok b, configs') \<and>
    bl_default b = (if bl_entries b = [] then None else Some 0)"
proof -
  obtain b configs' where
    b: "bls_parse_dir two_confs (S ''/loader/entries'') Map.empty None [] = (Ok b, configs')"
    using bls_parse_dir_items [OF two_confs_listing, of "S ''/loader/entries''" Map.empty None "[]"]
    by (cases "bls_parse_dir two_confs (S ''/loader/entries'') Map.empty None []") (auto simp: Let_def)
  from bls_default_choice [OF this] have "bl_default b = (if bl_entries b = [] then None else Some 0)"
    by (simp add: entry_saved_def)
  with b show ?thesis by blast
qed

text \<open>The unit tests of the module.\<close>

definition glob_tests :: "(string \<times> string \<times> bool) list" where
  "glob_tests =
     [(''*'', ''anything'', True),
      (''6.6.*-200*'', ''6.6.30-200.fc39'', True),
      (''entry-?.conf'', ''entry-1.conf'', True),
      (''6.7.*'', ''6.6.30'', False)]"

lemma glob_tests_hold: "\<forall>(pat, s, r) \<in> set glob_tests. glob_match (S pat) (S s) = r"
  by code_simp

end
