(* ===== verification/Extlinux.thy ===== *)
theory Extlinux
  imports Grubenv
begin

text \<open>
  src/src/boot/extlinux.rs: extlinux and syslinux configs. The state of the parser is the record
  \<open>ext_state\<close>; each line is one step.
\<close>

record ext_scan =
  ex_entries :: "boot_entry list"
  ex_default :: "nat option"

record ext_state =
  et_entries :: "boot_entry list"
  et_default_label :: "str option"
  et_current :: "boot_entry option"

definition split_keyword :: "str \<Rightarrow> (str \<times> str) option" where
  "split_keyword line =
     (case split_once_by is_whitespace line of
        None \<Rightarrow> None
      | Some (kw, rest) \<Rightarrow> Some (kw, str_trim rest))"

definition ext_resolve :: "str \<Rightarrow> str \<Rightarrow> str" where
  "ext_resolve base_dir p = (if starts_with (S ''/'') p then p else base_dir @ S ''/'' @ p)"

text \<open>\<open>append\<close>: the words of the command line, with \<open>initrd=\<close> lifted out.\<close>

fun ext_append :: "str \<Rightarrow> str list \<Rightarrow> str list \<Rightarrow> str list \<Rightarrow> str list \<times> str list" where
  "ext_append base_dir [] initrd cmdline_words = (initrd, cmdline_words)"
| "ext_append base_dir (word # ws) initrd cmdline_words =
     (case strip_prefix (S ''initrd='') word of
        Some paths \<Rightarrow>
          ext_append base_dir ws
            (initrd @ map (ext_resolve base_dir) (split_on (ch CHR '','') paths)) cmdline_words
      | None \<Rightarrow> ext_append base_dir ws initrd (cmdline_words @ [word]))"

definition ext_set :: "(boot_entry \<Rightarrow> boot_entry) \<Rightarrow> ext_state \<Rightarrow> ext_state" where
  "ext_set f st = st\<lparr>et_current := map_option f (et_current st)\<rparr>"

definition ext_keyword :: "str \<Rightarrow> str \<Rightarrow> str \<Rightarrow> ext_state \<Rightarrow> ext_state" where
  "ext_keyword base_dir kw rest st =
     (if kw = S ''default'' then st\<lparr>et_default_label := Some rest\<rparr>
      else if kw = S ''label'' then
        st\<lparr>et_entries := et_entries st @ (case et_current st of Some d \<Rightarrow> [d] | None \<Rightarrow> []),
           et_current := Some (default_entry_value\<lparr>be_title := Some rest, be_id := Some rest,
             be_source := SrcExtlinux\<rparr>)\<rparr>
      else if kw = S ''kernel'' \<or> kw = S ''linux'' then
        ext_set (\<lambda>cur. cur\<lparr>be_kernel := Some (ext_resolve base_dir rest)\<rparr>) st
      else if kw = S ''initrd'' then
        ext_set (\<lambda>cur. cur\<lparr>be_initrd := be_initrd cur @
          map (\<lambda>p. ext_resolve base_dir (str_trim p)) (split_on (ch CHR '','') rest)\<rparr>) st
      else if kw = S ''append'' then
        ext_set (\<lambda>cur.
          case ext_append base_dir (split_whitespace rest) (be_initrd cur) [] of
            (initrd, cmdline_words) \<Rightarrow>
              let cur = cur\<lparr>be_initrd := initrd\<rparr>
              in if cmdline_words \<noteq> [] then cur\<lparr>be_cmdline := Some (str_join (S '' '') cmdline_words)\<rparr>
                 else cur) st
      else st)"

definition ext_line :: "str \<Rightarrow> str \<Rightarrow> ext_state \<Rightarrow> ext_state" where
  "ext_line base_dir raw_line st =
     (let line = str_trim raw_line in
      if line = [] \<or> starts_with (S ''#'') line then st
      else case split_keyword line of
             None \<Rightarrow> st
           | Some (kw, rest) \<Rightarrow> ext_keyword base_dir (to_ascii_lowercase kw) rest st)"

fun ext_lines :: "str \<Rightarrow> str list \<Rightarrow> ext_state \<Rightarrow> ext_state" where
  "ext_lines base_dir [] st = st"
| "ext_lines base_dir (l # ls) st = ext_lines base_dir ls (ext_line base_dir l st)"

definition ext_entries :: "ext_state \<Rightarrow> boot_entry list" where
  "ext_entries st = et_entries st @ (case et_current st of Some d \<Rightarrow> [d] | None \<Rightarrow> [])"

definition ext_result :: "ext_state \<Rightarrow> ext_scan" where
  "ext_result st =
     (let entries = ext_entries st
      in \<lparr>ex_entries = entries,
          ex_default =
            opt_or (Option.bind (et_default_label st)
                      (\<lambda>d. position (\<lambda>e. be_id e = Some d) entries))
              (if entries = [] then None else Some 0)\<rparr>)"

definition ext_initial :: ext_state where
  "ext_initial = \<lparr>et_entries = [], et_default_label = None, et_current = None\<rparr>"

definition ext_parse_str :: "str \<Rightarrow> str \<Rightarrow> ext_scan" where
  "ext_parse_str s base_dir = ext_result (ext_lines base_dir (str_lines s) ext_initial)"

definition ext_parse :: "filesystem \<Rightarrow> str \<Rightarrow> ext_scan result" where
  "ext_parse fs cfg_path =
     rbind (fs_read_file fs cfg_path) (\<lambda>data.
       let base = (case rsplit_once (ch CHR ''/'') cfg_path of Some (d, _) \<Rightarrow> d | None \<Rightarrow> [])
       in Ok (ext_parse_str (from_utf8_lossy data) base))"

section \<open>The default and the paths\<close>

lemma ext_result_default: "default_ok (ex_entries (ext_result st)) (ex_default (ext_result st))"
proof (cases "ex_default (ext_result st)")
  case (Some i)
  then have "i < length (ext_entries st)"
    by (auto simp: ext_result_def Let_def bind_eq_Some_conv elim!: opt_or_cases dest: position_lt
        split: if_splits)
  with Some show ?thesis by (simp add: ext_result_def Let_def)
next
  case None
  then show ?thesis by (auto simp: ext_result_def Let_def opt_or_eq_None split: if_splits)
qed

text \<open>A base directory that is empty or absolute makes every path absolute.\<close>

definition base_ok :: "str \<Rightarrow> bool" where
  "base_ok base \<longleftrightarrow> base = [] \<or> is_abs base"

lemma ext_resolve_slash: "base_ok base \<Longrightarrow> is_abs (ext_resolve base p)"
  by (cases base) (auto simp: base_ok_def ext_resolve_def is_abs_def)

lemma ext_append_slash:
  "base_ok base \<Longrightarrow> \<forall>p \<in> set initrd. is_abs p \<Longrightarrow>
   \<forall>p \<in> set (fst (ext_append base ws initrd cw)). is_abs p"
proof (induction base ws initrd cw rule: ext_append.induct)
  case (2 base word ws initrd cw)
  show ?case
  proof (cases "strip_prefix (S ''initrd='') word")
    case None
    with 2 show ?thesis by simp
  next
    case (Some paths)
    have "\<forall>p \<in> set (initrd @ map (ext_resolve base) (split_on (ch CHR '','') paths)). is_abs p"
      using 2(3,4) by (auto simp: ext_resolve_slash)
    with 2(2) [OF Some 2(3)] Some show ?thesis by simp
  qed
qed simp

definition ext_paths_ok :: "ext_state \<Rightarrow> bool" where
  "ext_paths_ok st \<longleftrightarrow> (\<forall>e \<in> set (ext_entries st). entry_paths_ok e)"

lemma ext_paths_set:
  "ext_paths_ok st \<Longrightarrow> (\<And>e. entry_paths_ok e \<Longrightarrow> entry_paths_ok (f e)) \<Longrightarrow> ext_paths_ok (ext_set f st)"
  by (auto simp: ext_paths_ok_def ext_entries_def ext_set_def split: option.splits)

lemma ext_paths_keyword:
  assumes "base_ok base" and "ext_paths_ok st"
  shows "ext_paths_ok (ext_keyword base kw rest st)"
proof -
  have 1: "ext_paths_ok (ext_set (\<lambda>cur. cur\<lparr>be_kernel := Some (ext_resolve base rest)\<rparr>) st)"
    using assms by (intro ext_paths_set entry_paths_ok_kernel ext_resolve_slash)
  have 2: "ext_paths_ok (ext_set (\<lambda>cur. cur\<lparr>be_initrd := be_initrd cur @
      map (\<lambda>p. ext_resolve base (str_trim p)) (split_on (ch CHR '','') rest)\<rparr>) st)"
    using assms by (intro ext_paths_set entry_paths_ok_initrd)
      (auto simp: ext_resolve_slash entry_paths_ok_initrds)
  have 3: "ext_paths_ok (ext_set (\<lambda>cur.
      case ext_append base (split_whitespace rest) (be_initrd cur) [] of
        (initrd, cmdline_words) \<Rightarrow>
          let cur = cur\<lparr>be_initrd := initrd\<rparr>
          in if cmdline_words \<noteq> [] then cur\<lparr>be_cmdline := Some (str_join (S '' '') cmdline_words)\<rparr>
             else cur) st)"
  proof (rule ext_paths_set [OF assms(2)])
    fix e
    assume e: "entry_paths_ok e"
    have "\<forall>p \<in> set (fst (ext_append base (split_whitespace rest) (be_initrd e) [])). is_abs p"
      using ext_append_slash [OF assms(1)] entry_paths_ok_initrds [OF e] by blast
    then show "entry_paths_ok (case ext_append base (split_whitespace rest) (be_initrd e) [] of
        (initrd, cmdline_words) \<Rightarrow>
          let cur = e\<lparr>be_initrd := initrd\<rparr>
          in if cmdline_words \<noteq> [] then cur\<lparr>be_cmdline := Some (str_join (S '' '') cmdline_words)\<rparr>
             else cur)"
      using entry_paths_ok_initrd [OF e] by (auto simp: Let_def split: prod.splits)
  qed
  have 4: "ext_paths_ok (st\<lparr>et_entries := ext_entries st, et_current := Some (default_entry_value
      \<lparr>be_title := Some rest, be_id := Some rest, be_source := SrcExtlinux\<rparr>)\<rparr>)"
    using assms(2) by (auto simp: ext_paths_ok_def ext_entries_def entry_paths_ok_default)
  have 5: "ext_paths_ok (st\<lparr>et_default_label := x\<rparr>)" for x
    using assms(2) by (simp add: ext_paths_ok_def ext_entries_def)
  show ?thesis
    unfolding ext_keyword_def using 1 2 3 4 5 assms(2)
    by (auto simp: ext_entries_def)
qed

lemma ext_paths_lines:
  "base_ok base \<Longrightarrow> ext_paths_ok st \<Longrightarrow> ext_paths_ok (ext_lines base ls st)"
proof (induction base ls st rule: ext_lines.induct)
  case (2 base l ls st)
  have "ext_paths_ok (ext_line base l st)"
    using 2(2,3) ext_paths_keyword by (auto simp: ext_line_def Let_def split: option.splits)
  with 2(1,2) show ?case by simp
qed simp

lemma ext_parse_str_paths:
  "base_ok base \<Longrightarrow> \<forall>e \<in> set (ex_entries (ext_parse_str s base)). entry_paths_ok e"
  using ext_paths_lines [of base ext_initial "str_lines s"]
  by (simp add: ext_parse_str_def ext_result_def Let_def ext_paths_ok_def ext_initial_def ext_entries_def)

lemma ext_parse_Ok:
  assumes "ext_parse fs path = Ok e"
  shows "default_ok (ex_entries e) (ex_default e)"
    and "is_abs path \<Longrightarrow> \<forall>x \<in> set (ex_entries e). entry_paths_ok x"
proof -
  let ?base = "case rsplit_once (ch CHR ''/'') path of Some (d, _) \<Rightarrow> d | None \<Rightarrow> []"
  obtain data where e: "e = ext_parse_str (from_utf8_lossy data) ?base"
    using assms by (auto simp: ext_parse_def rbind_eq_Ok)
  show "default_ok (ex_entries e) (ex_default e)"
    by (simp add: e ext_parse_str_def ext_result_default)
  assume path: "is_abs path"
  have "base_ok ?base"
  proof (cases "rsplit_once (ch CHR ''/'') path")
    case (Some p)
    obtain d f where p: "p = (d, f)" by (cases p)
    with Some have "split_once (ch CHR ''/'') (rev path) = Some (rev f, rev d)"
      by (auto simp: rsplit_once_by_def)
    then have "rev path = rev f @ ch CHR ''/'' # rev d" by (auto simp: split_once_Some)
    then have "path = d @ ch CHR ''/'' # f" by (metis rev.simps(2) rev_append rev_rev_ident append.assoc append_Cons append_Nil)
    with path Some p show ?thesis by (cases d) (auto simp: base_ok_def is_abs_def)
  qed (simp add: base_ok_def)
  then show "\<forall>x \<in> set (ex_entries e). entry_paths_ok x" unfolding e by (rule ext_parse_str_paths)
qed

section \<open>Printing and reading back\<close>

text \<open>A config in the format, one label each with its kernel, its initrds and its arguments.\<close>

record ext_item =
  xi_label :: str
  xi_kernel :: str
  xi_initrds :: "str list"
  xi_args :: "str list"

definition ext_item_lines :: "ext_item \<Rightarrow> str list" where
  "ext_item_lines x =
     [keyword_line (S ''LABEL'') (xi_label x), keyword_line (S ''KERNEL'') (xi_kernel x)] @
     (if xi_initrds x = [] then [] else [keyword_line (S ''INITRD'') (str_join (S '','') (xi_initrds x))]) @
     (if xi_args x = [] then [] else [keyword_line (S ''APPEND'') (str_join (S '' '') (xi_args x))])"

definition ext_render :: "str \<Rightarrow> ext_item list \<Rightarrow> str" where
  "ext_render d items = unlines (keyword_line (S ''DEFAULT'') d # concat (map ext_item_lines items))"

definition ext_item_ok :: "ext_item \<Rightarrow> bool" where
  "ext_item_ok x \<longleftrightarrow>
     is_value (xi_label x) \<and> is_value (xi_kernel x) \<and>
     (\<forall>i \<in> set (xi_initrds x). is_word i \<and> ch CHR '','' \<notin> set i) \<and>
     (\<forall>w \<in> set (xi_args x). is_word w \<and> \<not> starts_with (S ''initrd='') w)"

definition ext_item_entry :: "str \<Rightarrow> ext_item \<Rightarrow> boot_entry" where
  "ext_item_entry base x =
     default_entry_value\<lparr>be_title := Some (xi_label x), be_id := Some (xi_label x),
       be_source := SrcExtlinux, be_kernel := Some (ext_resolve base (xi_kernel x)),
       be_initrd := map (ext_resolve base) (xi_initrds x),
       be_cmdline := (if xi_args x = [] then None else Some (str_join (S '' '') (xi_args x)))\<rparr>"

lemma ext_line_value:
  assumes "is_word k" and "is_value v" and "hd k \<noteq> ch CHR ''#''"
  shows "ext_line base (keyword_line k v) st = ext_keyword base (to_ascii_lowercase k) v st"
proof -
  obtain c cs where k: "k = c # cs" using assms(1) by (cases k) (auto simp: is_word_def)
  with assms(3) have "\<not> starts_with (S ''#'') (keyword_line k v)" by (simp add: keyword_line_def)
  with is_value_line [OF assms(1,2)] assms(2) k show ?thesis
    by (simp add: ext_line_def split_keyword_def Let_def keyword_line_def)
qed

lemma ext_append_plain:
  "\<forall>w \<in> set ws. \<not> starts_with (S ''initrd='') w \<Longrightarrow> ext_append base ws is cw = (is, cw @ ws)"
  by (induction base ws "is" cw rule: ext_append.induct) (auto simp: starts_with_def)

lemma ext_lines_append: "ext_lines base (a @ b) st = ext_lines base b (ext_lines base a st)"
  by (induction a arbitrary: st) simp_all


lemmas lower_eval = to_ascii_lowercase_def ascii_lower_def is_ascii_uppercase_def

lemma ext_item_run:
  assumes "ext_item_ok x"
  shows "ext_lines base (ext_item_lines x) st =
    \<lparr>et_entries = ext_entries st, et_default_label = et_default_label st,
     et_current = Some (ext_item_entry base x)\<rparr>"
proof -
  have words: "is_word (S ''LABEL'')" "is_word (S ''KERNEL'')" "is_word (S ''INITRD'')" "is_word (S ''APPEND'')"
    by (simp_all add: is_word_def is_whitespace_def)
  let ?st1 = "\<lparr>et_entries = ext_entries st, et_default_label = et_default_label st,
     et_current = Some (default_entry_value\<lparr>be_title := Some (xi_label x), be_id := Some (xi_label x),
       be_source := SrcExtlinux, be_kernel := Some (ext_resolve base (xi_kernel x))\<rparr>)\<rparr>"
  let ?st2 = "?st1\<lparr>et_current := Some (default_entry_value\<lparr>be_title := Some (xi_label x),
       be_id := Some (xi_label x), be_source := SrcExtlinux,
       be_kernel := Some (ext_resolve base (xi_kernel x)),
       be_initrd := map (ext_resolve base) (xi_initrds x)\<rparr>)\<rparr>"
  note ok = assms [unfolded ext_item_ok_def]
  have lk: "ext_lines base [keyword_line (S ''LABEL'') (xi_label x), keyword_line (S ''KERNEL'') (xi_kernel x)] st = ?st1"
    using ok ext_line_value [OF words(1), of "xi_label x" base] ext_line_value [OF words(2), of "xi_kernel x" base]
    by (simp add: lower_eval ext_keyword_def ext_set_def ext_entries_def)
  have initrds: "ext_lines base (if xi_initrds x = [] then []
      else [keyword_line (S ''INITRD'') (str_join (S '','') (xi_initrds x))]) ?st1 = ?st2"
  proof (cases "xi_initrds x = []")
    case True
    then show ?thesis by (simp add: default_entry_value_def)
  next
    case False
    have v: "is_value (str_join [ch CHR '',''] (xi_initrds x))" using False ok by (intro is_value_join) auto
    have "split_on (ch CHR '','') (str_join [ch CHR '',''] (xi_initrds x)) = xi_initrds x"
      using False ok by (intro split_on_join) auto
    moreover have "map (\<lambda>p. ext_resolve base (str_trim p)) (xi_initrds x) = map (ext_resolve base) (xi_initrds x)"
      using ok by (intro map_cong) (simp_all add: is_word_value)
    ultimately show ?thesis
      using False ext_line_value [OF words(3) v, of base ?st1]
      by (simp add: lower_eval ext_keyword_def ext_set_def default_entry_value_def)
  qed
  have args: "ext_lines base (if xi_args x = [] then []
      else [keyword_line (S ''APPEND'') (str_join (S '' '') (xi_args x))]) ?st2 =
      ?st2\<lparr>et_current := Some (ext_item_entry base x)\<rparr>"
  proof (cases "xi_args x = []")
    case True
    then show ?thesis by (simp add: default_entry_value_def ext_item_entry_def)
  next
    case False
    have v: "is_value (str_join [32] (xi_args x))" using False ok by (intro is_value_join) auto
    have "split_whitespace (str_join [32] (xi_args x)) = xi_args x"
      using ok by (intro split_whitespace_join) auto
    moreover have "ext_append base (xi_args x) is [] = (is, xi_args x)" for "is"
      using ok ext_append_plain [of "xi_args x" base "is" "[]"] by auto
    ultimately show ?thesis
      using False ext_line_value [OF words(4) v, of base ?st2]
      by (simp add: lower_eval ext_keyword_def ext_set_def default_entry_value_def ext_item_entry_def)
  qed
  show ?thesis by (simp only: ext_item_lines_def ext_lines_append lk initrds args) simp
qed


lemma ext_items_run:
  "\<forall>x \<in> set items. ext_item_ok x \<Longrightarrow>
   ext_entries (ext_lines base (concat (map ext_item_lines items)) st) =
     ext_entries st @ map (ext_item_entry base) items \<and>
   et_default_label (ext_lines base (concat (map ext_item_lines items)) st) = et_default_label st"
proof (induction items arbitrary: st)
  case (Cons x items)
  let ?st = "ext_lines base (ext_item_lines x) st"
  have "?st = \<lparr>et_entries = ext_entries st, et_default_label = et_default_label st,
      et_current = Some (ext_item_entry base x)\<rparr>"
    using Cons.prems by (intro ext_item_run) simp
  then have "ext_entries ?st = ext_entries st @ [ext_item_entry base x]"
    "et_default_label ?st = et_default_label st"
    by (simp_all add: ext_entries_def)
  with Cons.IH [of ?st] Cons.prems show ?case by (simp add: ext_lines_append)
qed (simp add: ext_entries_def)

lemma ext_item_lines_ok:
  "ext_item_ok x \<Longrightarrow> l \<in> set (ext_item_lines x) \<Longrightarrow> 10 \<notin> set l \<and> (l = [] \<or> last l \<noteq> 13)"
proof -
  assume ok: "ext_item_ok x" and l: "l \<in> set (ext_item_lines x)"
  note ok = ok [unfolded ext_item_ok_def]
  have words: "is_word (S ''LABEL'')" "is_word (S ''KERNEL'')" "is_word (S ''INITRD'')" "is_word (S ''APPEND'')"
    by (simp_all add: is_word_def is_whitespace_def)
  have "is_value (str_join (S '','') (xi_initrds x))" if "xi_initrds x \<noteq> []"
    using that ok is_value_join [of "xi_initrds x" "ch CHR '',''"] by simp
  moreover have "is_value (str_join (S '' '') (xi_args x))" if "xi_args x \<noteq> []"
    using that ok is_value_join [of "xi_args x" 32] by simp
  ultimately have "is_value l"
    using l ok words by (auto simp: ext_item_lines_def is_value_line(1) split: if_splits)
  then show ?thesis by (rule is_value_line_ok)
qed

text \<open>
  C15: an extlinux config written in the format reads back as what was written: one entry per label in
  order, with its kernel and initrds resolved against the directory of the config, its arguments
  joined by blanks (none: no command line), and as default the first label that the \<open>DEFAULT\<close> line
  names, or the first of all.
\<close>

theorem ext_roundtrip:
  assumes "is_value d" and "\<forall>x \<in> set items. ext_item_ok x"
  shows "ext_parse_str (ext_render d items) base =
    \<lparr>ex_entries = map (ext_item_entry base) items,
     ex_default = opt_or (position (\<lambda>x. xi_label x = d) items) (if items = [] then None else Some 0)\<rparr>"
proof -
  have w: "is_word (S ''DEFAULT'')" by (simp add: is_word_def is_whitespace_def)
  let ?ls = "keyword_line (S ''DEFAULT'') d # concat (map ext_item_lines items)"
  have "\<forall>l \<in> set ?ls. 10 \<notin> set l \<and> (l = [] \<or> last l \<noteq> 13)"
    using is_value_line_ok [OF is_value_line(1) [OF w assms(1)]] assms(2) ext_item_lines_ok
    by (simp only: list.set set_concat set_map) blast
  then have lines: "str_lines (ext_render d items) = ?ls"
    unfolding ext_render_def by (rule str_lines_unlines)
  let ?st = "\<lparr>et_entries = [], et_default_label = Some d, et_current = None\<rparr>"
  have "ext_line base (keyword_line (S ''DEFAULT'') d) ext_initial = ?st"
    using ext_line_value [OF w assms(1), of base ext_initial]
    by (simp add: lower_eval ext_keyword_def ext_initial_def)
  then have run: "ext_lines base ?ls ext_initial = ext_lines base (concat (map ext_item_lines items)) ?st"
    by (simp only: ext_lines.simps)
  have pos: "position (\<lambda>e. be_id e = Some d) (map (ext_item_entry base) items) =
      position (\<lambda>x. xi_label x = d) items"
    by (simp add: position_map ext_item_entry_def)
  have "ext_entries ?st = []" by (simp add: ext_entries_def)
  with ext_items_run [OF assms(2), of base ?st]
  have es: "ext_entries (ext_lines base ?ls ext_initial) = map (ext_item_entry base) items"
    and lab: "et_default_label (ext_lines base ?ls ext_initial) = Some d"
    unfolding run by simp_all
  show ?thesis unfolding ext_parse_str_def lines ext_result_def Let_def es lab by (simp add: pos)
qed


lemma ext_roundtrip_witness:
  "ext_parse_str (ext_render (S ''b'')
      [\<lparr>xi_label = S ''a'', xi_kernel = S ''k'', xi_initrds = [], xi_args = []\<rparr>,
       \<lparr>xi_label = S ''b'', xi_kernel = S ''/l'', xi_initrds = [S ''i'', S ''j''], xi_args = [S ''ro'', S ''x=1'']\<rparr>])
     (S ''/e'') =
   \<lparr>ex_entries =
      [default_entry_value\<lparr>be_title := Some (S ''a''), be_id := Some (S ''a''), be_source := SrcExtlinux,
         be_kernel := Some (S ''/e/k'')\<rparr>,
       default_entry_value\<lparr>be_title := Some (S ''b''), be_id := Some (S ''b''), be_source := SrcExtlinux,
         be_kernel := Some (S ''/l''), be_initrd := [S ''/e/i'', S ''/e/j''], be_cmdline := Some (S ''ro x=1'')\<rparr>],
    ex_default = Some 1\<rparr>"
  by (subst ext_roundtrip)
    (simp_all add: ext_item_ok_def is_value_def is_word_def is_whitespace_def ext_item_entry_def
      ext_resolve_def default_entry_value_def)

section \<open>The unit tests of the module\<close>

definition alpine_cfg :: "str list" where
  "alpine_cfg =
     [[], S ''DEFAULT virt'', S ''PROMPT 0'', S ''LABEL virt'', S ''  MENU LABEL Linux virt'',
      S ''  KERNEL /boot/vmlinuz-virt'',
      S ''  APPEND initrd=/boot/initramfs-virt root=UUID=abc modules=virtio console=hvc0'',
      S ''LABEL lts'', S ''  KERNEL /boot/vmlinuz-lts'', S ''  INITRD /boot/initramfs-lts'',
      S ''  APPEND root=UUID=abc'']"

definition alpine_expected :: "boot_entry list" where
  "alpine_expected =
     [default_entry_value\<lparr>be_title := Some (S ''virt''), be_id := Some (S ''virt''),
        be_source := SrcExtlinux, be_kernel := Some (S ''/boot/vmlinuz-virt''),
        be_initrd := [S ''/boot/initramfs-virt''],
        be_cmdline := Some (S ''root=UUID=abc modules=virtio console=hvc0'')\<rparr>,
      default_entry_value\<lparr>be_title := Some (S ''lts''), be_id := Some (S ''lts''),
        be_source := SrcExtlinux, be_kernel := Some (S ''/boot/vmlinuz-lts''),
        be_initrd := [S ''/boot/initramfs-lts''], be_cmdline := Some (S ''root=UUID=abc'')\<rparr>]"

definition relative_cfg :: "str list" where
  "relative_cfg = [S ''label l'', S '' kernel vmlinuz'', S '' initrd a.img,b.img'']"

definition relative_expected :: "boot_entry list" where
  "relative_expected =
     [default_entry_value\<lparr>be_title := Some (S ''l''), be_id := Some (S ''l''), be_source := SrcExtlinux,
        be_kernel := Some (S ''/extlinux/vmlinuz''),
        be_initrd := [S ''/extlinux/a.img'', S ''/extlinux/b.img'']\<rparr>]"

lemma ext_line_eval:
  "str_trim raw = c # cs \<Longrightarrow> c \<noteq> ch CHR ''#'' \<Longrightarrow> split_once_by is_whitespace (c # cs) = Some (k, v) \<Longrightarrow>
   str_trim v = v' \<Longrightarrow> to_ascii_lowercase k = k' \<Longrightarrow> ext_line base raw st = ext_keyword base k' v' st"
  "str_trim raw = [] \<Longrightarrow> ext_line base raw st = st"
  by (simp_all add: ext_line_def split_keyword_def)

lemmas ext_eval = trim_eval ext_line_eval ext_parse_str_def ext_result_def ext_initial_def
  ext_entries_def Let_def ext_keyword_def ext_set_def lower_eval ext_resolve_def
  split_whitespace_def default_entry_value_def

lemma alpine_test:
  "ext_parse_str (unlines alpine_cfg) (S ''/extlinux'') =
   \<lparr>ex_entries = alpine_expected, ex_default = Some 0\<rparr>"
proof -
  have ls: "str_lines (unlines alpine_cfg) = alpine_cfg"
    by (rule str_lines_unlines) (simp add: alpine_cfg_def)
  have run: "ext_lines (S ''/extlinux'') alpine_cfg ext_initial =
      \<lparr>et_entries = butlast alpine_expected, et_default_label = Some (S ''virt''),
       et_current = Some (last alpine_expected)\<rparr>"
    by (simp add: alpine_cfg_def alpine_expected_def ext_eval)
  show ?thesis unfolding ext_parse_str_def ls run
    by (simp add: ext_result_def ext_entries_def alpine_expected_def default_entry_value_def)
qed

lemma relative_test:
  "ext_parse_str (unlines relative_cfg) (S ''/extlinux'') =
   \<lparr>ex_entries = relative_expected, ex_default = Some 0\<rparr>"
proof -
  have ls: "str_lines (unlines relative_cfg) = relative_cfg"
    by (rule str_lines_unlines) (simp add: relative_cfg_def)
  show ?thesis unfolding ext_parse_str_def ls
    by (simp add: relative_cfg_def relative_expected_def ext_eval)
qed

end
