(* ===== verification/Boot.thy ===== *)
theory Boot
  imports Grub Bls Extlinux
begin

text \<open>
  src/src/boot/mod.rs: the scan of one filesystem. \<open>scan_choice\<close> collects the configs and picks the
  authoritative source; \<open>boot_scan_fs\<close> (\<open>scan\<close>) then drops the entries whose kernel is missing. The lemmas
  show that the scan always succeeds, which entries it keeps and which source they come from, that its
  default is one of them, and that their paths are absolute.
\<close>

definition BOOT_PREFIXES :: "str list" where
  "BOOT_PREFIXES = [S '''', S ''/boot'']"

section \<open>GRUB configs\<close>

fun efi_grub_paths :: "filesystem \<Rightarrow> str list \<Rightarrow> str list" where
  "efi_grub_paths fs [] = []"
| "efi_grub_paths fs (efi # es) =
     (case fs_read_dir fs efi of
        Inr dirs \<Rightarrow>
          map (\<lambda>d. efi @ S ''/'' @ de_name d @ S ''/grub.cfg'') (filter (\<lambda>d. de_kind d = KDir) dirs)
      | Inl _ \<Rightarrow> efi_grub_paths fs es)"

definition grub_paths :: "filesystem \<Rightarrow> str list" where
  "grub_paths fs =
     concat (map (\<lambda>pre. map (\<lambda>cfg. pre @ cfg) [S ''/grub/grub.cfg'', S ''/grub2/grub.cfg''])
               BOOT_PREFIXES) @
     efi_grub_paths fs [S ''/EFI'', S ''/efi'']"

text \<open>The loop over them: the configs found, the first scan with entries, and whether any uses BLS.\<close>

fun scan_grub ::
  "filesystem \<Rightarrow> env \<Rightarrow> str list \<Rightarrow> str list \<Rightarrow> grub_scan option \<Rightarrow> bool \<Rightarrow>
   str list \<times> grub_scan option \<times> bool" where
  "scan_grub fs env [] configs found uses_bls = (configs, found, uses_bls)"
| "scan_grub fs env (path # ps) configs found uses_bls =
     (if \<not> fs_exists fs path then scan_grub fs env ps configs found uses_bls
      else
        let configs = configs @ [path]
        in case grub_parse fs path env of
             Inl _ \<Rightarrow> scan_grub fs env ps configs found uses_bls
           | Inr g \<Rightarrow>
               scan_grub fs env ps configs
                 (if gs_entries g \<noteq> [] \<and> found = None then Some g else found)
                 (uses_bls \<or> gs_uses_bls g))"

section \<open>BLS\<close>

text \<open>The \<open>default\<close> glob of loader.conf: the first line of the file that sets a value.\<close>

fun loader_default :: "str list \<Rightarrow> str option" where
  "loader_default [] = None"
| "loader_default (line # ls) =
     (case strip_prefix (S ''default'') (str_trim line) of
        None \<Rightarrow> loader_default ls
      | Some rest \<Rightarrow>
          let v = str_trim rest
          in if v \<noteq> [] then Some (trim_end_str (S ''.conf'') v) else loader_default ls)"

fun loader_conf_default :: "filesystem \<Rightarrow> str list \<Rightarrow> str list \<Rightarrow> str option \<times> str list" where
  "loader_conf_default fs [] configs = (None, configs)"
| "loader_conf_default fs (pre # ps) configs =
     (let path = pre @ S ''/loader/loader.conf'' in
      case fs_read_file fs path of
        Inl _ \<Rightarrow> loader_conf_default fs ps configs
      | Inr data \<Rightarrow>
          (case loader_default (str_lines (from_utf8_lossy data)) of
             Some v \<Rightarrow> (Some v, configs @ [path])
           | None \<Rightarrow> loader_conf_default fs ps (configs @ [path])))"

fun scan_bls ::
  "filesystem \<Rightarrow> env \<Rightarrow> str option \<Rightarrow> str list \<Rightarrow> str list \<Rightarrow> bls_scan option \<times> str list" where
  "scan_bls fs env sd [] configs = (None, configs)"
| "scan_bls fs env sd (pre # ps) configs =
     (let dir = pre @ S ''/loader/entries'' in
      if \<not> fs_exists fs dir then scan_bls fs env sd ps configs
      else case bls_parse_dir fs dir env sd configs of
             (Inl _, configs') \<Rightarrow> scan_bls fs env sd ps configs'
           | (Inr b, configs') \<Rightarrow>
               if bl_entries b \<noteq> [] then (Some b, configs') else scan_bls fs env sd ps configs')"

section \<open>extlinux\<close>

definition ext_config_paths :: "str list" where
  "ext_config_paths =
     concat (map (\<lambda>pre. map (\<lambda>cfg. pre @ cfg)
         [S ''/extlinux/extlinux.conf'', S ''/extlinux.conf'', S ''/syslinux/syslinux.cfg'',
          S ''/syslinux/extlinux.conf''])
       BOOT_PREFIXES)"

fun scan_ext ::
  "filesystem \<Rightarrow> str list \<Rightarrow> str list \<Rightarrow> ext_scan option \<Rightarrow> ext_scan option \<times> str list" where
  "scan_ext fs [] configs found = (found, configs)"
| "scan_ext fs (path # ps) configs found =
     (if \<not> fs_exists fs path then scan_ext fs ps configs found
      else
        let configs = configs @ [path]
        in if found = None
           then case ext_parse fs path of
                  Inr e \<Rightarrow> scan_ext fs ps configs (if ex_entries e \<noteq> [] then Some e else None)
                | Inl _ \<Rightarrow> scan_ext fs ps configs None
           else scan_ext fs ps configs found)"

section \<open>No usable config\<close>

text \<open>\<open>rsplit('/').next()\<close>: the last component.\<close>

abbreviation base_name :: "str \<Rightarrow> str" where
  "base_name p \<equiv> after_last (ch CHR ''/'') p"

definition str_contains :: "str \<Rightarrow> str \<Rightarrow> bool" where
  "str_contains needle s \<longleftrightarrow> list_ex (\<lambda>i. starts_with needle (drop i s)) [0..<Suc (length s)]"

definition kernel_version_of :: "str \<Rightarrow> str option" where
  "kernel_version_of name =
     opt_or (strip_prefix (S ''vmlinuz-'') name) (strip_prefix (S ''Image-'') name)"

definition initrd_version_of :: "str \<Rightarrow> str option" where
  "initrd_version_of name =
     opt_or (opt_or (map_option (trim_end_str (S ''.img'')) (strip_prefix (S ''initramfs-'') name))
               (strip_prefix (S ''initrd.img-'') name))
       (map_option (trim_end_str (S ''.img'')) (strip_prefix (S ''initrd-'') name))"

fun sort_files ::
  "str \<Rightarrow> dir_entry list \<Rightarrow> (str \<times> str) list \<Rightarrow> (str \<times> str) list \<Rightarrow>
   (str \<times> str) list \<times> (str \<times> str) list" where
  "sort_files pre [] kernels initrds = (kernels, initrds)"
| "sort_files pre (e # es) kernels initrds =
     (if de_kind e = KDir then sort_files pre es kernels initrds
      else
        let path = pre @ S ''/'' @ de_name e
        in case kernel_version_of (de_name e) of
             Some v \<Rightarrow>
               if \<not> str_contains (S ''rescue'') v \<and> \<not> str_contains (S ''kdump'') v
               then sort_files pre es (kernels @ [(v, path)]) initrds
               else sort_files pre es kernels initrds
           | None \<Rightarrow>
               (case initrd_version_of (de_name e) of
                  Some v \<Rightarrow> sort_files pre es kernels (initrds @ [(v, path)])
                | None \<Rightarrow> sort_files pre es kernels initrds))"

definition fallback_entry :: "(str \<times> str) list \<Rightarrow> str \<times> str \<Rightarrow> boot_entry" where
  "fallback_entry initrds k =
     (case k of (version, kern) \<Rightarrow>
        default_entry_value\<lparr>
          be_kernel := Some kern,
          be_initrd := (case find (\<lambda>i. fst i = version) initrds of Some i \<Rightarrow> [snd i] | None \<Rightarrow> []),
          be_version := Some version, be_source := SrcFallback\<rparr>)"

fun fallback_entries :: "filesystem \<Rightarrow> str list \<Rightarrow> boot_entry list \<Rightarrow> boot_entry list" where
  "fallback_entries fs [] entries = entries"
| "fallback_entries fs (pre # ps) entries =
     (case fs_read_dir fs (if pre = [] then S ''/'' else pre) of
        Inl _ \<Rightarrow> fallback_entries fs ps entries
      | Inr listing \<Rightarrow>
          (case sort_files pre listing [] [] of
             (kernels, initrds) \<Rightarrow>
               fallback_entries fs ps (entries @ map (fallback_entry initrds) kernels)))"

definition fallback_cmp :: "boot_entry \<Rightarrow> boot_entry \<Rightarrow> ordering" where
  "fallback_cmp a b = vercmp (unwrap_or (be_version b) []) (unwrap_or (be_version a) [])"

fun fallback_links :: "filesystem \<Rightarrow> boot_entry list \<Rightarrow> str list \<Rightarrow> nat option \<Rightarrow> nat option" where
  "fallback_links fs entries [] d = d"
| "fallback_links fs entries (link # ls) d =
     (case fs_read_link fs link of
        None \<Rightarrow> fallback_links fs entries ls d
      | Some target \<Rightarrow>
          (case position (\<lambda>e. case be_kernel e of
                            Some k \<Rightarrow> base_name k = base_name target | None \<Rightarrow> False) entries of
             Some i \<Rightarrow> Some i
           | None \<Rightarrow> fallback_links fs entries ls d))"

definition fallback_scan :: "filesystem \<Rightarrow> boot_entry list \<times> nat option" where
  "fallback_scan fs =
     (let entries = sort_by fallback_cmp (fallback_entries fs BOOT_PREFIXES [])
      in (entries,
          fallback_links fs entries [S ''/vmlinuz'', S ''/boot/vmlinuz'']
            (if entries = [] then None else Some 0)))"

section \<open>The scan\<close>

definition boot_entry_usable :: "filesystem \<Rightarrow> boot_entry \<Rightarrow> bool" where
  "boot_entry_usable fs e \<longleftrightarrow>
     be_chainloader e \<noteq> None \<or> (case be_kernel e of Some k \<Rightarrow> fs_exists fs k | None \<Rightarrow> False)"

definition drop_stale_entries ::
  "filesystem \<Rightarrow> boot_entry list \<Rightarrow> nat option \<Rightarrow> (boot_entry list \<times> nat option) result" where
  "drop_stale_entries fs entries dflt = retain entries dflt (map (boot_entry_usable fs) entries)"

text \<open>What the configs say, with the list of them.\<close>

definition scan_configs ::
  "filesystem \<Rightarrow> grub_scan option \<times> bool \<times> bls_scan option \<times> ext_scan option \<times> str list" where
  "scan_configs fs =
     (let env = grubenv_load fs in
      case scan_grub fs env (grub_paths fs) [] None False of
        (configs, g, uses_bls) \<Rightarrow>
          (case loader_conf_default fs BOOT_PREFIXES configs of
             (sd, configs) \<Rightarrow>
               (case scan_bls fs env sd BOOT_PREFIXES configs of
                  (b, configs) \<Rightarrow>
                    (case scan_ext fs ext_config_paths configs None of
                       (e, configs) \<Rightarrow> (g, uses_bls, b, e, configs)))))"

definition pick_source ::
  "filesystem \<Rightarrow> grub_scan option \<Rightarrow> bool \<Rightarrow> bls_scan option \<Rightarrow> ext_scan option \<Rightarrow>
   boot_entry list \<times> nat option" where
  "pick_source fs g uses_bls b e =
     (case (if uses_bls then b else None) of
        Some b \<Rightarrow> (bl_entries b, bl_default b)
      | None \<Rightarrow>
          (case g of
             Some g \<Rightarrow> (gs_entries g, gs_default g)
           | None \<Rightarrow>
               (case b of
                  Some b \<Rightarrow> (bl_entries b, bl_default b)
                | None \<Rightarrow>
                    (case e of
                       Some e \<Rightarrow> (ex_entries e, ex_default e)
                     | None \<Rightarrow> fallback_scan fs))))"

definition scan_choice :: "filesystem \<Rightarrow> (boot_entry list \<times> nat option) \<times> str list" where
  "scan_choice fs =
     (case scan_configs fs of (g, uses_bls, b, e, configs) \<Rightarrow> (pick_source fs g uses_bls b e, configs))"

definition boot_scan_fs :: "filesystem \<Rightarrow> boot_scan result" where
  "boot_scan_fs fs =
     (case scan_choice fs of
        ((entries, dflt), configs) \<Rightarrow>
          rbind (drop_stale_entries fs entries dflt) (\<lambda>(entries, dflt).
            Ok \<lparr>bs_entries = entries, bs_default = dflt, bs_configs = configs\<rparr>))"

section \<open>The kernel's build options\<close>

fun first_release :: "str \<Rightarrow> str list \<Rightarrow> str option" where
  "first_release base [] = None"
| "first_release base (p # ps) =
     (case strip_prefix p base of Some rel \<Rightarrow> Some rel | None \<Rightarrow> first_release base ps)"

definition entry_kernel_releases :: "boot_entry \<Rightarrow> str list" where
  "entry_kernel_releases e =
     (let out = (case be_kernel e of
                   Some kern \<Rightarrow>
                     (case first_release (base_name kern)
                             [S ''vmlinuz-'', S ''Image-'', S ''vmlinux-'', S ''kernel-''] of
                        Some rel \<Rightarrow> [rel]
                      | None \<Rightarrow> [])
                 | None \<Rightarrow> [])
      in case be_version e of
           Some v \<Rightarrow> if \<not> list_ex (\<lambda>r. r = v) out then out @ [v] else out
         | None \<Rightarrow> out)"

definition kconfig_enabled :: "bytes \<Rightarrow> str \<Rightarrow> bool" where
  "kconfig_enabled data name \<longleftrightarrow>
     list_ex (\<lambda>l. str_trim l = name @ S ''=y'') (str_lines (from_utf8_lossy data))"

fun dma_config :: "filesystem \<Rightarrow> str list \<Rightarrow> bool option" where
  "dma_config fs [] = None"
| "dma_config fs (path # ps) =
     (case fs_read_file fs path of
        Inr data \<Rightarrow> Some (kconfig_enabled data (S ''CONFIG_DMA_RESTRICTED_POOL''))
      | Inl _ \<Rightarrow> dma_config fs ps)"

definition dma_config_paths :: "boot_entry \<Rightarrow> str list" where
  "dma_config_paths e =
     concat (map (\<lambda>rel. map (\<lambda>pre. pre @ S ''/config-'' @ rel) BOOT_PREFIXES)
       (entry_kernel_releases e))"

definition dma_restricted_pool :: "filesystem \<Rightarrow> boot_entry \<Rightarrow> bool option" where
  "dma_restricted_pool fs e = dma_config fs (dma_config_paths e)"

section \<open>What the configs yield\<close>

text \<open>The configs of each kind that exist and parse, in the order of the candidates.\<close>

definition grub_configs :: "filesystem \<Rightarrow> env \<Rightarrow> str list \<Rightarrow> grub_scan list" where
  "grub_configs fs env =
     List.map_filter (\<lambda>p. if fs_exists fs p then res_ok (grub_parse fs p env) else None)"

definition bls_dirs :: "filesystem \<Rightarrow> env \<Rightarrow> str option \<Rightarrow> str list \<Rightarrow> bls_scan list" where
  "bls_dirs fs env sd =
     List.map_filter (\<lambda>pre.
       if fs_exists fs (pre @ S ''/loader/entries'')
       then res_ok (fst (bls_parse_dir fs (pre @ S ''/loader/entries'') env sd [])) else None)"

definition ext_configs :: "filesystem \<Rightarrow> str list \<Rightarrow> ext_scan list" where
  "ext_configs fs = List.map_filter (\<lambda>p. if fs_exists fs p then res_ok (ext_parse fs p) else None)"

lemma scan_grub_eq:
  "snd (scan_grub fs env ps configs found ub) =
    (opt_or found (find (\<lambda>g. gs_entries g \<noteq> []) (grub_configs fs env ps)),
     ub \<or> list_ex gs_uses_bls (grub_configs fs env ps))"
  by (induction fs env ps configs found ub rule: scan_grub.induct)
    (auto simp: grub_configs_def map_filter_simps Let_def split: sum.splits)

lemma bls_parse_dir_configs: "fst (bls_parse_dir fs dir env sd configs) = fst (bls_parse_dir fs dir env sd [])"
  using bls_parse_dir_items [of fs dir _ env sd]
  by (cases "fs_read_dir fs dir") (simp_all add: bls_parse_dir_def [of fs dir env sd])

lemma scan_bls_eq:
  "fst (scan_bls fs env sd ps configs) = find (\<lambda>b. bl_entries b \<noteq> []) (bls_dirs fs env sd ps)"
proof (induction fs env sd ps configs rule: scan_bls.induct)
  case (2 fs env sd pre ps configs)
  let ?dir = "pre @ S ''/loader/entries''"
  show ?case
  proof (cases "fs_exists fs ?dir")
    case False
    with 2 show ?thesis by (simp add: bls_dirs_def map_filter_simps)
  next
    case True
    obtain r configs' where r: "bls_parse_dir fs ?dir env sd configs = (r, configs')" by fastforce
    with bls_parse_dir_configs [of fs ?dir env sd configs]
    have "fst (bls_parse_dir fs ?dir env sd []) = r" by simp
    with 2 True r show ?thesis by (cases r) (auto simp: bls_dirs_def map_filter_simps)
  qed
qed (simp add: bls_dirs_def map_filter_simps)

lemma scan_ext_eq:
  "fst (scan_ext fs ps configs found) = opt_or found (find (\<lambda>e. ex_entries e \<noteq> []) (ext_configs fs ps))"
  by (induction fs ps configs found rule: scan_ext.induct)
    (auto simp: ext_configs_def map_filter_simps Let_def split: sum.splits)

section \<open>Where the entries come from\<close>

lemma bls_lines_source: "be_source (fst (bls_lines env ls st)) = be_source (fst st)"
proof (induction env ls st rule: bls_lines.induct)
  case (2 env l ls st)
  have "be_source (fst (bls_keyword env key value st)) = be_source (fst st)" for key "value"
    by (cases st) (simp add: bls_keyword_def)
  then have "be_source (fst (bls_line env l st)) = be_source (fst st)"
    by (simp add: bls_line_def Let_def split: option.splits)
  with 2 show ?case by simp
qed simp

lemma bls_entry_source: "be_source (bls_entry env stem contents) = SrcBls"
proof -
  let ?st = "(default_entry_value\<lparr>be_id := Some stem, be_source := SrcBls\<rparr>, [])"
  obtain e os where run: "bls_lines env (str_lines contents) ?st = (e, os)" by fastforce
  with bls_lines_source [of env "str_lines contents" ?st] have "be_source e = SrcBls" by simp
  with run show ?thesis by (simp add: bls_entry_def Let_def)
qed

lemma bls_item_source: "bls_item fs dir env f = Some (i, e) \<Longrightarrow> be_source e = SrcBls"
  by (auto simp: bls_item_def bls_entry_source split: if_splits)

lemma bls_parse_dir_source:
  assumes "fst (bls_parse_dir fs dir env sd configs) = Ok b" and "e \<in> set (bl_entries b)"
  shows "be_source e = SrcBls"
proof -
  obtain listing where l: "fs_read_dir fs dir = Ok listing"
    using assms(1) by (cases "fs_read_dir fs dir") (auto simp: bls_parse_dir_def)
  with bls_parse_dir_items [OF l, of env sd configs] assms(1)
  have "bl_entries b = map snd (sort_by bls_cmp (List.map_filter (bls_item fs dir env) listing))"
    by (auto simp: Let_def)
  with assms(2) show ?thesis by (auto simp: map_filter_def dest: bls_item_source)
qed

definition grub_sources_ok :: "grub_state \<Rightarrow> bool" where
  "grub_sources_ok st \<longleftrightarrow> (\<forall>e \<in> set (grub_finish st). be_source (gr_entry e) = SrcGrub)"

lemma grub_sources_outside:
  "grub_sources_ok st \<Longrightarrow> st_current st = None \<Longrightarrow> grub_sources_ok (grub_outside env words ob st)"
  by (auto simp: grub_sources_ok_def grub_outside_def open_menuentry_def open_submenu_def grub_finish_def
      Let_def split: option.splits)

lemma grub_sources_braces: "grub_sources_ok st \<Longrightarrow> grub_sources_ok (grub_braces line ob st)"
  by (auto simp: grub_sources_ok_def grub_braces_def grub_finish_def Let_def split: option.splits)

lemma grub_body_source [simp]: "be_source (grub_body env words e) = be_source e"
  by (simp add: grub_body_def Let_def)

lemma grub_sources_line: "grub_sources_ok st \<Longrightarrow> grub_sources_ok (grub_line env l st)"
  by (auto simp: grub_line_def grub_words_def Let_def split: option.splits
      intro!: grub_sources_braces grub_sources_outside)
    (auto simp: grub_sources_ok_def grub_finish_def)

lemma grub_parse_str_source: "e \<in> set (gs_entries (grub_parse_str s env)) \<Longrightarrow> be_source e = SrcGrub"
proof -
  have "grub_sources_ok st \<Longrightarrow> grub_sources_ok (grub_lines env ls st)" for ls st
    by (induction env ls st rule: grub_lines.induct) (auto intro: grub_sources_line)
  from this [of grub_initial "str_lines s"] have "grub_sources_ok (grub_lines env (str_lines s) grub_initial)"
    by (simp add: grub_sources_ok_def grub_initial_def grub_finish_def)
  then show "e \<in> set (gs_entries (grub_parse_str s env)) \<Longrightarrow> be_source e = SrcGrub"
    by (auto simp: grub_parse_str_def grub_result_def grub_sources_ok_def Let_def)
qed

definition ext_sources_ok :: "ext_state \<Rightarrow> bool" where
  "ext_sources_ok st \<longleftrightarrow> (\<forall>e \<in> set (ext_entries st). be_source e = SrcExtlinux)"

lemma ext_sources_set:
  "ext_sources_ok st \<Longrightarrow> (\<And>e. be_source (f e) = be_source e) \<Longrightarrow> ext_sources_ok (ext_set f st)"
  by (auto simp: ext_sources_ok_def ext_entries_def ext_set_def split: option.splits)

lemma ext_sources_line: "ext_sources_ok st \<Longrightarrow> ext_sources_ok (ext_line base l st)"
  by (auto simp: ext_line_def ext_keyword_def Let_def intro!: ext_sources_set split: option.splits prod.splits)
    (auto simp: ext_sources_ok_def ext_entries_def split: option.splits)

lemma ext_parse_str_source: "e \<in> set (ex_entries (ext_parse_str s base)) \<Longrightarrow> be_source e = SrcExtlinux"
proof -
  have "ext_sources_ok st \<Longrightarrow> ext_sources_ok (ext_lines base ls st)" for ls st
    by (induction base ls st rule: ext_lines.induct) (auto intro: ext_sources_line)
  from this [of ext_initial "str_lines s"] have "ext_sources_ok (ext_lines base (str_lines s) ext_initial)"
    by (simp add: ext_sources_ok_def ext_initial_def ext_entries_def)
  then show "e \<in> set (ex_entries (ext_parse_str s base)) \<Longrightarrow> be_source e = SrcExtlinux"
    by (auto simp: ext_parse_str_def ext_result_def ext_sources_ok_def Let_def)
qed

section \<open>The fallback\<close>

interpretation fallback_order: total_preorder_cmp fallback_cmp
  unfolding fallback_cmp_def
  by (rule total_preorder_cmp_flip [OF total_preorder_cmp_key])
    (rule vercmp_order.total_preorder_cmp_axioms)

text \<open>What a file of a listing contributes, and what a directory does.\<close>

definition fallback_kernel :: "str \<Rightarrow> dir_entry \<Rightarrow> (str \<times> str) option" where
  "fallback_kernel pre e =
     (if de_kind e = KDir then None
      else case kernel_version_of (de_name e) of
             Some v \<Rightarrow> if str_contains (S ''rescue'') v \<or> str_contains (S ''kdump'') v then None
                       else Some (v, pre @ S ''/'' @ de_name e)
           | None \<Rightarrow> None)"

definition fallback_initrd :: "str \<Rightarrow> dir_entry \<Rightarrow> (str \<times> str) option" where
  "fallback_initrd pre e =
     (if de_kind e = KDir \<or> kernel_version_of (de_name e) \<noteq> None then None
      else map_option (\<lambda>v. (v, pre @ S ''/'' @ de_name e)) (initrd_version_of (de_name e)))"

definition fallback_dir :: "filesystem \<Rightarrow> str \<Rightarrow> boot_entry list" where
  "fallback_dir fs pre =
     (case fs_read_dir fs (if pre = [] then S ''/'' else pre) of
        Inl _ \<Rightarrow> []
      | Inr listing \<Rightarrow>
          map (fallback_entry (List.map_filter (fallback_initrd pre) listing))
            (List.map_filter (fallback_kernel pre) listing))"

lemma sort_files_eq:
  "sort_files pre es kernels initrds =
    (kernels @ List.map_filter (fallback_kernel pre) es, initrds @ List.map_filter (fallback_initrd pre) es)"
  by (induction pre es kernels initrds rule: sort_files.induct)
    (auto simp: map_filter_simps fallback_kernel_def fallback_initrd_def Let_def split: option.splits)

lemma fallback_entries_eq: "fallback_entries fs ps entries = entries @ concat (map (fallback_dir fs) ps)"
  by (induction fs ps entries rule: fallback_entries.induct)
    (auto simp: fallback_dir_def sort_files_eq split: sum.splits)

lemma is_abs_append: "is_abs p \<Longrightarrow> is_abs (p @ q)"
  by (cases p) (simp_all add: is_abs_def)

lemma is_abs_under: "pre = [] \<or> is_abs pre \<Longrightarrow> is_abs (pre @ S ''/'' @ p)"
  by (auto simp: is_abs_append) (simp add: is_abs_def)

lemma BOOT_PREFIXES_abs: "pre \<in> set BOOT_PREFIXES \<Longrightarrow> pre = [] \<or> is_abs pre"
  by (auto simp: BOOT_PREFIXES_def is_abs_def)

lemma fallback_file_abs:
  assumes "pre = [] \<or> is_abs pre"
  shows "fallback_kernel pre e = Some k \<Longrightarrow> is_abs (snd k)"
    and "fallback_initrd pre e = Some k \<Longrightarrow> is_abs (snd k)"
  using is_abs_under [OF assms]
  by (auto simp: fallback_kernel_def fallback_initrd_def split: if_splits option.splits)

lemma fallback_dir_ok:
  assumes "pre = [] \<or> is_abs pre" and "e \<in> set (fallback_dir fs pre)"
  shows "entry_paths_ok e" and "be_source e = SrcFallback"
proof -
  obtain listing k where e: "e = fallback_entry (List.map_filter (fallback_initrd pre) listing) k"
    and k: "k \<in> set (List.map_filter (fallback_kernel pre) listing)"
    using assms(2) by (auto simp: fallback_dir_def split: sum.splits)
  have "is_abs (snd k)" using k fallback_file_abs(1) [OF assms(1)] by (auto simp: map_filter_def)
  moreover have "is_abs (snd i)"
    if "find p (List.map_filter (fallback_initrd pre) listing) = Some i" for p i
    using find_Some_in [OF that] fallback_file_abs(2) [OF assms(1)] by (auto simp: map_filter_def)
  ultimately show "entry_paths_ok e"
    by (cases k; cases "find (\<lambda>i. fst i = fst k) (List.map_filter (fallback_initrd pre) listing)")
      (auto simp: e fallback_entry_def entry_paths_ok_def default_entry_value_def)
  show "be_source e = SrcFallback" by (cases k) (simp add: e fallback_entry_def)
qed

lemma fallback_scan_entries:
  "fst (fallback_scan fs) = sort_by fallback_cmp (concat (map (fallback_dir fs) BOOT_PREFIXES))"
  by (simp add: fallback_scan_def fallback_entries_eq Let_def)

lemma fallback_scan_ok:
  assumes "e \<in> set (fst (fallback_scan fs))"
  shows "entry_paths_ok e" and "be_source e = SrcFallback"
  using assms fallback_dir_ok [OF BOOT_PREFIXES_abs] by (auto simp: fallback_scan_entries)

lemma fallback_links_ok: "default_ok entries d \<Longrightarrow> default_ok entries (fallback_links fs entries ls d)"
  by (induction fs entries ls d rule: fallback_links.induct) (auto split: option.splits dest: position_lt)

lemma fallback_scan_default: "default_ok (fst (fallback_scan fs)) (snd (fallback_scan fs))"
  unfolding fallback_scan_def Let_def fst_conv snd_conv by (rule fallback_links_ok) simp

section \<open>The authoritative source\<close>

lemma find_map_filter: "find p (List.map_filter f xs) = Some y \<Longrightarrow> \<exists>x \<in> set xs. f x = Some y \<and> p y"
  by (drule find_Some_in) (auto simp: map_filter_def)

lemma ext_config_paths_abs: "p \<in> set ext_config_paths \<Longrightarrow> is_abs p"
  by (auto simp: ext_config_paths_def BOOT_PREFIXES_def is_abs_def)

lemma scan_configs_parts:
  assumes "scan_configs fs = (g, ub, b, e, configs)"
  defines "env \<equiv> grubenv_load fs"
  obtains sd where
    "g = find (\<lambda>g. gs_entries g \<noteq> []) (grub_configs fs env (grub_paths fs))"
    and "ub = list_ex gs_uses_bls (grub_configs fs env (grub_paths fs))"
    and "b = find (\<lambda>b. bl_entries b \<noteq> []) (bls_dirs fs env sd BOOT_PREFIXES)"
    and "e = find (\<lambda>e. ex_entries e \<noteq> []) (ext_configs fs ext_config_paths)"
proof -
  obtain c1 sd c2 c3 where run:
    "scan_grub fs env (grub_paths fs) [] None False = (c1, g, ub)"
    "loader_conf_default fs BOOT_PREFIXES c1 = (sd, c2)"
    "scan_bls fs env sd BOOT_PREFIXES c2 = (b, c3)"
    "scan_ext fs ext_config_paths c3 None = (e, configs)"
    using assms(1) by (auto simp: scan_configs_def env_def Let_def split: prod.splits)
  show thesis
    using that [of sd] scan_grub_eq [of fs env "grub_paths fs" "[]" None False]
      scan_bls_eq [of fs env sd BOOT_PREFIXES c2] scan_ext_eq [of fs ext_config_paths c3 None] run
    by simp
qed

lemma scan_choice_ok:
  assumes "scan_choice fs = ((entries, dflt), configs)"
  shows "default_ok entries dflt" and "\<forall>x \<in> set entries. entry_paths_ok x"
proof -
  obtain g ub b e where sc: "scan_configs fs = (g, ub, b, e, configs)"
    and pick: "pick_source fs g ub b e = (entries, dflt)"
    using assms by (auto simp: scan_choice_def split: prod.splits)
  obtain sd where parts:
    "g = find (\<lambda>g. gs_entries g \<noteq> []) (grub_configs fs (grubenv_load fs) (grub_paths fs))"
    "b = find (\<lambda>b. bl_entries b \<noteq> []) (bls_dirs fs (grubenv_load fs) sd BOOT_PREFIXES)"
    "e = find (\<lambda>e. ex_entries e \<noteq> []) (ext_configs fs ext_config_paths)"
    by (rule scan_configs_parts [OF sc])
  have G: "default_ok (gs_entries x) (gs_default x) \<and> (\<forall>y \<in> set (gs_entries x). entry_paths_ok y)"
    if "g = Some x" for x
    using find_map_filter [OF parts(1) [unfolded that grub_configs_def, symmetric]]
      grub_parse_str_default grub_parse_str_paths
    by (auto simp: grub_parse_def rbind_eq_Ok split: if_splits)
  have Bl: "default_ok (bl_entries x) (bl_default x) \<and> (\<forall>y \<in> set (bl_entries x). entry_paths_ok y)"
    if "b = Some x" for x
  proof -
    from find_map_filter [OF parts(2) [unfolded that bls_dirs_def, symmetric]]
    obtain dir where "fst (bls_parse_dir fs dir (grubenv_load fs) sd []) = Ok x" by (auto split: if_splits)
    then obtain cs where "bls_parse_dir fs dir (grubenv_load fs) sd [] = (Ok x, cs)"
      by (cases "bls_parse_dir fs dir (grubenv_load fs) sd []") auto
    from bls_parse_dir_Ok [OF this] show ?thesis by blast
  qed
  have E: "default_ok (ex_entries x) (ex_default x) \<and> (\<forall>y \<in> set (ex_entries x). entry_paths_ok y)"
    if "e = Some x" for x
    using find_map_filter [OF parts(3) [unfolded that ext_configs_def, symmetric]] ext_parse_Ok
      ext_config_paths_abs
    by (fastforce split: if_splits)
  have F: "default_ok (fst (fallback_scan fs)) (snd (fallback_scan fs)) \<and>
      (\<forall>y \<in> set (fst (fallback_scan fs)). entry_paths_ok y)"
    using fallback_scan_default fallback_scan_ok(1) by blast
  have "default_ok (fst (pick_source fs g ub b e)) (snd (pick_source fs g ub b e)) \<and>
      (\<forall>x \<in> set (fst (pick_source fs g ub b e)). entry_paths_ok x)"
    using G Bl E F by (auto simp: pick_source_def split: option.splits)
  with pick show "default_ok entries dflt" "\<forall>x \<in> set entries. entry_paths_ok x" by auto
qed


section \<open>Dropping stale entries\<close>

lemma filter_zip_map: "map fst (filter snd (zip xs (map p xs))) = filter p xs"
  by (induction xs) auto

lemma drop_stale_total:
  assumes "default_ok entries dflt"
  obtains d' where "drop_stale_entries fs entries dflt = Ok (filter (boot_entry_usable fs) entries, d')"
    and "default_ok (filter (boot_entry_usable fs) entries) d'"
    and "\<forall>d. dflt = Some d \<longrightarrow> boot_entry_usable fs (entries ! d) \<longrightarrow>
      (\<exists>i. d' = Some i \<and> filter (boot_entry_usable fs) entries ! i = entries ! d)"
    and "\<forall>d. dflt = Some d \<longrightarrow> \<not> boot_entry_usable fs (entries ! d) \<longrightarrow>
      filter (boot_entry_usable fs) entries \<noteq> [] \<longrightarrow> d' = Some 0"
proof -
  let ?keep = "map (boot_entry_usable fs) entries"
  show thesis
  proof (rule retain_total [of ?keep entries dflt])
    show "length ?keep = length entries" by simp
    show "default_ok entries dflt" by (rule assms)
  next
    fix kept d'
    assume r: "retain entries dflt ?keep = Ok (kept, d')"
      "kept = map fst (filter snd (zip entries ?keep))" "default_ok kept d'"
      "\<And>d. dflt = Some d \<Longrightarrow> ?keep ! d \<Longrightarrow> \<exists>i. d' = Some i \<and> kept ! i = entries ! d"
      "\<And>d. dflt = Some d \<Longrightarrow> \<not> ?keep ! d \<Longrightarrow> kept \<noteq> [] \<Longrightarrow> d' = Some 0"
    have kept: "kept = filter (boot_entry_usable fs) entries" using r(2) by (simp only: filter_zip_map)
    have nth: "?keep ! d = boot_entry_usable fs (entries ! d)" if "dflt = Some d" for d
      using that assms by simp
    show thesis
    proof (rule that [of d'])
      show "drop_stale_entries fs entries dflt = Ok (filter (boot_entry_usable fs) entries, d')"
        using r(1) by (simp add: drop_stale_entries_def kept)
      show "default_ok (filter (boot_entry_usable fs) entries) d'" using r(3) by (simp only: kept)
      show "\<forall>d. dflt = Some d \<longrightarrow> boot_entry_usable fs (entries ! d) \<longrightarrow>
      (\<exists>i. d' = Some i \<and> filter (boot_entry_usable fs) entries ! i = entries ! d)"
        using r(4) nth by (simp add: kept)
      show "\<forall>d. dflt = Some d \<longrightarrow> \<not> boot_entry_usable fs (entries ! d) \<longrightarrow>
      filter (boot_entry_usable fs) entries \<noteq> [] \<longrightarrow> d' = Some 0"
        using r(5) nth by (simp add: kept)
    qed
  qed
qed

lemma boot_scan_fs_choice:
  obtains entries dflt configs d' where "scan_choice fs = ((entries, dflt), configs)"
    and "default_ok entries dflt" and "\<forall>x \<in> set entries. entry_paths_ok x"
    and "boot_scan_fs fs = Ok \<lparr>bs_entries = filter (boot_entry_usable fs) entries, bs_default = d',
            bs_configs = configs\<rparr>"
    and "default_ok (filter (boot_entry_usable fs) entries) d'"
    and "\<forall>d. dflt = Some d \<longrightarrow> boot_entry_usable fs (entries ! d) \<longrightarrow>
      (\<exists>i. d' = Some i \<and> filter (boot_entry_usable fs) entries ! i = entries ! d)"
    and "\<forall>d. dflt = Some d \<longrightarrow> \<not> boot_entry_usable fs (entries ! d) \<longrightarrow>
      filter (boot_entry_usable fs) entries \<noteq> [] \<longrightarrow> d' = Some 0"
proof -
  obtain entries dflt configs where c: "scan_choice fs = ((entries, dflt), configs)"
    by (metis prod.collapse)
  note ok = scan_choice_ok [OF c]
  from ok(1) obtain d' where d: "drop_stale_entries fs entries dflt = Ok (filter (boot_entry_usable fs) entries, d')"
    "default_ok (filter (boot_entry_usable fs) entries) d'"
    "\<forall>d. dflt = Some d \<longrightarrow> boot_entry_usable fs (entries ! d) \<longrightarrow>
      (\<exists>i. d' = Some i \<and> filter (boot_entry_usable fs) entries ! i = entries ! d)"
    "\<forall>d. dflt = Some d \<longrightarrow> \<not> boot_entry_usable fs (entries ! d) \<longrightarrow>
      filter (boot_entry_usable fs) entries \<noteq> [] \<longrightarrow> d' = Some 0"
    by (rule drop_stale_total [of entries dflt fs])
  show thesis
    by (rule that [OF c ok _ d(2-4)]) (simp_all add: boot_scan_fs_def c d(1))
qed

section \<open>Properties\<close>

text \<open>
  C19: a scan never fails, whatever the filesystem answers, and it keeps the entries that have something
  to boot. Its entries are those of the chosen source, in their order, that have a chainloader or
  whose kernel exists on the filesystem, and no others, even when that leaves none; so each names a
  kernel that exists or a chainloader, which is not looked up. Their kernels and initrds are
  absolute paths, and a chainloader is one or a block list; the default is one of the entries,
  present exactly when there are any.
\<close>

theorem scan_sound:
  "\<exists>s. boot_scan_fs fs = Ok s \<and> default_ok (bs_entries s) (bs_default s) \<and>
     bs_entries s = filter (\<lambda>e. be_chainloader e \<noteq> None \<or> (\<exists>k. be_kernel e = Some k \<and> fs_exists fs k))
       (fst (fst (scan_choice fs))) \<and>
     (\<forall>e \<in> set (bs_entries s). entry_paths_ok e \<and>
        (be_chainloader e = None \<longrightarrow> (\<exists>k. be_kernel e = Some k \<and> fs_exists fs k)))"
proof -
  obtain entries dflt configs d' where c: "scan_choice fs = ((entries, dflt), configs)"
    "default_ok (filter (boot_entry_usable fs) entries) d'" "\<forall>x \<in> set entries. entry_paths_ok x"
    "boot_scan_fs fs = Ok \<lparr>bs_entries = filter (boot_entry_usable fs) entries, bs_default = d',
       bs_configs = configs\<rparr>"
    by (rule boot_scan_fs_choice [of fs])
  have "boot_entry_usable fs =
      (\<lambda>e. be_chainloader e \<noteq> None \<or> (\<exists>k. be_kernel e = Some k \<and> fs_exists fs k))"
    by (auto simp: fun_eq_iff boot_entry_usable_def split: option.splits)
  with c show ?thesis by auto
qed

text \<open>
  C20: dropping entries whose kernel is gone never moves the default to another entry. The entries of
  the scan are the usable ones of the chosen source in their order; the entry that the bootloader
  would boot stays the default if it is usable, and only otherwise the first usable one takes over.
\<close>

theorem scan_keeps_default:
  assumes "scan_choice fs = ((entries, Some d), configs)"
  shows "\<exists>s. boot_scan_fs fs = Ok s \<and> bs_entries s = filter (boot_entry_usable fs) entries \<and>
    scan_default_entry s =
      (if boot_entry_usable fs (entries ! d) then Some (entries ! d) else get (bs_entries s) 0)"
proof -
  obtain d' where s: "boot_scan_fs fs = Ok \<lparr>bs_entries = filter (boot_entry_usable fs) entries,
       bs_default = d', bs_configs = configs\<rparr>"
    and ok: "default_ok (filter (boot_entry_usable fs) entries) d'"
    and keep: "boot_entry_usable fs (entries ! d) \<Longrightarrow>
      \<exists>i. d' = Some i \<and> filter (boot_entry_usable fs) entries ! i = entries ! d"
    and drop: "\<not> boot_entry_usable fs (entries ! d) \<Longrightarrow>
      filter (boot_entry_usable fs) entries \<noteq> [] \<Longrightarrow> d' = Some 0"
    by (rule boot_scan_fs_choice [of fs]) (use assms in auto)
  have "scan_default_entry \<lparr>bs_entries = filter (boot_entry_usable fs) entries, bs_default = d',
       bs_configs = configs\<rparr> =
      (if boot_entry_usable fs (entries ! d) then Some (entries ! d)
       else get (filter (boot_entry_usable fs) entries) 0)"
  proof (cases "boot_entry_usable fs (entries ! d)")
    case True
    from keep [OF True] obtain i where "d' = Some i" "filter (boot_entry_usable fs) entries ! i = entries ! d"
      by blast
    with ok True show ?thesis by (simp add: scan_default_entry_def get_def)
  next
    case False
    show ?thesis
    proof (cases "filter (boot_entry_usable fs) entries = []")
      case True
      with ok have "d' = None" by (cases d') auto
      with False True show ?thesis unfolding scan_default_entry_def by (simp add: get_def)
    next
      case nonempty: False
      with drop [OF False] have "d' = Some 0" by blast
      with False show ?thesis by (simp add: scan_default_entry_def)
    qed
  qed
  with s show ?thesis by simp
qed

text \<open>A filesystem with one kernel and nothing else.\<close>

definition one_kernel :: filesystem where
  "one_kernel =
     \<lparr>fs_type = S ''ext4'', fs_label = None,
      fs_read_dir = (\<lambda>d. if d = S ''/'' then Ok [\<lparr>de_name = S ''vmlinuz-1'', de_kind = KFile, de_size = 0\<rparr>]
                        else Err (NotFound d)),
      fs_read_file = (\<lambda>p. Err (NotFound p)), fs_exists = (\<lambda>p. p = S ''/vmlinuz-1''),
      fs_read_prefix = (\<lambda>p n. Err (NotFound p)), fs_file_size = (\<lambda>p. Err (NotFound p)),
      fs_read_link = (\<lambda>p. None)\<rparr>"

lemma one_kernel_choice:
  "scan_choice one_kernel =
    (([default_entry_value\<lparr>be_kernel := Some (S ''/vmlinuz-1''), be_version := Some (S ''1'')\<rparr>], Some 0), [])"
proof -
  have paths: "grub_paths one_kernel = [S ''/grub/grub.cfg'', S ''/grub2/grub.cfg'',
      S ''/boot/grub/grub.cfg'', S ''/boot/grub2/grub.cfg'']"
    by (simp add: grub_paths_def BOOT_PREFIXES_def one_kernel_def)
  have configs: "scan_configs one_kernel = (None, False, None, None, [])"
    unfolding scan_configs_def paths
    by (simp add: one_kernel_def BOOT_PREFIXES_def ext_config_paths_def Let_def)
  have fb: "fallback_scan one_kernel =
     ([default_entry_value\<lparr>be_kernel := Some (S ''/vmlinuz-1''), be_version := Some (S ''1'')\<rparr>], Some 0)"
    by (simp add: fallback_scan_def BOOT_PREFIXES_def one_kernel_def kernel_version_of_def fallback_entry_def
        str_contains_def default_entry_value_def upt_rec Let_def)
  show ?thesis by (simp add: scan_choice_def configs pick_source_def fb)
qed

lemma one_kernel_scan:
  "boot_scan_fs one_kernel = Ok \<lparr>bs_entries =
     [default_entry_value\<lparr>be_kernel := Some (S ''/vmlinuz-1''), be_version := Some (S ''1'')\<rparr>],
     bs_default = Some 0, bs_configs = []\<rparr>"
  unfolding boot_scan_fs_def one_kernel_choice
  by (simp add: drop_stale_entries_def retain_def boot_entry_usable_def default_entry_value_def one_kernel_def)

lemma scan_sound_witness:
  "\<exists>s k. boot_scan_fs one_kernel = Ok s \<and> entry_paths_ok (hd (bs_entries s)) \<and>
     be_kernel (hd (bs_entries s)) = Some k \<and> fs_exists one_kernel k"
proof -
  from scan_sound [of one_kernel] obtain s where
    s: "boot_scan_fs one_kernel = Ok s" "\<forall>e \<in> set (bs_entries s). entry_paths_ok e \<and>
      (be_chainloader e = None \<longrightarrow> (\<exists>k. be_kernel e = Some k \<and> fs_exists one_kernel k))" by blast
  then show ?thesis by (auto simp: one_kernel_scan default_entry_value_def)
qed

lemma scan_keeps_default_witness:
  "\<exists>s. boot_scan_fs one_kernel = Ok s \<and>
     scan_default_entry s =
       Some (default_entry_value\<lparr>be_kernel := Some (S ''/vmlinuz-1''), be_version := Some (S ''1'')\<rparr>)"
  using scan_keeps_default [OF one_kernel_choice]
  by (auto simp: boot_entry_usable_def default_entry_value_def one_kernel_def)

text \<open>The conditions under which a source has something to say.\<close>

definition has_blscfg :: "filesystem \<Rightarrow> bool" where
  "has_blscfg fs \<longleftrightarrow>
     (\<exists>p \<in> set (grub_paths fs). \<exists>g. fs_exists fs p \<and> grub_parse fs p (grubenv_load fs) = Ok g \<and> gs_uses_bls g)"

definition has_grub :: "filesystem \<Rightarrow> bool" where
  "has_grub fs \<longleftrightarrow>
     (\<exists>p \<in> set (grub_paths fs). \<exists>g. fs_exists fs p \<and> grub_parse fs p (grubenv_load fs) = Ok g \<and>
        gs_entries g \<noteq> [])"

definition has_bls :: "filesystem \<Rightarrow> bool" where
  "has_bls fs \<longleftrightarrow>
     (\<exists>pre \<in> set BOOT_PREFIXES. \<exists>listing. fs_exists fs (pre @ S ''/loader/entries'') \<and>
        fs_read_dir fs (pre @ S ''/loader/entries'') = Ok listing \<and>
        (\<exists>f \<in> set listing. bls_item fs (pre @ S ''/loader/entries'') (grubenv_load fs) f \<noteq> None))"

definition has_ext :: "filesystem \<Rightarrow> bool" where
  "has_ext fs \<longleftrightarrow>
     (\<exists>p \<in> set ext_config_paths. \<exists>e. fs_exists fs p \<and> ext_parse fs p = Ok e \<and> ex_entries e \<noteq> [])"

lemma find_None_map_filter:
  "find p (List.map_filter f xs) = None \<longleftrightarrow> (\<forall>x \<in> set xs. \<forall>y. f x = Some y \<longrightarrow> \<not> p y)"
  by (auto simp: find_None_iff map_filter_def)

lemma bls_dir_entries:
  assumes "fst (bls_parse_dir fs dir env sd []) = Ok b"
  shows "bl_entries b \<noteq> [] \<longleftrightarrow>
    (\<exists>listing. fs_read_dir fs dir = Ok listing \<and> (\<exists>f \<in> set listing. bls_item fs dir env f \<noteq> None))"
proof -
  obtain listing where l: "fs_read_dir fs dir = Ok listing"
    using assms by (cases "fs_read_dir fs dir") (auto simp: bls_parse_dir_def)
  with bls_parse_dir_items [OF l, of env sd "[]"] assms
  have "bl_entries b = map snd (sort_by bls_cmp (List.map_filter (bls_item fs dir env) listing))"
    by (auto simp: Let_def)
  with l show ?thesis by (auto simp: map_filter_def filter_empty_conv)
qed

lemma scan_configs_found:
  assumes "scan_configs fs = (g, ub, b, e, configs)"
  shows "ub \<longleftrightarrow> has_blscfg fs" and "g \<noteq> None \<longleftrightarrow> has_grub fs" and "b \<noteq> None \<longleftrightarrow> has_bls fs"
    and "e \<noteq> None \<longleftrightarrow> has_ext fs"
proof -
  let ?env = "grubenv_load fs"
  obtain sd where parts:
    "g = find (\<lambda>g. gs_entries g \<noteq> []) (grub_configs fs ?env (grub_paths fs))"
    "ub = list_ex gs_uses_bls (grub_configs fs ?env (grub_paths fs))"
    "b = find (\<lambda>b. bl_entries b \<noteq> []) (bls_dirs fs ?env sd BOOT_PREFIXES)"
    "e = find (\<lambda>e. ex_entries e \<noteq> []) (ext_configs fs ext_config_paths)"
    by (rule scan_configs_parts [OF assms])
  show "ub \<longleftrightarrow> has_blscfg fs"
    unfolding parts(2) grub_configs_def has_blscfg_def list_ex_iff map_filter_def by (force split: if_splits)
  show "g \<noteq> None \<longleftrightarrow> has_grub fs"
    unfolding parts(1) grub_configs_def has_grub_def find_None_map_filter by (auto split: if_splits)
  show "e \<noteq> None \<longleftrightarrow> has_ext fs"
    unfolding parts(4) ext_configs_def has_ext_def find_None_map_filter by (auto split: if_splits)
  have "b \<noteq> None \<longleftrightarrow> (\<exists>pre \<in> set BOOT_PREFIXES. fs_exists fs (pre @ S ''/loader/entries'') \<and>
      (\<exists>y. fst (bls_parse_dir fs (pre @ S ''/loader/entries'') ?env sd []) = Ok y \<and> bl_entries y \<noteq> []))"
    unfolding parts(3) bls_dirs_def find_None_map_filter by (auto split: if_splits)
  moreover have "(\<exists>y. fst (bls_parse_dir fs dir ?env sd []) = Ok y \<and> bl_entries y \<noteq> []) \<longleftrightarrow>
      (\<exists>listing. fs_read_dir fs dir = Ok listing \<and> (\<exists>f \<in> set listing. bls_item fs dir ?env f \<noteq> None))" for dir
    using bls_dir_entries [of fs dir ?env sd] bls_parse_dir_items [of fs dir _ ?env sd "[]"]
    by (auto simp: Let_def)
  ultimately show "b \<noteq> None \<longleftrightarrow> has_bls fs" unfolding has_bls_def by simp
qed

text \<open>
  C21: which source a scan trusts. With \<open>blscfg\<close> in a GRUB config and a BLS entry, all entries are BLS
  entries, even when GRUB configs have entries of their own; otherwise GRUB entries win over BLS,
  BLS over extlinux, and the pairing of kernels and initrds by name is used only when no config of
  any kind has an entry.
\<close>

theorem scan_source_priority:
  "\<exists>s. boot_scan_fs fs = Ok s \<and>
    (\<forall>e \<in> set (bs_entries s). be_source e =
       (if has_blscfg fs \<and> has_bls fs then SrcBls
        else if has_grub fs then SrcGrub
        else if has_bls fs then SrcBls
        else if has_ext fs then SrcExtlinux
        else SrcFallback))"
proof -
  obtain entries dflt configs d' where c: "scan_choice fs = ((entries, dflt), configs)"
    and s: "boot_scan_fs fs = Ok \<lparr>bs_entries = filter (boot_entry_usable fs) entries, bs_default = d',
       bs_configs = configs\<rparr>"
    by (rule boot_scan_fs_choice [of fs])
  obtain g ub b e where sc: "scan_configs fs = (g, ub, b, e, configs)"
    and pick: "pick_source fs g ub b e = (entries, dflt)"
    using c by (auto simp: scan_choice_def split: prod.splits)
  note found = scan_configs_found [OF sc]
  obtain sd where parts:
    "g = find (\<lambda>g. gs_entries g \<noteq> []) (grub_configs fs (grubenv_load fs) (grub_paths fs))"
    "b = find (\<lambda>b. bl_entries b \<noteq> []) (bls_dirs fs (grubenv_load fs) sd BOOT_PREFIXES)"
    "e = find (\<lambda>e. ex_entries e \<noteq> []) (ext_configs fs ext_config_paths)"
    by (rule scan_configs_parts [OF sc])
  have G: "be_source y = SrcGrub" if "g = Some x" "y \<in> set (gs_entries x)" for x y
    using find_map_filter [OF parts(1) [unfolded that(1) grub_configs_def, symmetric]] that(2)
    by (auto simp: grub_parse_def rbind_eq_Ok grub_parse_str_source split: if_splits)
  have Bl: "be_source y = SrcBls" if "b = Some x" "y \<in> set (bl_entries x)" for x y
    using find_map_filter [OF parts(2) [unfolded that(1) bls_dirs_def, symmetric]] that(2)
    by (auto dest: bls_parse_dir_source split: if_splits)
  have E: "be_source y = SrcExtlinux" if "e = Some x" "y \<in> set (ex_entries x)" for x y
    using find_map_filter [OF parts(3) [unfolded that(1) ext_configs_def, symmetric]] that(2)
    by (auto simp: ext_parse_def rbind_eq_Ok Let_def ext_parse_str_source split: if_splits)
  have "\<forall>y \<in> set (fst (pick_source fs g ub b e)). be_source y =
       (if ub \<and> b \<noteq> None then SrcBls else if g \<noteq> None then SrcGrub else if b \<noteq> None then SrcBls
        else if e \<noteq> None then SrcExtlinux else SrcFallback)"
    using G Bl E fallback_scan_ok(2) by (auto simp: pick_source_def split: option.splits)
  with pick s show ?thesis unfolding found by auto
qed

lemma scan_source_priority_witness:
  "\<exists>s. boot_scan_fs one_kernel = Ok s \<and>
     be_source (hd (bs_entries s)) =
       (if has_blscfg one_kernel \<and> has_bls one_kernel then SrcBls else if has_grub one_kernel then SrcGrub
        else if has_bls one_kernel then SrcBls else if has_ext one_kernel then SrcExtlinux else SrcFallback)"
  using scan_source_priority [of one_kernel] by (auto simp: one_kernel_scan)

text \<open>
  C22: without a usable config, the entries are the kernels of \<open>/\<close> and \<open>/boot\<close>, newest first, one entry per
  kernel file that is neither a rescue nor a kdump image, each with the first initrd of its directory
  that carries the same version, if there is one.
\<close>

theorem fallback_pairs:
  "\<exists>es. fst (fallback_scan fs) = es \<and> mset es = mset (concat (map (fallback_dir fs) BOOT_PREFIXES)) \<and>
    sorted_wrt (\<lambda>a b. vercmp (unwrap_or (be_version a) []) (unwrap_or (be_version b) []) \<noteq> Less) es \<and>
    (\<forall>e \<in> set es. \<exists>pre \<in> set BOOT_PREFIXES. \<exists>listing f v.
       fs_read_dir fs (if pre = [] then S ''/'' else pre) = Ok listing \<and> f \<in> set listing \<and>
       de_kind f \<noteq> KDir \<and> kernel_version_of (de_name f) = Some v \<and>
       be_version e = Some v \<and> be_kernel e = Some (pre @ S ''/'' @ de_name f) \<and>
       (be_initrd e = [] \<and> (\<forall>i \<in> set listing. \<forall>p. fallback_initrd pre i \<noteq> Some (v, p)) \<or>
        (\<exists>i \<in> set listing. \<exists>p. fallback_initrd pre i = Some (v, p) \<and> be_initrd e = [p])))"
proof -
  let ?es = "sort_by fallback_cmp (concat (map (fallback_dir fs) BOOT_PREFIXES))"
  have swap: "vercmp b a = ord_reverse (vercmp a b)" for a b
    using vercmp_order.cmp_swap .
  have rev: "fallback_cmp x y \<noteq> Greater \<longleftrightarrow>
      vercmp (unwrap_or (be_version x) []) (unwrap_or (be_version y) []) \<noteq> Less" for x y
    using swap [of "unwrap_or (be_version y) []" "unwrap_or (be_version x) []"]
    by (cases "vercmp (unwrap_or (be_version x) []) (unwrap_or (be_version y) [])")
      (auto simp: fallback_cmp_def)
  have sorted: "sorted_wrt (\<lambda>a b. vercmp (unwrap_or (be_version a) []) (unwrap_or (be_version b) []) \<noteq> Less) ?es"
    using fallback_order.sort_by_sorted [of "concat (map (fallback_dir fs) BOOT_PREFIXES)"] unfolding rev .
  have entry: "\<exists>listing f v.
       fs_read_dir fs (if pre = [] then S ''/'' else pre) = Ok listing \<and> f \<in> set listing \<and>
       de_kind f \<noteq> KDir \<and> kernel_version_of (de_name f) = Some v \<and>
       be_version e = Some v \<and> be_kernel e = Some (pre @ S ''/'' @ de_name f) \<and>
       (be_initrd e = [] \<and> (\<forall>i \<in> set listing. \<forall>p. fallback_initrd pre i \<noteq> Some (v, p)) \<or>
        (\<exists>i \<in> set listing. \<exists>p. fallback_initrd pre i = Some (v, p) \<and> be_initrd e = [p]))"
    if e: "e \<in> set (fallback_dir fs pre)" for e pre
  proof -
    obtain listing v p where l: "fs_read_dir fs (if pre = [] then S ''/'' else pre) = Ok listing"
      and e': "e = fallback_entry (List.map_filter (fallback_initrd pre) listing) (v, p)"
      and k: "(v, p) \<in> set (List.map_filter (fallback_kernel pre) listing)"
      using e by (cases "fs_read_dir fs (if pre = [] then S ''/'' else pre)") (auto simp: fallback_dir_def)
    from k obtain f where f: "f \<in> set listing" "fallback_kernel pre f = Some (v, p)"
      by (auto simp: map_filter_def)
    then have f': "de_kind f \<noteq> KDir" "kernel_version_of (de_name f) = Some v" "p = pre @ S ''/'' @ de_name f"
      by (auto simp: fallback_kernel_def split: if_splits option.splits)
    have "be_initrd e = [] \<and> (\<forall>i \<in> set listing. \<forall>p. fallback_initrd pre i \<noteq> Some (v, p)) \<or>
        (\<exists>i \<in> set listing. \<exists>p. fallback_initrd pre i = Some (v, p) \<and> be_initrd e = [p])"
    proof (cases "find (\<lambda>i. fst i = v) (List.map_filter (fallback_initrd pre) listing)")
      case None
      then have "be_initrd e = []" by (simp add: e' fallback_entry_def default_entry_value_def)
      moreover have "\<forall>i \<in> set listing. \<forall>p. fallback_initrd pre i \<noteq> Some (v, p)"
        using None by (auto simp: find_None_map_filter)
      ultimately show ?thesis by blast
    next
      case (Some i)
      from find_map_filter [OF Some] Some show ?thesis
        by (cases i) (auto simp: e' fallback_entry_def)
    qed
    with l f f' show ?thesis by (auto simp: e' fallback_entry_def)
  qed
  show ?thesis unfolding fallback_scan_entries
  proof (intro exI [of _ ?es] conjI ballI)
    fix e assume "e \<in> set ?es"
    then obtain pre where "pre \<in> set BOOT_PREFIXES" "e \<in> set (fallback_dir fs pre)" by auto
    with entry [OF this(2)] show "\<exists>pre \<in> set BOOT_PREFIXES. \<exists>listing f v.
       fs_read_dir fs (if pre = [] then S ''/'' else pre) = Ok listing \<and> f \<in> set listing \<and>
       de_kind f \<noteq> KDir \<and> kernel_version_of (de_name f) = Some v \<and>
       be_version e = Some v \<and> be_kernel e = Some (pre @ S ''/'' @ de_name f) \<and>
       (be_initrd e = [] \<and> (\<forall>i \<in> set listing. \<forall>p. fallback_initrd pre i \<noteq> Some (v, p)) \<or>
        (\<exists>i \<in> set listing. \<exists>p. fallback_initrd pre i = Some (v, p) \<and> be_initrd e = [p]))"
      by (intro bexI [of _ pre])
  qed (simp_all add: sorted)
qed

lemma fallback_pairs_witness:
  "length (fst (fallback_scan one_kernel)) = 1 \<and>
   sorted_wrt (\<lambda>a b. vercmp (unwrap_or (be_version a) []) (unwrap_or (be_version b) []) \<noteq> Less)
     (fst (fallback_scan one_kernel))"
proof -
  have "fst (fallback_scan one_kernel) =
     [default_entry_value\<lparr>be_kernel := Some (S ''/vmlinuz-1''), be_version := Some (S ''1'')\<rparr>]"
    by (simp add: fallback_scan_def BOOT_PREFIXES_def one_kernel_def kernel_version_of_def fallback_entry_def
        str_contains_def default_entry_value_def upt_rec Let_def)
  then have "length (fst (fallback_scan one_kernel)) = 1" by simp
  with fallback_pairs [of one_kernel] show ?thesis by blast
qed

section \<open>The kernel's build options\<close>

text \<open>
  \<open>dma_restricted_pool\<close> answers from the first readable config file among those of the entry's kernel
  releases: yes exactly when a line of it, trimmed, is the option set to \<open>y\<close>; and it gives no answer
  exactly when none of them can be read.
\<close>

theorem dma_first_config:
  "(dma_restricted_pool fs e = None \<longleftrightarrow> (\<forall>p \<in> set (dma_config_paths e). \<exists>err. fs_read_file fs p = Err err)) \<and>
   (\<forall>b. dma_restricted_pool fs e = Some b \<longleftrightarrow>
     (\<exists>ps p qs data. dma_config_paths e = ps @ p # qs \<and> (\<forall>q \<in> set ps. \<exists>err. fs_read_file fs q = Err err) \<and>
        fs_read_file fs p = Ok data \<and>
        b = (\<exists>l \<in> set (str_lines (from_utf8_lossy data)). str_trim l = S ''CONFIG_DMA_RESTRICTED_POOL=y'')))"
proof -
  have opt: "kconfig_enabled data (S ''CONFIG_DMA_RESTRICTED_POOL'') \<longleftrightarrow>
      (\<exists>l \<in> set (str_lines (from_utf8_lossy data)). str_trim l = S ''CONFIG_DMA_RESTRICTED_POOL=y'')" for data
    by (simp add: kconfig_enabled_def list_ex_iff)
  have none: "dma_config fs ps = None \<longleftrightarrow> (\<forall>p \<in> set ps. \<exists>err. fs_read_file fs p = Err err)" for ps
    by (induction fs ps rule: dma_config.induct) (auto split: sum.splits)
  have some: "dma_config fs xs = Some b \<longleftrightarrow>
     (\<exists>ps p qs data. xs = ps @ p # qs \<and> (\<forall>q \<in> set ps. \<exists>err. fs_read_file fs q = Err err) \<and>
        fs_read_file fs p = Ok data \<and> b = kconfig_enabled data (S ''CONFIG_DMA_RESTRICTED_POOL''))" for xs b
  proof (induction fs xs rule: dma_config.induct)
    case (2 fs x xs)
    let ?split = "\<lambda>xs ps p qs data. xs = ps @ p # qs \<and> (\<forall>q \<in> set ps. \<exists>err. fs_read_file fs q = Err err) \<and>
        fs_read_file fs p = Ok data \<and> b = kconfig_enabled data (S ''CONFIG_DMA_RESTRICTED_POOL'')"
    show ?case
    proof (cases "fs_read_file fs x")
      case (Inl err)
      have "(\<exists>ps p qs data. ?split (x # xs) ps p qs data) \<longleftrightarrow> (\<exists>ps p qs data. ?split xs ps p qs data)"
      proof
        assume "\<exists>ps p qs data. ?split (x # xs) ps p qs data"
        then obtain ps p qs data where s: "?split (x # xs) ps p qs data" by blast
        with Inl obtain ps' where "ps = x # ps'" by (cases ps) auto
        with s have "?split xs ps' p qs data" by simp
        then show "\<exists>ps p qs data. ?split xs ps p qs data" by blast
      next
        assume "\<exists>ps p qs data. ?split xs ps p qs data"
        then obtain ps p qs data where "?split xs ps p qs data" by blast
        with Inl have "?split (x # xs) (x # ps) p qs data" by simp
        then show "\<exists>ps p qs data. ?split (x # xs) ps p qs data" by blast
      qed
      with 2 [OF Inl] Inl show ?thesis by simp
    next
      case (Inr data)
      have "(\<exists>ps p qs data. ?split (x # xs) ps p qs data) \<longleftrightarrow>
          b = kconfig_enabled data (S ''CONFIG_DMA_RESTRICTED_POOL'')"
      proof
        assume "\<exists>ps p qs data. ?split (x # xs) ps p qs data"
        then obtain ps p qs d where s: "?split (x # xs) ps p qs d" by blast
        with Inr have "ps = []" by (cases ps) auto
        with s Inr show "b = kconfig_enabled data (S ''CONFIG_DMA_RESTRICTED_POOL'')" by simp
      next
        assume "b = kconfig_enabled data (S ''CONFIG_DMA_RESTRICTED_POOL'')"
        with Inr have "?split (x # xs) [] x xs data" by simp
        then show "\<exists>ps p qs data. ?split (x # xs) ps p qs data" by blast
      qed
      with Inr show ?thesis by auto
    qed
  qed simp
  show ?thesis unfolding dma_restricted_pool_def none some opt by simp
qed

lemma dma_first_config_witness:
  "dma_restricted_pool one_kernel (default_entry_value\<lparr>be_version := Some (S ''1'')\<rparr>) = None"
  using dma_first_config [of one_kernel "default_entry_value\<lparr>be_version := Some (S ''1'')\<rparr>"]
  by (simp add: one_kernel_def)

end
