(* ===== verification/Boot_Tests.thy ===== *)
theory Boot_Tests
  imports Boot "HOL-Library.Code_Target_Nat"
begin

text \<open>
  The unit tests of src/src/boot: the in-memory filesystem \<open>MockFs\<close> and the fixtures of the tests, run
  on the model by evaluation in the kernel. Each lemma is one \<open>#[test]\<close> function.
\<close>

section \<open>Evaluation\<close>

text \<open>
  Equations for evaluation alone: ASCII bytes decode to themselves, most characters are told from white
  space by two comparisons, and the readers of a config look at its data only once it is read.
\<close>

lemma from_utf8_lossy_code [code]:
  "from_utf8_lossy bs =
     (let ns = map unat bs in if list_all (\<lambda>n. n < 128) ns then ns else utf8_decode ns)"
  using from_utf8_lossy_ascii [of bs] by (simp add: Let_def list_all_iff from_utf8_lossy_def word_less_nat_alt)

lemma is_whitespace_code [code]:
  "is_whitespace c =
     (if c \<le> 32 then c = 32 \<or> 9 \<le> c \<and> c \<le> 13
      else if c < 0x85 then False
      else c = 0x85 \<or> c = 0xA0 \<or> c = 0x1680 \<or> 0x2000 \<le> c \<and> c \<le> 0x200A \<or> c = 0x2028 \<or>
        c = 0x2029 \<or> c = 0x202F \<or> c = 0x205F \<or> c = 0x3000)"
  by (auto simp: is_whitespace_def)

lemma grub_parse_code [code]:
  "grub_parse fs path env =
     (case fs_read_file fs path of
        Inl e \<Rightarrow> Inl e
      | Inr data \<Rightarrow> Inr (grub_parse_str (from_utf8_lossy data) env))"
  by (simp add: grub_parse_def split: sum.split)

definition config_base :: "str \<Rightarrow> str" where
  "config_base path = (case rsplit_once (ch CHR ''/'') path of Some (d, _) \<Rightarrow> d | None \<Rightarrow> [])"

lemma ext_parse_code [code]:
  "ext_parse fs path =
     (case fs_read_file fs path of
        Inl e \<Rightarrow> Inl e
      | Inr data \<Rightarrow> Inr (ext_parse_str (from_utf8_lossy data) (config_base path)))"
  by (simp add: ext_parse_def config_base_def Let_def split: sum.split)

section \<open>The in-memory filesystem\<close>

text \<open>A \<open>BTreeMap<String, _>\<close> as the list of its bindings in the order of the keys.\<close>

fun btree_insert :: "str \<Rightarrow> 'v \<Rightarrow> (str \<times> 'v) list \<Rightarrow> (str \<times> 'v) list" where
  "btree_insert k v [] = [(k, v)]"
| "btree_insert k v ((k', v') # kvs) =
     (case cmp_list k k' of
        Less \<Rightarrow> (k, v) # (k', v') # kvs
      | Equal \<Rightarrow> (k, v) # kvs
      | Greater \<Rightarrow> (k', v') # btree_insert k v kvs)"

lemma map_of_btree_insert: "map_of (btree_insert k v kvs) = (map_of kvs)(k \<mapsto> v)"
proof (induction k v kvs rule: btree_insert.induct)
  case (2 k v k' v' kvs)
  show ?case
  proof (cases "k = k'")
    case True
    moreover have "cmp_list k' k' = Equal" by simp
    ultimately show ?thesis by (simp add: fun_eq_iff del: cmp_list_Equal)
  next
    case False
    with 2 show ?thesis by (cases "cmp_list k k'") (auto simp: fun_eq_iff)
  qed
qed simp

record mock_fs =
  mf_files :: "(str \<times> bytes) list"
  mf_links :: "(str \<times> str) list"

definition mock_new :: "(str \<times> str) list \<Rightarrow> mock_fs" where
  "mock_new files =
     \<lparr>mf_files = fold (\<lambda>(k, v). btree_insert k (as_bytes v)) files [], mf_links = []\<rparr>"

definition mock_link :: "str \<Rightarrow> str \<Rightarrow> mock_fs \<Rightarrow> mock_fs" where
  "mock_link src target m = m\<lparr>mf_links := btree_insert src target (mf_links m)\<rparr>"

fun mock_entries :: "str \<Rightarrow> (str \<times> bytes) list \<Rightarrow> str list \<Rightarrow> dir_entry list \<Rightarrow> dir_entry list" where
  "mock_entries pre [] names out = out"
| "mock_entries pre ((key, data) # kvs) names out =
     (case strip_prefix pre key of
        None \<Rightarrow> mock_entries pre kvs names out
      | Some rest \<Rightarrow>
          let first = hd (split_on (ch CHR ''/'') rest)
          in if List.member names first then mock_entries pre kvs names out
             else mock_entries pre kvs (first # names)
                    (out @ [\<lparr>de_name = first,
                             de_kind = (if ch CHR ''/'' \<in> set rest then KDir else KFile),
                             de_size = of_nat (length data)\<rparr>]))"

definition mock_prefix :: "str \<Rightarrow> str" where
  "mock_prefix path = trim_end_by (\<lambda>c. c = ch CHR ''/'') path @ S ''/''"

definition mock_read_file :: "mock_fs \<Rightarrow> str \<Rightarrow> bytes result" where
  "mock_read_file m path = ok_or (map_of (mf_files m) path) (NotFound path)"

definition mock_filesystem :: "mock_fs \<Rightarrow> filesystem" where
  "mock_filesystem m =
     \<lparr>fs_type = S ''mock'', fs_label = None,
      fs_read_dir = (\<lambda>path. Ok (mock_entries (mock_prefix path) (mf_files m) [] [])),
      fs_read_file = mock_read_file m,
      fs_exists = (\<lambda>path. path = S ''/'' \<or> map_of (mf_files m) path \<noteq> None \<or>
        list_ex (\<lambda>(k, _). starts_with (mock_prefix path) k) (mf_files m)),
      fs_read_prefix = default_read_prefix (mock_read_file m),
      fs_file_size = (\<lambda>path. rbind (mock_read_file m path) (\<lambda>d. Ok (of_nat (length d)))),
      fs_read_link = (\<lambda>path. map_of (mf_links m) path)\<rparr>"

section \<open>The tests of \<open>scan\<close>\<close>

text \<open>What a test looks at: the kernels, initrds, command lines and sources of the entries, and the default.\<close>

definition scan_view ::
  "filesystem \<Rightarrow> ((str option \<times> str list \<times> str option \<times> boot_source) list \<times> nat option) option" where
  "scan_view fs =
     map_option (\<lambda>s. (map (\<lambda>e. (be_kernel e, be_initrd e, be_cmdline e, be_source e)) (bs_entries s), bs_default s))
       (res_ok (boot_scan_fs fs))"

definition GRUBENV :: "str list" where
  "GRUBENV = [S ''# GRUB Environment Block'', S ''saved_entry=fedora-6.6.9'', S ''kernelopts=root=UUID=abc ro'']"

definition bls_fixture :: mock_fs where
  "bls_fixture = mock_new
     [(S ''/grub2/grub.cfg'', unlines [S ''insmod blscfg'', S ''blscfg'']),
      (S ''/grub2/grubenv'', unlines GRUBENV),
      (S ''/loader/entries/fedora-6.6.30.conf'',
       unlines [S ''title Fedora 6.6.30'', S ''version 6.6.30-200.fc39'', S ''linux /vmlinuz-6.6.30'',
         S ''initrd /initramfs-6.6.30.img'', S ''options $kernelopts quiet'']),
      (S ''/loader/entries/fedora-6.6.9.conf'',
       unlines [S ''title Fedora 6.6.9'', S ''version 6.6.9-100.fc39'', S ''linux /vmlinuz-6.6.9'',
         S ''initrd /initramfs-6.6.9.img'', S ''options $kernelopts'']),
      (S ''/vmlinuz-6.6.30'', S ''k''), (S ''/vmlinuz-6.6.9'', S ''k''),
      (S ''/initramfs-6.6.30.img'', S ''i''), (S ''/initramfs-6.6.9.img'', S ''i'')]"

lemma bls_with_grubenv_default_and_kernelopts:
  "scan_view (mock_filesystem bls_fixture) = Some
     ([(Some (S ''/vmlinuz-6.6.30''), [S ''/initramfs-6.6.30.img''], Some (S ''root=UUID=abc ro quiet''), SrcBls),
       (Some (S ''/vmlinuz-6.6.9''), [S ''/initramfs-6.6.9.img''], Some (S ''root=UUID=abc ro''), SrcBls)],
      Some 1)"
  by code_simp

definition stale_fixture :: mock_fs where
  "stale_fixture = mock_new
     [(S ''/boot/grub/grub.cfg'',
       unlines [S ''set default=\"1\"'', S ''menuentry 'gone' {'', S '' linux /boot/vmlinuz-old'', S ''}'',
         S ''menuentry 'here' {'', S '' linux /boot/vmlinuz-new'', S '' initrd /boot/initrd.img-new'', S ''}'']),
      (S ''/boot/vmlinuz-new'', S ''k''), (S ''/boot/initrd.img-new'', S ''i'')]"

lemma stale_grub_entries_are_dropped:
  "scan_view (mock_filesystem stale_fixture) = Some
     ([(Some (S ''/boot/vmlinuz-new''), [S ''/boot/initrd.img-new''], None, SrcGrub)], Some 0)"
  by code_simp

definition chainloader_fixture :: mock_fs where
  "chainloader_fixture = mock_new
     [(S ''/boot/grub/grub.cfg'',
       unlines [S ''set default=\"1\"'', S ''menuentry 'Debian' {'', S '' linux /boot/vmlinuz-6.6.9'', S ''}'',
         S ''menuentry 'Windows Boot Manager' {'', S '' chainloader /EFI/Microsoft/Boot/bootmgfw.efi'', S ''}'',
         S ''menuentry 'UEFI Firmware Settings' {'', S '' fwsetup'', S ''}'']),
      (S ''/boot/vmlinuz-6.6.9'', S ''k'')]"

lemma chainloader_entries_survive_the_stale_sweep:
  "map_option (\<lambda>s. (map (\<lambda>e. (be_kernel e, be_chainloader e, entry_kind_of e)) (bs_entries s), bs_default s))
     (res_ok (boot_scan_fs (mock_filesystem chainloader_fixture))) = Some
     ([(Some (S ''/boot/vmlinuz-6.6.9''), None, KindLinux),
       (None, Some (S ''/EFI/Microsoft/Boot/bootmgfw.efi''), KindLinux)], Some 1)"
  by code_simp

definition fallback_fixture :: mock_fs where
  "fallback_fixture = mock_link (S ''/boot/vmlinuz'') (S ''vmlinuz-6.6.9-100.fc39'') (mock_new
     [(S ''/boot/vmlinuz-6.6.9-100.fc39'', S ''k''), (S ''/boot/vmlinuz-6.6.30-200.fc39'', S ''k''),
      (S ''/boot/vmlinuz-0-rescue-deadbeef'', S ''k''), (S ''/boot/initramfs-6.6.9-100.fc39.img'', S ''i''),
      (S ''/boot/initramfs-6.6.30-200.fc39.img'', S ''i'')])"

lemma fallback_sorts_by_version_and_honors_symlink:
  "scan_view (mock_filesystem fallback_fixture) = Some
     ([(Some (S ''/boot/vmlinuz-6.6.30-200.fc39''), [S ''/boot/initramfs-6.6.30-200.fc39.img''], None, SrcFallback),
       (Some (S ''/boot/vmlinuz-6.6.9-100.fc39''), [S ''/boot/initramfs-6.6.9-100.fc39.img''], None, SrcFallback)],
      Some 1)"
  by code_simp

definition extlinux_fixture :: mock_fs where
  "extlinux_fixture = mock_new
     [(S ''/boot/extlinux/extlinux.conf'',
       unlines [S ''default lts'', S ''label virt'', S '' kernel /boot/vmlinuz-virt'', S ''label lts'',
         S '' kernel /boot/vmlinuz-lts'', S '' append root=/dev/vda1'']),
      (S ''/boot/vmlinuz-virt'', S ''k''), (S ''/boot/vmlinuz-lts'', S ''k'')]"

lemma extlinux_default_label:
  "scan_view (mock_filesystem extlinux_fixture) = Some
     ([(Some (S ''/boot/vmlinuz-virt''), [], None, SrcExtlinux),
       (Some (S ''/boot/vmlinuz-lts''), [], Some (S ''root=/dev/vda1''), SrcExtlinux)], Some 1)"
  by code_simp

section \<open>The tests of \<open>dma_restricted_pool\<close>\<close>

definition first_dma :: "mock_fs \<Rightarrow> bool option option" where
  "first_dma m =
     (let fs = mock_filesystem m in
      Option.bind (res_ok (boot_scan_fs fs)) (\<lambda>s.
        map_option (dma_restricted_pool fs) (get (bs_entries s) 0)))"

definition dma_fixture :: mock_fs where
  "dma_fixture = mock_new
     [(S ''/boot/vmlinuz-6.1.0-37-arm64'', S ''k''), (S ''/boot/initrd.img-6.1.0-37-arm64'', S ''i''),
      (S ''/boot/config-6.1.0-37-arm64'',
       unlines [S ''CONFIG_SWIOTLB=y'', S ''CONFIG_DMA_RESTRICTED_POOL=y'', S ''# CONFIG_FOO is not set''])]"

definition dma_unset_fixture :: mock_fs where
  "dma_unset_fixture = mock_new
     [(S ''/boot/vmlinuz-6.1.0-37-arm64'', S ''k''),
      (S ''/boot/config-6.1.0-37-arm64'', unlines [S ''# CONFIG_DMA_RESTRICTED_POOL is not set''])]"

definition dma_unknown_fixture :: mock_fs where
  "dma_unknown_fixture = mock_new [(S ''/boot/vmlinuz-6.1.0-37-arm64'', S ''k'')]"

lemma dma_restricted_pool_reads_matching_config: "first_dma dma_fixture = Some (Some True)"
  by code_simp

lemma dma_restricted_pool_disabled_when_not_set: "first_dma dma_unset_fixture = Some (Some False)"
  by code_simp

lemma dma_restricted_pool_unknown_without_config_file: "first_dma dma_unknown_fixture = Some None"
  by code_simp

section \<open>The tests of \<open>grub\<close>\<close>

definition ubuntu_style :: "str list" where
  "ubuntu_style =
     [[], S ''# generated by grub-mkconfig'', S ''function gfxmode {'', S ''    set gfxpayload=\"${1}\"'',
      S ''}'', S ''set default=\"${saved_entry}\"'',
      S ''if [ x\"${feature_menuentry_id}\" = xy ]; then'', S ''  menuentry_id_option=\"--id\"'', S ''fi'',
      S ''menuentry 'Ubuntu' --class ubuntu $menuentry_id_option 'gnulinux-simple-uuid1' {'',
      S ''    search --no-floppy --fs-uuid --set=root uuid1'',
      S ''    linux   /boot/vmlinuz-5.15.0-105-generic root=UUID=uuid1 ro console=ttyS0'',
      S ''    initrd  /boot/initrd.img-5.15.0-105-generic'',
      S ''}'',
      S ''submenu 'Advanced options for Ubuntu' $menuentry_id_option 'gnulinux-advanced-uuid1' {'',
      S ''    menuentry 'Ubuntu, with Linux 5.15.0-105-generic' $menuentry_id_option 'gnulinux-5.15.0-105-generic-advanced-uuid1' {'',
      S ''        linux   /boot/vmlinuz-5.15.0-105-generic root=UUID=uuid1 ro'',
      S ''        initrd  /boot/initrd.img-5.15.0-105-generic'',
      S ''    }'',
      S ''    menuentry 'Ubuntu, with Linux 5.15.0-91-generic' $menuentry_id_option 'gnulinux-5.15.0-91-generic-advanced-uuid1' {'',
      S ''        linux   /boot/vmlinuz-5.15.0-91-generic root=UUID=uuid1 ro'',
      S ''        initrd  /boot/initrd.img-5.15.0-91-generic'',
      S ''    }'',
      S ''}'']"

definition ubuntu_entry :: "string \<Rightarrow> string \<Rightarrow> string \<Rightarrow> string \<Rightarrow> boot_entry" where
  "ubuntu_entry title i version cmdline =
     default_entry_value\<lparr>be_title := Some (S title), be_id := Some (S i), be_source := SrcGrub,
       be_kernel := Some (S (''/boot/vmlinuz-'' @ version)),
       be_initrd := [S (''/boot/initrd.img-'' @ version)], be_cmdline := Some (S cmdline)\<rparr>"

definition ubuntu_raw :: "grub_raw list" where
  "ubuntu_raw =
     [\<lparr>gr_entry = ubuntu_entry ''Ubuntu'' ''gnulinux-simple-uuid1'' ''5.15.0-105-generic''
         ''root=UUID=uuid1 ro console=ttyS0'', gr_top = 0, gr_sub = None\<rparr>,
      \<lparr>gr_entry = ubuntu_entry ''Ubuntu, with Linux 5.15.0-105-generic''
         ''gnulinux-5.15.0-105-generic-advanced-uuid1'' ''5.15.0-105-generic''
         ''root=UUID=uuid1 ro'', gr_top = 1, gr_sub = Some 0\<rparr>,
      \<lparr>gr_entry = ubuntu_entry ''Ubuntu, with Linux 5.15.0-91-generic''
         ''gnulinux-5.15.0-91-generic-advanced-uuid1'' ''5.15.0-91-generic''
         ''root=UUID=uuid1 ro'', gr_top = 1, gr_sub = Some 1\<rparr>]"

definition ubuntu_submenus :: "grub_submenu list" where
  "ubuntu_submenus =
     [\<lparr>gm_top = 1, gm_id = Some (S ''gnulinux-advanced-uuid1''),
       gm_title = Some (S ''Advanced options for Ubuntu'')\<rparr>]"

lemma parses_entries_and_submenu:
  "grub_lines Map.empty ubuntu_style grub_initial =
     grub_initial\<lparr>st_raw := ubuntu_raw, st_submenus := ubuntu_submenus, st_default_spec := Some [],
       st_top_count := 2\<rparr>"
  by code_simp

text \<open>The tests of the default, by the value of \<open>saved_entry\<close>.\<close>

definition ubuntu_defaults :: "(string \<times> nat) list" where
  "ubuntu_defaults =
     [('''', 0), (''1>1'', 2),
      (''gnulinux-advanced-uuid1>gnulinux-5.15.0-91-generic-advanced-uuid1'', 2),
      (''Advanced options for Ubuntu>Ubuntu, with Linux 5.15.0-105-generic'', 1),
      (''gnulinux-advanced-uuid1'', 1),
      (''gnulinux-advanced-uuid1>1'', 2),
      (''gnulinux-5.15.0-91-generic-advanced-uuid1'', 2)]"

lemma saved_entry_picks_default:
  "\<forall>(spec, d) \<in> set ubuntu_defaults. resolve_default ubuntu_raw ubuntu_submenus (S spec) = Some d"
  by code_simp

text \<open>os-prober's dual-boot items.\<close>

definition osprober :: "str list" where
  "osprober =
     [[], S ''set default=\"osprober-efi-1234-ABCD\"'',
      S ''menuentry 'Debian GNU/Linux' $menuentry_id_option 'debian' {'',
      S ''    linux /vmlinuz-6.6.9 root=UUID=uuid1 ro'',
      S ''    initrd /initramfs-6.6.9.img'',
      S ''}'',
      S ''menuentry 'Windows Boot Manager (on /dev/sda1)' --class windows $menuentry_id_option 'osprober-efi-1234-ABCD' {'',
      S ''    insmod part_gpt'',
      S ''    search --no-floppy --fs-uuid --set=root 1234-ABCD'',
      S ''    chainloader /EFI/Microsoft/Boot/bootmgfw.efi'',
      S ''}'',
      S ''menuentry 'Older Windows (on /dev/sda3)' $menuentry_id_option 'osprober-chain-sda3' {'',
      S ''    chainloader +1'',
      S ''}'']"

lemma parses_chainloader_entries:
  "(case grub_parse_str (unlines osprober) Map.empty of scan \<Rightarrow>
     (map (\<lambda>e. (be_kernel e, be_chainloader e)) (gs_entries scan), gs_default scan)) =
   ([(Some (S ''/vmlinuz-6.6.9''), None), (None, Some (S ''/EFI/Microsoft/Boot/bootmgfw.efi'')),
     (None, Some (S ''+1''))], Some 1)"
  by code_simp

text \<open>\<open>blscfg\<close>, and \<open>$kernelopts\<close> from the environment block.\<close>

definition kernelopts_cfg :: "str list" where
  "kernelopts_cfg = [S ''menuentry 'F' {'', S ''  linux ($root)/vmlinuz-6.6 $kernelopts quiet'', S ''}'']"

lemma detects_blscfg_and_expands_kernelopts:
  "gs_uses_bls (grub_parse_str (unlines [[], S ''insmod blscfg'', S ''blscfg'']) Map.empty)"
  "map (\<lambda>e. (be_kernel e, be_cmdline e))
     (gs_entries (grub_parse_str (unlines kernelopts_cfg) [S ''kernelopts'' \<mapsto> S ''root=UUID=x ro''])) =
   [(Some (S ''/vmlinuz-6.6''), Some (S ''root=UUID=x ro quiet''))]"
  by code_simp+

end
