(* ===== verification/Vdafix.thy ===== *)
theory Vdafix
  imports Part "HOL-Library.Code_Target_Nat"
begin

text \<open>
  src/src/vdafix.rs: \<open>root=\<close> and \<open>resume=\<close> device names of a kernel command line become \<open>PARTUUID=\<close>.
  The lemmas show that the words of the line are rewritten one by one and nothing else changes, that
  a second pass finds nothing to do, and when the slice of \<open>partition_number\<close> panics.
\<close>

definition VDA_PARAMS :: "str list" where
  "VDA_PARAMS = [S ''root'', S ''resume'']"

section \<open>Partition numbers\<close>

text \<open>
  The trailing digits of the name. \<open>rfind\<close> gives the byte position of the last character that is no
  digit, and one more is where the digits are taken to begin; after a character of several bytes
  this is inside it, and the slice panics.
\<close>

definition digit_suffix :: "str \<Rightarrow> str" where
  "digit_suffix name = rev (takeWhile is_ascii_digit (rev name))"

definition digit_stem :: "str \<Rightarrow> str" where
  "digit_stem name = rev (dropWhile is_ascii_digit (rev name))"

definition disk_stem :: "str \<Rightarrow> bool" where
  "disk_stem stem \<longleftrightarrow>
     (case strip_suffix (S ''p'') stem of
        Some base \<Rightarrow> starts_with (S ''nvme'') base \<or> starts_with (S ''mmcblk'') base
      | None \<Rightarrow>
          list_ex (\<lambda>pre. case strip_prefix pre stem of
                           Some l \<Rightarrow> l \<noteq> [] \<and> list_all is_ascii_lowercase l
                         | None \<Rightarrow> False)
            [S ''sd'', S ''vd'', S ''hd'', S ''xvd''])"

definition partition_number :: "str \<Rightarrow> nat option result" where
  "partition_number dev =
     (case strip_prefix (S ''/dev/'') dev of
        None \<Rightarrow> Ok None
      | Some name \<Rightarrow>
          let stem = digit_stem name; digits = digit_suffix name
          in if stem = [] then Ok None
             else if 128 \<le> last stem then Err Panic
             else if digits = [] then Ok None
             else case parse_usize digits of
                    None \<Rightarrow> Ok None
                  | Some num \<Rightarrow> Ok (if disk_stem stem then Some num else None))"

section \<open>Tokens\<close>

definition fix_token :: "str \<Rightarrow> partition_table \<Rightarrow> str option result" where
  "fix_token token table =
     (case split_once (ch CHR ''='') token of
        None \<Rightarrow> Ok None
      | Some (key, value) \<Rightarrow>
          if key \<notin> set VDA_PARAMS then Ok None
          else rbind (partition_number value) (\<lambda>n.
            case n of
              None \<Rightarrow> Ok None
            | Some n \<Rightarrow>
                (case find (\<lambda>p. p_index p = n) (pt_partitions table) of
                   None \<Rightarrow> Ok None
                 | Some part \<Rightarrow> Ok (map_option (\<lambda>uuid. key @ S ''=PARTUUID='' @ uuid) (p_part_uuid part)))))"

text \<open>The loop: a token, then white space, until nothing is left.\<close>

lemma next_token_shorter:
  assumes "rest \<noteq> []"
  shows "length (dropWhile is_whitespace (dropWhile (\<lambda>c. \<not> is_whitespace c) rest)) < length rest"
proof (cases rest)
  case (Cons c cs)
  show ?thesis
  proof (cases "is_whitespace c")
    case True
    with Cons show ?thesis by (simp add: length_dropWhile_le le_imp_less_Suc)
  next
    case False
    have "length (dropWhile is_whitespace (dropWhile (\<lambda>c. \<not> is_whitespace c) cs)) \<le> length cs"
      by (rule order_trans [OF length_dropWhile_le length_dropWhile_le])
    with Cons False show ?thesis by simp
  qed
qed (use assms in simp)

function fix_loop :: "partition_table \<Rightarrow> str \<Rightarrow> str \<Rightarrow> bool \<Rightarrow> (str \<times> bool) result" where
  "fix_loop table rest out changed =
     (if rest = [] then Ok (out, changed)
      else
        let token = takeWhile (\<lambda>c. \<not> is_whitespace c) rest;
            tail = dropWhile (\<lambda>c. \<not> is_whitespace c) rest;
            ws = takeWhile is_whitespace tail;
            rest' = dropWhile is_whitespace tail
        in case fix_token token table of
             Inl e \<Rightarrow> Err e
           | Inr (Some fixed) \<Rightarrow> fix_loop table rest' (out @ fixed @ ws) True
           | Inr None \<Rightarrow> fix_loop table rest' (out @ token @ ws) changed)"
  by pat_completeness auto
termination
  by (relation "measure (\<lambda>(table, rest, out, changed). length rest)") (auto simp: next_token_shorter)

declare fix_loop.simps [simp del]

definition fix_cmdline :: "str \<Rightarrow> partition_table \<Rightarrow> str option result" where
  "fix_cmdline cmdline table =
     rbind (fix_loop table cmdline [] False) (\<lambda>(out, changed). Ok (if changed then Some out else None))"

section \<open>Word by word\<close>

text \<open>What a word becomes.\<close>

definition fixed_word :: "partition_table \<Rightarrow> str \<Rightarrow> str" where
  "fixed_word table w = (case fix_token w table of Ok (Some f) \<Rightarrow> f | _ \<Rightarrow> w)"

definition uuids_ok :: "partition_table \<Rightarrow> bool" where
  "uuids_ok table \<longleftrightarrow>
     (\<forall>p \<in> set (pt_partitions table). \<forall>u. p_part_uuid p = Some u \<longrightarrow> (\<forall>c \<in> set u. \<not> is_whitespace c))"

lemma fix_token_Nil [simp]: "fix_token [] table = Ok None"
  by (simp add: fix_token_def)

lemma fix_token_Some:
  assumes "fix_token w table = Ok (Some f)"
  obtains key "value" p u where "split_once (ch CHR ''='') w = Some (key, value)" "key \<in> set VDA_PARAMS"
    "p \<in> set (pt_partitions table)" "p_part_uuid p = Some u" "f = key @ S ''=PARTUUID='' @ u"
    "partition_number value = Ok (Some (p_index p))"
proof -
  obtain kv where sp: "split_once (ch CHR ''='') w = Some kv"
    using assms by (cases "split_once (ch CHR ''='') w") (auto simp: fix_token_def)
  obtain key "value" where kv: "kv = (key, value)" by (cases kv)
  have key: "key \<in> set VDA_PARAMS" using assms sp kv by (auto simp: fix_token_def split: if_splits)
  obtain k where k: "partition_number value = Ok k"
    using assms sp kv key by (cases "partition_number value") (auto simp: fix_token_def)
  obtain n where n: "k = Some n" using assms sp kv key k by (cases k) (auto simp: fix_token_def)
  obtain p where p: "find (\<lambda>p. p_index p = n) (pt_partitions table) = Some p"
    using assms sp kv key k n
    by (cases "find (\<lambda>p. p_index p = n) (pt_partitions table)") (auto simp: fix_token_def)
  obtain u where u: "p_part_uuid p = Some u" "f = key @ S ''=PARTUUID='' @ u"
    using assms sp kv key k n p by (auto simp: fix_token_def)
  show thesis
    using that [of key "value" p u] sp kv key find_Some_in [OF p] u k n by simp
qed

lemma VDA_PARAMS_plain: "key \<in> set VDA_PARAMS \<Longrightarrow> is_word key \<and> ch CHR ''='' \<notin> set key"
  by (auto simp: VDA_PARAMS_def is_word_def is_whitespace_def)

lemma fixed_token_word:
  assumes "uuids_ok table" and "fix_token w table = Ok (Some f)"
  shows "is_word f" and "fix_token f table = Ok None"
proof -
  obtain key "value" p u where f: "key \<in> set VDA_PARAMS" "p \<in> set (pt_partitions table)"
    "p_part_uuid p = Some u" "f = key @ S ''=PARTUUID='' @ u"
    by (rule fix_token_Some [OF assms(2)])
  then have u: "\<forall>c \<in> set u. \<not> is_whitespace c" using assms(1) by (auto simp: uuids_ok_def)
  show "is_word f" using VDA_PARAMS_plain [OF f(1)] u
    by (auto simp: f(4) is_word_def) (simp_all add: is_whitespace_def)
  have "split_once (ch CHR ''='') (key @ ch CHR ''='' # (S ''PARTUUID='' @ u)) = Some (key, S ''PARTUUID='' @ u)"
    using VDA_PARAMS_plain [OF f(1)]
    by (intro split_once_append [where P = "\<lambda>x. x = ch CHR ''=''"]) auto
  then show "fix_token f table = Ok None"
    by (simp add: f(4) fix_token_def partition_number_def)
qed

lemma split_whitespace_blank: "\<forall>c \<in> set ws. is_whitespace c \<Longrightarrow> split_whitespace (ws @ s) = split_whitespace s"
  by (induction ws) (auto simp: split_whitespace_def)

lemma split_whitespace_word: "is_word w \<Longrightarrow> split_whitespace w = [w]"
  using split_by_plain [of w is_whitespace] by (simp add: split_whitespace_def is_word_def)

lemma split_whitespace_word_blank:
  assumes "is_word w" and "\<forall>c \<in> set ws. is_whitespace c" and "ws \<noteq> []"
  shows "split_whitespace (w @ ws @ s) = w # split_whitespace s"
proof -
  obtain b bs where ws: "ws = b # bs" using assms(3) by (cases ws) auto
  have "split_by is_whitespace (w @ b # (bs @ s)) = w # split_by is_whitespace (bs @ s)"
    using assms(1,2) ws by (intro split_by_append_sep) (auto simp: is_word_def)
  then have "split_whitespace (w @ b # (bs @ s)) = w # split_whitespace (bs @ s)"
    using assms(1) by (simp add: split_whitespace_def is_word_def)
  with assms(2) ws show ?thesis by (simp add: split_whitespace_blank)
qed

text \<open>One token and its white space off the front of a line.\<close>

lemma next_token:
  assumes "rest \<noteq> []"
  defines "token \<equiv> takeWhile (\<lambda>c. \<not> is_whitespace c) rest"
  defines "tail \<equiv> dropWhile (\<lambda>c. \<not> is_whitespace c) rest"
  shows "rest = token @ takeWhile is_whitespace tail @ dropWhile is_whitespace tail"
    and "\<forall>c \<in> set token. \<not> is_whitespace c" and "\<forall>c \<in> set (takeWhile is_whitespace tail). is_whitespace c"
    and "takeWhile is_whitespace tail = [] \<Longrightarrow> dropWhile is_whitespace tail = []"
    and "token = [] \<Longrightarrow> takeWhile is_whitespace tail \<noteq> []"
proof -
  show "rest = token @ takeWhile is_whitespace tail @ dropWhile is_whitespace tail"
    by (simp add: token_def tail_def)
  show "\<forall>c \<in> set token. \<not> is_whitespace c" by (auto simp: token_def dest: set_takeWhileD)
  show "\<forall>c \<in> set (takeWhile is_whitespace tail). is_whitespace c" by (auto dest: set_takeWhileD)
  have hd: "tail \<noteq> [] \<Longrightarrow> is_whitespace (hd tail)"
    using hd_dropWhile [of "\<lambda>c. \<not> is_whitespace c" rest] by (simp add: tail_def)
  then show "takeWhile is_whitespace tail = [] \<Longrightarrow> dropWhile is_whitespace tail = []"
    by (cases tail) auto
  have "token = [] \<Longrightarrow> tail = rest" by (simp add: token_def tail_def takeWhile_eq_Nil_iff dropWhile_eq_self_iff)
  with hd assms(1) show "token = [] \<Longrightarrow> takeWhile is_whitespace tail \<noteq> []" by (cases tail) auto
qed

lemma fix_loop_words:
  assumes "uuids_ok table"
  shows "fix_loop table rest out changed = Ok (out', changed') \<Longrightarrow>
    \<exists>s. out' = out @ s \<and> split_whitespace s = map (fixed_word table) (split_whitespace rest) \<and>
      filter is_whitespace s = filter is_whitespace rest \<and>
      (changed' \<longleftrightarrow> changed \<or> (\<exists>w \<in> set (split_whitespace rest). \<exists>f. fix_token w table = Ok (Some f)))"
proof (induction "length rest" arbitrary: rest out changed rule: less_induct)
  case less
  show ?case
  proof (cases "rest = []")
    case True
    with less.prems show ?thesis
      by (intro exI [of _ "[]"]) (simp add: fix_loop.simps [of table "[]"] split_whitespace_def)
  next
    case False
    define token where "token = takeWhile (\<lambda>c. \<not> is_whitespace c) rest"
    define ws where "ws = takeWhile is_whitespace (dropWhile (\<lambda>c. \<not> is_whitespace c) rest)"
    define rest' where "rest' = dropWhile is_whitespace (dropWhile (\<lambda>c. \<not> is_whitespace c) rest)"
    note nt = next_token [OF False, folded token_def ws_def rest'_def]
    obtain r where r: "fix_token token table = Ok r"
      using less.prems False
      by (cases "fix_token token table") (auto simp: fix_loop.simps [of table rest] Let_def token_def)
    let ?t = "fixed_word table token"
    have run: "fix_loop table rest' (out @ ?t @ ws) (changed \<or> r \<noteq> None) = Ok (out', changed')"
      using less.prems False r
      by (cases r) (simp_all add: fix_loop.simps [of table rest] Let_def token_def ws_def rest'_def fixed_word_def)
    have "length rest' < length rest" using next_token_shorter [OF False] by (simp add: rest'_def)
    from less.hyps [OF this run] obtain s where s: "out' = (out @ ?t @ ws) @ s"
      "split_whitespace s = map (fixed_word table) (split_whitespace rest')"
      "filter is_whitespace s = filter is_whitespace rest'"
      "changed' \<longleftrightarrow> (changed \<or> r \<noteq> None) \<or>
        (\<exists>w \<in> set (split_whitespace rest'). \<exists>f. fix_token w table = Ok (Some f))" by blast
    have rest: "rest = token @ ws @ rest'" by (rule nt(1))
    have blank: "filter is_whitespace ?t = filter is_whitespace token"
    proof (cases r)
      case (Some f)
      with r fixed_token_word(1) [OF assms, of token f] nt(2) show ?thesis
        by (auto simp: fixed_word_def is_word_def filter_empty_conv)
    qed (use r in \<open>simp add: fixed_word_def\<close>)
    show ?thesis
    proof (cases "token = []")
      case True
      with r have "r = None" by simp
      moreover have "?t = []" using True by (simp add: fixed_word_def)
      moreover have "split_whitespace (ws @ x) = split_whitespace x" for x
        using nt(3) by (rule split_whitespace_blank)
      ultimately show ?thesis using s True rest by (intro exI [of _ "ws @ s"]) simp
    next
      case tok: False
      then have word: "is_word token" using nt(2) by (simp add: is_word_def)
      have tword: "is_word ?t"
        using r word fixed_token_word(1) [OF assms, of token] by (cases r) (auto simp: fixed_word_def)
      have words: "split_whitespace (w @ ws @ x) = w # split_whitespace x"
        if "is_word w" "ws = [] \<Longrightarrow> x = []" for w x
        using that split_whitespace_word_blank [OF that(1) nt(3)] split_whitespace_word [OF that(1)]
        by (cases "ws = []") (auto simp: split_whitespace_def)
      have s0: "ws = [] \<Longrightarrow> s = []"
      proof -
        assume "ws = []"
        then have e: "rest' = []" by (rule nt(4))
        with s(2,3) show "s = []" using run
          by (simp add: fix_loop.simps [of table "[]"]) (use s(1) in simp)
      qed
      have "split_whitespace (?t @ ws @ s) = map (fixed_word table) (split_whitespace rest)"
        using words [OF tword s0] words [OF word nt(4)] s(2) by (simp add: rest)
      moreover have "filter is_whitespace (?t @ ws @ s) = filter is_whitespace rest"
        using blank s(3) by (simp add: rest)
      moreover have "changed' \<longleftrightarrow> changed \<or>
          (\<exists>w \<in> set (split_whitespace rest). \<exists>f. fix_token w table = Ok (Some f))"
        using s(4) words [OF word nt(4)] r by (auto simp: rest)
      ultimately show ?thesis using s(1) by (intro exI [of _ "?t @ ws @ s"]) simp
    qed
  qed
qed

section \<open>When it panics\<close>

text \<open>A device name whose last character that is no digit takes several bytes.\<close>

definition splits_char :: "str \<Rightarrow> bool" where
  "splits_char w \<longleftrightarrow>
     (\<exists>key name. key \<in> set VDA_PARAMS \<and> w = key @ S ''=/dev/'' @ name \<and> digit_stem name \<noteq> [] \<and>
        128 \<le> last (digit_stem name))"

lemma partition_number_Err:
  "partition_number dev = Err e \<longleftrightarrow>
    e = Panic \<and> (\<exists>name. dev = S ''/dev/'' @ name \<and> digit_stem name \<noteq> [] \<and> 128 \<le> last (digit_stem name))"
proof (cases "strip_prefix (S ''/dev/'') dev")
  case None
  then have "\<not> (\<exists>name. dev = S ''/dev/'' @ name)" by (simp only: strip_prefix_None) blast
  moreover have "partition_number dev = Ok None" using None by (simp add: partition_number_def)
  ultimately show ?thesis by auto
next
  case (Some name)
  then have "dev = S ''/dev/'' @ name" by (simp only: strip_prefix_Some)
  with Some show ?thesis by (auto simp: partition_number_def Let_def split: option.splits)
qed

lemma fix_token_Err: "fix_token w table = Err e \<longleftrightarrow> e = Panic \<and> splits_char w"
proof (cases "split_once (ch CHR ''='') w")
  case None
  then have "ch CHR ''='' \<notin> set w" by (auto simp: split_once_None)
  with None show ?thesis by (auto simp: fix_token_def splits_char_def)
next
  case (Some kv)
  then obtain key "value" where kv: "split_once (ch CHR ''='') w = Some (key, value)" by (cases kv) auto
  then have w: "w = key @ ch CHR ''='' # value" and key: "ch CHR ''='' \<notin> set key"
    by (auto simp: split_once_Some)
  have "partition_number value = Err e \<longleftrightarrow> e = Panic \<and>
      (\<exists>name. value = S ''/dev/'' @ name \<and> digit_stem name \<noteq> [] \<and> 128 \<le> last (digit_stem name))"
    by (rule partition_number_Err)
  moreover have "fix_token w table = Err e \<longleftrightarrow> key \<in> set VDA_PARAMS \<and> partition_number value = Err e"
  proof (cases "key \<in> set VDA_PARAMS")
    case True
    with kv have "fix_token w table = rbind (partition_number value) (\<lambda>n.
        case n of None \<Rightarrow> Ok None
        | Some n \<Rightarrow>
            (case find (\<lambda>p. p_index p = n) (pt_partitions table) of
               None \<Rightarrow> Ok None
             | Some part \<Rightarrow> Ok (map_option (\<lambda>uuid. key @ S ''=PARTUUID='' @ uuid) (p_part_uuid part))))"
      by (simp add: fix_token_def)
    with True show ?thesis by (auto simp: rbind_eq_Err split: option.splits)
  qed (use kv in \<open>simp add: fix_token_def\<close>)
  moreover have "splits_char w \<longleftrightarrow> key \<in> set VDA_PARAMS \<and>
      (\<exists>name. value = S ''/dev/'' @ name \<and> digit_stem name \<noteq> [] \<and> 128 \<le> last (digit_stem name))"
  proof
    assume "splits_char w"
    then obtain k name where k: "k \<in> set VDA_PARAMS" "w = k @ ch CHR ''='' # (S ''/dev/'' @ name)"
      "digit_stem name \<noteq> []" "128 \<le> last (digit_stem name)" by (auto simp: splits_char_def)
    then have "split_once (ch CHR ''='') w = Some (k, S ''/dev/'' @ name)"
      using VDA_PARAMS_plain [OF k(1)] unfolding k(2)
      by (intro split_once_append [where P = "\<lambda>x. x = ch CHR ''=''"]) auto
    with kv k show "key \<in> set VDA_PARAMS \<and>
      (\<exists>name. value = S ''/dev/'' @ name \<and> digit_stem name \<noteq> [] \<and> 128 \<le> last (digit_stem name))" by auto
  qed (auto simp: splits_char_def w)
  ultimately show ?thesis by blast
qed

lemma fix_loop_Err:
  "fix_loop table rest out changed = Err e \<longleftrightarrow> e = Panic \<and> (\<exists>w \<in> set (split_whitespace rest). splits_char w)"
proof (induction "length rest" arbitrary: rest out changed rule: less_induct)
  case less
  show ?case
  proof (cases "rest = []")
    case True
    then show ?thesis by (simp add: fix_loop.simps [of table "[]"] split_whitespace_def)
  next
    case False
    define token where "token = takeWhile (\<lambda>c. \<not> is_whitespace c) rest"
    define ws where "ws = takeWhile is_whitespace (dropWhile (\<lambda>c. \<not> is_whitespace c) rest)"
    define rest' where "rest' = dropWhile is_whitespace (dropWhile (\<lambda>c. \<not> is_whitespace c) rest)"
    note nt = next_token [OF False, folded token_def ws_def rest'_def]
    have IH: "fix_loop table rest' o' c' = Err e \<longleftrightarrow>
        e = Panic \<and> (\<exists>w \<in> set (split_whitespace rest'). splits_char w)" for o' c'
      using next_token_shorter [OF False] by (intro less.hyps) (simp add: rest'_def)
    have words: "set (split_whitespace rest) =
        (if token = [] then {} else {token}) \<union> set (split_whitespace rest')"
    proof (cases "token = []")
      case True
      with split_whitespace_blank [OF nt(3), of rest'] nt(1) show ?thesis by simp
    next
      case tok: False
      then have word: "is_word token" using nt(2) by (simp add: is_word_def)
      have "split_whitespace (token @ ws @ rest') = token # split_whitespace rest'"
        using split_whitespace_word_blank [OF word nt(3)] split_whitespace_word [OF word] nt(4)
        by (cases "ws = []") (auto simp: split_whitespace_def)
      with nt(1) tok show ?thesis by simp
    qed
    have empty: "token = [] \<Longrightarrow> \<not> splits_char token" by (simp add: splits_char_def)
    show ?thesis
    proof (cases "fix_token token table")
      case (Inl e')
      then have "e' = Panic" "splits_char token" using fix_token_Err [of token table e'] by auto
      with Inl False words empty show ?thesis
        by (auto simp: fix_loop.simps [of table rest] Let_def token_def)
    next
      case (Inr r)
      then have "\<not> splits_char token" using fix_token_Err [of token table Panic] by simp
      with Inr False words IH show ?thesis
        by (cases r) (auto simp: fix_loop.simps [of table rest] Let_def token_def ws_def rest'_def)
    qed
  qed
qed

section \<open>Properties\<close>

text \<open>
  C23: a command line is rewritten word by word. White space stays as it is; each word is what
  \<open>fix_token\<close> makes of it or itself; a new line is returned exactly when some word changed; and it can
  be fixed no further: a second pass over the result finds nothing to do.
\<close>

theorem vdafix_words:
  assumes "uuids_ok table" and "fix_cmdline cmdline table = Ok r"
  shows "(r = None \<longleftrightarrow> (\<forall>w \<in> set (split_whitespace cmdline). fix_token w table = Ok None)) \<and>
    (\<forall>line. r = Some line \<longrightarrow>
       split_whitespace line = map (fixed_word table) (split_whitespace cmdline) \<and>
       filter is_whitespace line = filter is_whitespace cmdline \<and>
       fix_cmdline line table = Ok None)"
proof -
  obtain out changed where run: "fix_loop table cmdline [] False = Ok (out, changed)"
    and r: "r = (if changed then Some out else None)"
    using assms(2) by (auto simp: fix_cmdline_def rbind_eq_Ok)
  from fix_loop_words [OF assms(1) run]
  have out: "split_whitespace out = map (fixed_word table) (split_whitespace cmdline)"
    "filter is_whitespace out = filter is_whitespace cmdline"
    "changed \<longleftrightarrow> (\<exists>w \<in> set (split_whitespace cmdline). \<exists>f. fix_token w table = Ok (Some f))" by auto
  have ok: "\<exists>x. fix_token w table = Ok x" if "w \<in> set (split_whitespace cmdline)" for w
  proof (cases "fix_token w table")
    case (Inl e)
    with fix_token_Err [of w table e] fix_loop_Err [of table cmdline "[]" False Panic] that run
    show ?thesis by auto
  qed simp
  have fixed: "fix_token (fixed_word table w) table = Ok None" if "w \<in> set (split_whitespace cmdline)" for w
  proof -
    from ok [OF that] obtain x where x: "fix_token w table = Ok x" by blast
    with fixed_token_word(2) [OF assms(1), of w] show ?thesis by (cases x) (auto simp: fixed_word_def)
  qed
  have "\<not> splits_char (fixed_word table w)" if "w \<in> set (split_whitespace cmdline)" for w
    using fixed [OF that] fix_token_Err [of "fixed_word table w" table Panic] by simp
  then have nosplit: "\<not> (\<exists>w \<in> set (split_whitespace out). splits_char w)" by (auto simp: out(1))
  then obtain o2 c2 where run2: "fix_loop table out [] False = Ok (o2, c2)"
    using fix_loop_Err [of table out "[]" False] by (cases "fix_loop table out [] False") auto
  from fix_loop_words [OF assms(1) run2] have "c2 \<longleftrightarrow> False" using fixed by (auto simp: out(1))
  with run2 have "fix_cmdline out table = Ok None" by (simp add: fix_cmdline_def)
  moreover have "changed \<longleftrightarrow> \<not> (\<forall>w \<in> set (split_whitespace cmdline). fix_token w table = Ok None)"
    using out(3) ok by (metis not_Some_eq sum.inject(2))
  ultimately show ?thesis using out r by auto
qed

text \<open>The table of the unit tests: partitions by index, with or without an identifier.\<close>

definition vda_table :: "(nat \<times> string option) list \<Rightarrow> partition_table" where
  "vda_table parts =
     \<lparr>pt_kind = Gpt,
      pt_partitions = map (\<lambda>(index, uuid).
        \<lparr>p_index = index, p_start_byte = 0, p_size_bytes = 0, p_kind = S ''Linux filesystem'',
         p_type_id = [], p_name = None, p_probe_worthy = True, p_part_uuid = map_option S uuid\<rparr>) parts\<rparr>"

definition vda_two :: partition_table where
  "vda_two = vda_table [(1, Some ''aaaa-01''), (2, Some ''bbbb-02'')]"

lemma vdafix_words_witness:
  "fix_cmdline (S ''root=/dev/sda2 ro'') vda_two = Ok (Some (S ''root=PARTUUID=bbbb-02 ro'')) \<and>
   fix_cmdline (S ''root=PARTUUID=bbbb-02 ro'') vda_two = Ok None"
proof -
  have run: "fix_cmdline (S ''root=/dev/sda2 ro'') vda_two = Ok (Some (S ''root=PARTUUID=bbbb-02 ro''))"
    by code_simp
  have "uuids_ok vda_two"
    by (auto simp: uuids_ok_def vda_two_def vda_table_def is_whitespace_def)
  from vdafix_words [OF this run] run show ?thesis by blast
qed

text \<open>
  C24: rewriting a command line can panic, and exactly then: some word is \<open>root=/dev/NAME\<close> or
  \<open>resume=/dev/NAME\<close> where the last character of NAME that is no digit is not ASCII, because the slice
  of the digits then starts inside that character. Nothing else makes it fail.
\<close>

theorem vdafix_panics:
  "fix_cmdline cmdline table = Err e \<longleftrightarrow>
     e = Panic \<and>
     (\<exists>w \<in> set (split_whitespace cmdline). \<exists>key name.
        (key = S ''root'' \<or> key = S ''resume'') \<and> w = key @ S ''=/dev/'' @ name \<and>
        digit_stem name \<noteq> [] \<and> 128 \<le> last (digit_stem name))"
proof -
  have "fix_cmdline cmdline table = Err e \<longleftrightarrow> fix_loop table cmdline [] False = Err e"
    by (auto simp: fix_cmdline_def rbind_eq_Err split: prod.splits)
  then show ?thesis unfolding fix_loop_Err by (simp add: splits_char_def VDA_PARAMS_def)
qed

lemma vdafix_panics_witness:
  "fix_cmdline (S ''root=/dev/d'' @ [0xE9] @ S ''2'') vda_two = Err Panic"
proof -
  let ?w = "S ''root=/dev/d'' @ [0xE9] @ S ''2''"
  have "?w \<in> set (split_whitespace ?w)" by code_simp
  moreover have "?w = S ''root'' @ S ''=/dev/'' @ (S ''d'' @ [0xE9] @ S ''2'')" by simp
  moreover have "digit_stem (S ''d'' @ [0xE9] @ S ''2'') \<noteq> [] \<and> 128 \<le> last (digit_stem (S ''d'' @ [0xE9] @ S ''2''))"
    by (simp add: digit_stem_def is_ascii_digit_def)
  ultimately show ?thesis unfolding vdafix_panics by blast
qed

section \<open>The unit tests of the module\<close>

definition partition_number_tests :: "(string \<times> nat option) list" where
  "partition_number_tests =
     [(''/dev/sda2'', Some 2), (''/dev/vdb13'', Some 13), (''/dev/xvda1'', Some 1),
      (''/dev/nvme0n1p3'', Some 3), (''/dev/mmcblk0p2'', Some 2), (''/dev/sda'', None),
      (''/dev/nvme0n1'', None), (''/dev/dm-0'', None), (''UUID=abcd'', None), (''/dev/sd2'', None)]"

lemma partition_number_tests_hold:
  "\<forall>(dev, r) \<in> set partition_number_tests. partition_number (S dev) = Ok r"
  by code_simp

definition vda_one :: partition_table where
  "vda_one = vda_table [(2, Some ''bbbb-02'')]"

definition vda_tests :: "(partition_table \<times> string \<times> string option) list" where
  "vda_tests =
     [(vda_two, ''root=/dev/sda2 ro  resume=/dev/sda1 quiet'',
        Some ''root=PARTUUID=bbbb-02 ro  resume=PARTUUID=aaaa-01 quiet''),
      (vda_one, ''root=UUID=1234 quiet'', None),
      (vda_one, ''root=PARTUUID=bbbb-02'', None),
      (vda_one, ''root=LABEL=cloudimg-rootfs'', None),
      (vda_one, ''root=/dev/sda3'', None),
      (vda_table [(2, None)], ''root=/dev/sda2'', None),
      (vda_one, ''rootfstype=ext4'', None),
      (vda_one, ''root=/dev/vda2 resume=/dev/vda9'', Some ''root=PARTUUID=bbbb-02 resume=/dev/vda9'')]"

lemma vda_tests_hold:
  "\<forall>(table, cmdline, r) \<in> set vda_tests. fix_cmdline (S cmdline) table = Ok (map_option S r)"
  by code_simp

end
