(* ===== verification/Kernel.thy ===== *)
theory Kernel
  imports Bytes "HOL-Library.Code_Target_Nat"
begin

text \<open>
  src/src/kernel.rs: what wraps an arm64 kernel, and its removal. The gzip and zstd decoders (flate2,
  ruzstd) are a parameter, the record \<open>decoders\<close>. The lemmas show what a verdict on a prefix of the file
  says of the file and how long a prefix has to be, that wrapped kernels are unwrapped to what was
  wrapped, and how deep nesting may be.
\<close>

text \<open>
  What the code asks of the decoders: the first bytes of the output if there are as many
  (\<open>read_exact\<close>), and the whole output or an error text (\<open>read_to_end\<close>).
\<close>

record decoders =
  gz_read_exact :: "bytes \<Rightarrow> nat \<Rightarrow> bytes option"
  gz_read_to_end :: "bytes \<Rightarrow> str + bytes"
  zstd_read_to_end :: "bytes \<Rightarrow> str + bytes"

definition ARM64_MAGIC_OFFSET :: nat where "ARM64_MAGIC_OFFSET = 56"
definition ARM64_MAGIC :: bytes where "ARM64_MAGIC = B ''ARMd''"
definition ZIMG_MAGIC_OFFSET :: nat where "ZIMG_MAGIC_OFFSET = 4"
definition ZIMG_MAGIC :: bytes where "ZIMG_MAGIC = B ''zimg''"
definition ZBOOT_PAYLOAD_OFFSET :: nat where "ZBOOT_PAYLOAD_OFFSET = 8"
definition ZBOOT_PAYLOAD_SIZE :: nat where "ZBOOT_PAYLOAD_SIZE = 12"
definition ZBOOT_COMP_TYPE :: nat where "ZBOOT_COMP_TYPE = 24"
definition ZBOOT_COMP_TYPE_LEN :: nat where "ZBOOT_COMP_TYPE_LEN = 32"
definition PE_HEADER_OFFSET_AT :: nat where "PE_HEADER_OFFSET_AT = 0x3c"
definition COFF_NUM_SECTIONS_AT :: nat where "COFF_NUM_SECTIONS_AT = 2"
definition COFF_OPT_HEADER_SIZE_AT :: nat where "COFF_OPT_HEADER_SIZE_AT = 16"
definition COFF_SIZE :: nat where "COFF_SIZE = 20"
definition SECTION_HEADER_SIZE :: nat where "SECTION_HEADER_SIZE = 40"
definition SECTION_RAW_SIZE_AT :: nat where "SECTION_RAW_SIZE_AT = 16"
definition SECTION_RAW_PTR_AT :: nat where "SECTION_RAW_PTR_AT = 20"
definition UKI_LINUX_SECTION :: bytes where "UKI_LINUX_SECTION = B ''.linux'' @ [0, 0]"
definition SNIFF_LEN :: nat where "SNIFF_LEN = 8192"

lemmas kernel_consts = ARM64_MAGIC_OFFSET_def ARM64_MAGIC_def ZIMG_MAGIC_OFFSET_def ZIMG_MAGIC_def
  ZBOOT_PAYLOAD_OFFSET_def ZBOOT_PAYLOAD_SIZE_def ZBOOT_COMP_TYPE_def ZBOOT_COMP_TYPE_LEN_def
  PE_HEADER_OFFSET_AT_def COFF_NUM_SECTIONS_AT_def COFF_OPT_HEADER_SIZE_AT_def COFF_SIZE_def
  SECTION_HEADER_SIZE_def SECTION_RAW_SIZE_AT_def SECTION_RAW_PTR_AT_def UKI_LINUX_SECTION_def

datatype compression_kind = Gzip | Zboot str | Uki

fun compression_label :: "compression_kind \<Rightarrow> str" where
  "compression_label Gzip = S ''gzip''"
| "compression_label (Zboot codec) = S ''zboot+'' @ codec"
| "compression_label Uki = S ''uki''"

section \<open>Telling the wrapper\<close>

definition is_arm64_image :: "bytes \<Rightarrow> bool" where
  "is_arm64_image data \<longleftrightarrow>
     ARM64_MAGIC_OFFSET + length ARM64_MAGIC \<le> length data \<and>
     field data ARM64_MAGIC_OFFSET (length ARM64_MAGIC) = ARM64_MAGIC"

definition is_gzip :: "bytes \<Rightarrow> bool" where
  "is_gzip data \<longleftrightarrow> starts_with [0x1f, 0x8b] data"

definition is_zboot :: "bytes \<Rightarrow> bool" where
  "is_zboot data \<longleftrightarrow>
     ZIMG_MAGIC_OFFSET + length ZIMG_MAGIC \<le> length data \<and>
     field data ZIMG_MAGIC_OFFSET (length ZIMG_MAGIC) = ZIMG_MAGIC"

definition u16_le :: "bytes \<Rightarrow> nat \<Rightarrow> u16 option" where
  "u16_le data at = map_option (\<lambda>b. le16_at b 0) (get_range data at (at + 2))"

definition u32_le :: "bytes \<Rightarrow> nat \<Rightarrow> u32 option" where
  "u32_le data at = map_option (\<lambda>b. le32_at b 0) (get_range data at (at + 4))"

text \<open>The loop over the section headers; offsets are of 64 bits and cannot wrap here.\<close>

fun pe_sections :: "bytes \<Rightarrow> nat \<Rightarrow> nat \<Rightarrow> (nat \<times> nat) option" where
  "pe_sections data header 0 = None"
| "pe_sections data header (Suc n) =
     (case get_range data header (header + 8) of
        None \<Rightarrow> None
      | Some name \<Rightarrow>
          if name = UKI_LINUX_SECTION then
            Option.bind (u32_le data (header + SECTION_RAW_SIZE_AT)) (\<lambda>sz.
            Option.bind (u32_le data (header + SECTION_RAW_PTR_AT)) (\<lambda>ptr.
              Some (unat ptr, unat sz)))
          else pe_sections data (header + SECTION_HEADER_SIZE) n)"

definition pe_linux_section :: "bytes \<Rightarrow> (nat \<times> nat) option" where
  "pe_linux_section data =
     Option.bind (get_range data 0 2) (\<lambda>mz.
     if mz \<noteq> B ''MZ'' then None
     else Option.bind (u32_le data PE_HEADER_OFFSET_AT) (\<lambda>pe.
       let pe_off = unat pe in
       Option.bind (get_range data pe_off (pe_off + 4)) (\<lambda>sig.
       if sig \<noteq> B ''PE'' @ [0, 0] then None
       else
         let coff = pe_off + 4 in
         Option.bind (u16_le data (coff + COFF_NUM_SECTIONS_AT)) (\<lambda>num_sections.
         Option.bind (u16_le data (coff + COFF_OPT_HEADER_SIZE_AT)) (\<lambda>opt_size.
           pe_sections data (coff + COFF_SIZE + unat opt_size) (unat num_sections))))))"

text \<open>\<open>str::from_utf8\<close>: the text, if the bytes are its encoding.\<close>

definition from_utf8 :: "bytes \<Rightarrow> str option" where
  "from_utf8 bs = (if as_bytes (from_utf8_lossy bs) = bs then Some (from_utf8_lossy bs) else None)"

definition zboot_comp_name :: "bytes \<Rightarrow> str option" where
  "zboot_comp_name data =
     Option.bind (get_range data ZBOOT_COMP_TYPE (ZBOOT_COMP_TYPE + ZBOOT_COMP_TYPE_LEN)) (\<lambda>raw.
       let end = unwrap_or (position (\<lambda>b. b = 0) raw) (length raw)
       in case from_utf8 (take end raw) of
            Some s \<Rightarrow> if s \<noteq> [] then Some s else None
          | None \<Rightarrow> None)"

definition gunzip_is_arm64 :: "decoders \<Rightarrow> bytes \<Rightarrow> bool" where
  "gunzip_is_arm64 dec gz \<longleftrightarrow>
     (case gz_read_exact dec gz (ARM64_MAGIC_OFFSET + length ARM64_MAGIC) of
        Some head \<Rightarrow> is_arm64_image head
      | None \<Rightarrow> False)"

definition compression :: "decoders \<Rightarrow> bytes \<Rightarrow> compression_kind option" where
  "compression dec head =
     (if is_arm64_image head then None
      else if is_zboot head then Some (Zboot (unwrap_or (zboot_comp_name head) (S ''unknown'')))
      else if is_gzip head \<and> gunzip_is_arm64 dec head then Some Gzip
      else if pe_linux_section head \<noteq> None then Some Uki
      else None)"

section \<open>Removing it\<close>

definition gunzip :: "decoders \<Rightarrow> bytes \<Rightarrow> bytes result" where
  "gunzip dec gz =
     (case gz_read_to_end dec gz of Inl e \<Rightarrow> Err (KernelDecompress (S ''gzip: '' @ e)) | Inr out \<Rightarrow> Ok out)"

definition unzstd :: "decoders \<Rightarrow> bytes \<Rightarrow> bytes result" where
  "unzstd dec payload =
     (case zstd_read_to_end dec payload of
        Inl e \<Rightarrow> Err (KernelDecompress (S ''zstd: '' @ e)) | Inr out \<Rightarrow> Ok out)"

definition read_u32_le :: "bytes \<Rightarrow> nat \<Rightarrow> u32 result" where
  "read_u32_le data at =
     (case get_range data at (at + 4) of
        Some b \<Rightarrow> Ok (le32_at b 0)
      | None \<Rightarrow> Err (KernelDecompress (S ''truncated zboot header at '' @ show_nat at)))"

definition range_error :: "string \<Rightarrow> nat \<Rightarrow> nat \<Rightarrow> bytes \<Rightarrow> error" where
  "range_error what off end data =
     KernelDecompress (S what @ S '' ['' @ show_nat off @ S ''..'' @ show_nat end
       @ S ''] out of range (file is '' @ show_nat (length data) @ S '' bytes)'')"

text \<open>
  The sum of two 32-bit values never overflows \<open>checked_add\<close> of 64 bits, so that branch is not taken;
  it is kept as in the code.
\<close>

definition unzboot :: "decoders \<Rightarrow> bytes \<Rightarrow> str \<Rightarrow> bytes result" where
  "unzboot dec data codec =
     rbind (read_u32_le data ZBOOT_PAYLOAD_OFFSET) (\<lambda>off32.
     rbind (read_u32_le data ZBOOT_PAYLOAD_SIZE) (\<lambda>size32.
       let off = unat off32; end = off + unat size32
       in if 2 ^ 64 \<le> end then Err (KernelDecompress (S ''zboot payload size overflows''))
          else case get_range data off end of
            None \<Rightarrow> Err (range_error ''zboot payload'' off end data)
          | Some payload \<Rightarrow>
              if starts_with (S ''gzip'') codec then gunzip dec payload
              else if starts_with (S ''zstd'') codec then unzstd dec payload
              else Err (KernelDecompress (S ''unsupported zboot kernel compression: '' @ codec))))"

definition MAX_WRAPPERS :: nat where "MAX_WRAPPERS = 3"

function to_bootable_inner :: "decoders \<Rightarrow> bytes \<Rightarrow> nat \<Rightarrow> bytes result" where
  "to_bootable_inner dec data depth =
     (if MAX_WRAPPERS \<le> depth then Err (KernelDecompress (S ''kernel wrappers nested too deep''))
      else case compression dec data of
             None \<Rightarrow> Ok data
           | Some Gzip \<Rightarrow> gunzip dec data
           | Some (Zboot codec) \<Rightarrow> unzboot dec data codec
           | Some Uki \<Rightarrow>
               (case pe_linux_section data of
                  None \<Rightarrow> Err (KernelDecompress (S ''UKI .linux section not found''))
                | Some (off, sz) \<Rightarrow>
                    if 2 ^ 64 \<le> off + sz
                    then Err (KernelDecompress (S ''UKI .linux size overflows''))
                    else case get_range data off (off + sz) of
                           None \<Rightarrow> Err (range_error ''UKI .linux'' off (off + sz) data)
                         | Some inner \<Rightarrow> to_bootable_inner dec inner (depth + 1)))"
  by pat_completeness auto
termination
  by (relation "measure (\<lambda>(dec, data, depth). MAX_WRAPPERS - depth)") auto

declare to_bootable_inner.simps [simp del]

definition to_bootable :: "decoders \<Rightarrow> bytes \<Rightarrow> bytes result" where
  "to_bootable dec data = to_bootable_inner dec data 0"

section \<open>A prefix is enough\<close>

lemma get_range_take_Some: "get_range (take n data) a b = Some x \<Longrightarrow> get_range data a b = Some x"
  by (auto simp: get_range_Some min_def take_drop split: if_splits)

lemma u32_le_take: "u32_le (take n data) at = Some x \<Longrightarrow> u32_le data at = Some x"
  by (auto simp: u32_le_def dest: get_range_take_Some)

lemma u16_le_take: "u16_le (take n data) at = Some x \<Longrightarrow> u16_le data at = Some x"
  by (auto simp: u16_le_def dest: get_range_take_Some)

lemma pe_sections_take: "pe_sections (take n data) header k = Some x \<Longrightarrow> pe_sections data header k = Some x"
  by (induction data header k rule: pe_sections.induct)
    (auto simp: bind_eq_Some_conv dest!: get_range_take_Some u32_le_take split: option.splits if_splits)

lemma pe_linux_section_take: "pe_linux_section (take n data) = Some x \<Longrightarrow> pe_linux_section data = Some x"
  by (auto simp: pe_linux_section_def bind_eq_Some_conv Let_def
      dest!: get_range_take_Some u32_le_take u16_le_take pe_sections_take split: if_splits)

lemma field_take: "off + k \<le> n \<Longrightarrow> field (take n data) off k = field data off k"
  by (simp add: field_def drop_take min_def)

lemma is_arm64_image_take: "60 \<le> n \<Longrightarrow> is_arm64_image (take n data) = is_arm64_image data"
  by (auto simp: is_arm64_image_def kernel_consts field_take)

lemma is_zboot_take: "60 \<le> n \<Longrightarrow> is_zboot (take n data) = is_zboot data"
  by (auto simp: is_zboot_def kernel_consts field_take)

lemma is_gzip_take: "60 \<le> n \<Longrightarrow> is_gzip (take n data) = is_gzip data"
  by (simp add: is_gzip_def starts_with_take min_def)

lemma zboot_comp_name_take: "60 \<le> n \<Longrightarrow> zboot_comp_name (take n data) = zboot_comp_name data"
  by (cases "length data \<le> n") (simp_all add: zboot_comp_name_def get_range_def kernel_consts drop_take min_def)

section \<open>The images of the tests\<close>

text \<open>\<open>v[a..a + x.len()].copy_from_slice(x)\<close>.\<close>

definition splice :: "bytes \<Rightarrow> nat \<Rightarrow> bytes \<Rightarrow> bytes" where
  "splice v a x = take a v @ x @ drop (a + length x) v"

definition fake_image :: "nat \<Rightarrow> bytes" where
  "fake_image len =
     (let v = replicate (max len (ARM64_MAGIC_OFFSET + 4)) 0;
          v = v[0 := 0x4d, 1 := 0x5a]
      in splice v ARM64_MAGIC_OFFSET ARM64_MAGIC)"

definition zboot_image :: "str \<Rightarrow> bytes \<Rightarrow> bytes" where
  "zboot_image codec payload =
     (let v = replicate 64 0;
          v = splice v 0 (B ''MZ'');
          v = splice v ZIMG_MAGIC_OFFSET ZIMG_MAGIC;
          v = splice v ZBOOT_PAYLOAD_OFFSET (le_enc 4 64);
          v = splice v ZBOOT_PAYLOAD_SIZE (le_enc 4 (length payload));
          v = splice v ZBOOT_COMP_TYPE (as_bytes codec)
      in v @ payload)"

definition uki_image :: "bytes \<Rightarrow> bytes" where
  "uki_image linux =
     (let pe_off = 0x80; coff = pe_off + 4; table = coff + COFF_SIZE; payload_off = 0x100;
          v = replicate payload_off 0;
          v = splice v 0 (B ''MZ'');
          v = splice v PE_HEADER_OFFSET_AT (le_enc 4 pe_off);
          v = splice v pe_off (B ''PE'' @ [0, 0]);
          v = splice v coff (le_enc 2 0xaa64);
          v = splice v (coff + COFF_NUM_SECTIONS_AT) (le_enc 2 1);
          v = splice v table UKI_LINUX_SECTION;
          v = splice v (table + SECTION_RAW_SIZE_AT) (le_enc 4 (length linux));
          v = splice v (table + SECTION_RAW_PTR_AT) (le_enc 4 payload_off)
      in v @ linux)"

text \<open>Writing a field into zeros, after what is written already.\<close>

lemma splice_zeros:
  assumes "length a = la" and "la \<le> at" and "at + length x \<le> la + n" and "m = la + n - at - length x"
  shows "splice (a @ replicate n 0) at x = (a @ replicate (at - la) 0 @ x) @ replicate m 0"
proof -
  have "take at (a @ replicate n 0) = a @ replicate (at - la) 0"
    using assms by simp
  moreover have "drop (at + length x) (a @ replicate n 0) = replicate m 0"
    using assms by simp
  ultimately show ?thesis by (simp add: splice_def)
qed

lemma zboot_layout:
  assumes "length (as_bytes codec) \<le> 40"
  shows "zboot_image codec payload =
    [0x4d, 0x5a] @ replicate 2 0 @ ZIMG_MAGIC @ le_enc 4 64 @ le_enc 4 (length payload) @ replicate 8 0 @
    as_bytes codec @ replicate (40 - length (as_bytes codec)) 0 @ payload"
proof -
  let ?a1 = "[0x4d, 0x5a] :: bytes"
  let ?a2 = "?a1 @ replicate 2 0 @ ZIMG_MAGIC"
  let ?a3 = "?a2 @ replicate 0 0 @ le_enc 4 64"
  let ?a4 = "?a3 @ replicate 0 0 @ le_enc 4 (length payload)"
  have s1: "splice (replicate 64 0) 0 (B ''MZ'') = ?a1 @ replicate 62 0"
    by (simp add: splice_def)
  have s2: "splice (?a1 @ replicate 62 0) 4 ZIMG_MAGIC = ?a2 @ replicate 56 0"
    by (simp add: splice_def kernel_consts del: le_enc.simps)
  have s3: "splice (?a2 @ replicate 56 0) 8 (le_enc 4 64) = ?a3 @ replicate 52 0"
    by (simp add: splice_def kernel_consts del: le_enc.simps)
  have s4: "splice (?a3 @ replicate 52 0) 12 (le_enc 4 (length payload)) = ?a4 @ replicate 48 0"
    by (simp add: splice_def kernel_consts del: le_enc.simps)
  have s5: "splice (?a4 @ replicate 48 0) 24 (as_bytes codec) =
      (?a4 @ replicate (24 - 16) 0 @ as_bytes codec) @ replicate (40 - length (as_bytes codec)) 0"
    by (rule splice_zeros) (use assms in \<open>simp_all add: kernel_consts del: le_enc.simps\<close>)
  show ?thesis
    unfolding zboot_image_def Let_def ZIMG_MAGIC_OFFSET_def ZBOOT_PAYLOAD_OFFSET_def ZBOOT_PAYLOAD_SIZE_def
      ZBOOT_COMP_TYPE_def s1 s2 s3 s4 s5
    by (simp del: le_enc.simps)
qed

lemma uki_layout:
  "uki_image linux =
    [0x4d, 0x5a] @ replicate 58 0 @ le_enc 4 0x80 @ replicate 64 0 @ (B ''PE'' @ [0, 0]) @
    le_enc 2 0xaa64 @ le_enc 2 1 @ replicate 16 0 @ UKI_LINUX_SECTION @ replicate 8 0 @
    le_enc 4 (length linux) @ le_enc 4 0x100 @ replicate 80 0 @ linux"
proof -
  let ?a1 = "[0x4d, 0x5a] :: bytes"
  let ?a2 = "?a1 @ replicate 58 0 @ le_enc 4 0x80"
  let ?a3 = "?a2 @ replicate 64 0 @ (B ''PE'' @ [0, 0])"
  let ?a4 = "?a3 @ replicate 0 0 @ le_enc 2 0xaa64"
  let ?a5 = "?a4 @ replicate 0 0 @ le_enc 2 1"
  let ?a6 = "?a5 @ replicate 16 0 @ UKI_LINUX_SECTION"
  let ?a7 = "?a6 @ replicate 8 0 @ le_enc 4 (length linux)"
  let ?a8 = "?a7 @ replicate 0 0 @ le_enc 4 0x100"
  have l: "length ?a1 = 2" "length ?a2 = 64" "length ?a3 = 132" "length ?a4 = 134" "length ?a5 = 136"
    "length ?a6 = 160" "length ?a7 = 172"
    by (simp_all add: kernel_consts del: le_enc.simps)
  have s1: "splice (replicate 0x100 0) 0 (B ''MZ'') = ?a1 @ replicate 254 0"
    by (simp add: splice_def)
  have s2: "splice (?a1 @ replicate 254 0) 0x3c (le_enc 4 0x80) = ?a2 @ replicate 192 0"
    using splice_zeros [OF l(1), of 60 "le_enc 4 0x80" 254 192] by (simp del: le_enc.simps)
  have s3: "splice (?a2 @ replicate 192 0) 0x80 (B ''PE'' @ [0, 0]) = ?a3 @ replicate 124 0"
    using splice_zeros [OF l(2), of 128 "B ''PE'' @ [0, 0]" 192 124] by (simp del: le_enc.simps)
  have s4: "splice (?a3 @ replicate 124 0) 132 (le_enc 2 0xaa64) = ?a4 @ replicate 122 0"
    using splice_zeros [OF l(3), of 132 "le_enc 2 0xaa64" 124 122] by (simp del: le_enc.simps)
  have s5: "splice (?a4 @ replicate 122 0) 134 (le_enc 2 1) = ?a5 @ replicate 120 0"
    using splice_zeros [OF l(4), of 134 "le_enc 2 1" 122 120] by (simp del: le_enc.simps)
  have s6: "splice (?a5 @ replicate 120 0) 152 UKI_LINUX_SECTION = ?a6 @ replicate 96 0"
    using splice_zeros [OF l(5), of 152 UKI_LINUX_SECTION 120 96] by (simp add: UKI_LINUX_SECTION_def del: le_enc.simps)
  have s7: "splice (?a6 @ replicate 96 0) 168 (le_enc 4 (length linux)) = ?a7 @ replicate 84 0"
    using splice_zeros [OF l(6), of 168 "le_enc 4 (length linux)" 96 84] by (simp del: le_enc.simps)
  have s8: "splice (?a7 @ replicate 84 0) 172 (le_enc 4 0x100) = ?a8 @ replicate 80 0"
    using splice_zeros [OF l(7), of 172 "le_enc 4 0x100" 84 80] by (simp del: le_enc.simps)
  have offs: "0x80 + 4 = (132 :: nat)" "132 + COFF_NUM_SECTIONS_AT = 134" "132 + COFF_SIZE = 152"
    "152 + SECTION_RAW_SIZE_AT = 168" "152 + SECTION_RAW_PTR_AT = 172"
    by (simp_all add: kernel_consts)
  show ?thesis
    unfolding uki_image_def Let_def PE_HEADER_OFFSET_AT_def offs s1 s2 s3 s4 s5 s6 s7 s8
    by (simp del: le_enc.simps)
qed

section \<open>Unwrapping them\<close>

lemma get_range_mid: "length a = i \<Longrightarrow> length b = j - i \<Longrightarrow> i \<le> j \<Longrightarrow> get_range (a @ b @ c) i j = Some b"
  by (auto simp: get_range_def)

lemma le_at_enc:
  "v < 2 ^ 16 \<Longrightarrow> unat (le16_at (le_enc 2 v) 0) = v" "v < 2 ^ 32 \<Longrightarrow> unat (le32_at (le_enc 4 v) 0) = v"
  by (simp_all add: le16_at_def le32_at_def field_def le_val_enc unat_of_nat del: le_enc.simps)

lemma uki_fields:
  shows "\<not> is_arm64_image (uki_image linux)" and "\<not> is_zboot (uki_image linux)" and "\<not> is_gzip (uki_image linux)"
  by (simp_all add: uki_layout is_arm64_image_def is_zboot_def is_gzip_def kernel_consts field_def
      starts_with_take del: le_enc.simps)

lemma uki_section:
  assumes "length linux < 2 ^ 32"
  shows "pe_linux_section (uki_image linux) = Some (256, length linux)"
proof -
  have m: "get_range (uki_image linux) 0 2 = Some (B ''MZ'')"
    "u32_le (uki_image linux) 0x3c = Some (le32_at (le_enc 4 0x80) 0)"
    "get_range (uki_image linux) 128 132 = Some (B ''PE'' @ [0, 0])"
    "u16_le (uki_image linux) 134 = Some (le16_at (le_enc 2 1) 0)"
    "u16_le (uki_image linux) 148 = Some (le16_at (replicate 2 0) 0)"
    "get_range (uki_image linux) 152 160 = Some UKI_LINUX_SECTION"
    "u32_le (uki_image linux) 168 = Some (le32_at (le_enc 4 (length linux)) 0)"
    "u32_le (uki_image linux) 172 = Some (le32_at (le_enc 4 0x100) 0)"
    by (simp_all add: uki_layout get_range_def u32_le_def u16_le_def kernel_consts del: le_enc.simps)
  have z: "unat (le16_at (replicate 2 0) 0) = 0" by (simp add: le16_at_def field_def numeral_2_eq_2)
  show ?thesis
    using assms
    by (simp add: pe_linux_section_def m le_at_enc z kernel_consts(9-12) Let_def del: le_enc.simps)
      (simp add: m kernel_consts(12-15) le_at_enc del: le_enc.simps)
qed

lemma uki_compression: "length linux < 2 ^ 32 \<Longrightarrow> compression dec (uki_image linux) = Some Uki"
  by (simp add: compression_def uki_fields uki_section)

lemma uki_unwrap:
  assumes "length linux < 2 ^ 32" and "d < MAX_WRAPPERS"
  shows "to_bootable_inner dec (uki_image linux) d = to_bootable_inner dec linux (d + 1)"
proof -
  have "get_range (uki_image linux) 256 (256 + length linux) = Some linux"
    by (simp add: uki_layout get_range_def kernel_consts del: le_enc.simps)
  with assms show ?thesis
    by (subst to_bootable_inner.simps) (simp add: uki_compression uki_section)
qed

text \<open>A codec name as a kernel build writes it.\<close>

definition codec_ok :: "str \<Rightarrow> bool" where
  "codec_ok codec \<longleftrightarrow> codec \<noteq> [] \<and> length codec < 32 \<and> (\<forall>c \<in> set codec. 0 < c \<and> c < 128)"

lemma from_utf8_as_bytes: "\<forall>c \<in> set s. is_scalar c \<Longrightarrow> from_utf8 (as_bytes s) = Some s"
  by (simp add: from_utf8_def from_utf8_lossy_as_bytes)

lemma position_append_zero:
  "\<forall>b \<in> set x. b \<noteq> (0 :: u8) \<Longrightarrow> position (\<lambda>b. b = 0) (x @ 0 # y) = Some (length x)"
  by (induction x) auto

lemma zboot_name:
  assumes "codec_ok codec"
  shows "zboot_comp_name (zboot_image codec payload) = Some codec"
proof -
  have ascii: "\<forall>c \<in> set codec. c < 128" using assms by (auto simp: codec_ok_def)
  let ?c = "as_bytes codec"
  have len: "length ?c = length codec" "length codec < 32"
    using assms by (simp_all add: as_bytes_ascii [OF ascii] codec_ok_def)
  have nz: "\<forall>b \<in> set ?c. b \<noteq> 0"
    using assms by (auto simp: as_bytes_ascii [OF ascii] codec_ok_def word_unat_eq_iff)
  have raw: "get_range (zboot_image codec payload) 24 56 = Some (?c @ replicate (32 - length ?c) 0)"
    using len by (simp add: zboot_layout get_range_def kernel_consts min_def del: le_enc.simps)
  obtain k where k: "32 - length ?c = Suc k" using len by (cases "32 - length ?c") auto
  have "position (\<lambda>b. b = 0) (?c @ replicate (32 - length ?c) 0) = Some (length ?c)"
    unfolding k using position_append_zero [OF nz] by simp
  moreover have "from_utf8 ?c = Some codec"
    using ascii by (intro from_utf8_as_bytes) (auto simp: is_scalar_def)
  moreover have "codec \<noteq> []" using assms by (simp add: codec_ok_def)
  ultimately show ?thesis using raw by (simp add: zboot_comp_name_def kernel_consts)
qed

lemma zboot_fields:
  assumes "codec_ok codec" and "length payload < 2 ^ 32"
  shows "compression dec (zboot_image codec payload) = Some (Zboot codec)"
    and "read_u32_le (zboot_image codec payload) 8 = Ok (le32_at (le_enc 4 64) 0)"
    and "read_u32_le (zboot_image codec payload) 12 = Ok (le32_at (le_enc 4 (length payload)) 0)"
    and "get_range (zboot_image codec payload) 64 (64 + length payload) = Some payload"
proof -
  have len: "length (as_bytes codec) < 32"
    using assms(1) as_bytes_ascii [of codec] by (auto simp: codec_ok_def)
  show "read_u32_le (zboot_image codec payload) 8 = Ok (le32_at (le_enc 4 64) 0)"
    "read_u32_le (zboot_image codec payload) 12 = Ok (le32_at (le_enc 4 (length payload)) 0)"
    "get_range (zboot_image codec payload) 64 (64 + length payload) = Some payload"
    using len by (simp_all add: zboot_layout read_u32_le_def get_range_def kernel_consts del: le_enc.simps)
  have "field (zboot_image codec payload) 56 4 = replicate 4 0"
    using len by (simp add: zboot_layout kernel_consts field_def min_def del: le_enc.simps)
  moreover have "replicate 4 (0 :: u8) = [0, 0, 0, 0]" by (simp add: numeral_eq_Suc)
  moreover have "length ARM64_MAGIC = 4" "ARM64_MAGIC \<noteq> [0, 0, 0, 0]" by (simp_all add: ARM64_MAGIC_def)
  ultimately have "\<not> is_arm64_image (zboot_image codec payload)"
    unfolding is_arm64_image_def ARM64_MAGIC_OFFSET_def by metis
  moreover have "is_zboot (zboot_image codec payload)"
    using len by (simp add: zboot_layout is_zboot_def kernel_consts field_def del: le_enc.simps)
  ultimately show "compression dec (zboot_image codec payload) = Some (Zboot codec)"
    using zboot_name [OF assms(1)] by (simp add: compression_def)
qed

lemma zboot_unwrap:
  assumes "codec_ok codec" and "length payload < 2 ^ 32" and "d < MAX_WRAPPERS"
  shows "to_bootable_inner dec (zboot_image codec payload) d =
    (if starts_with (S ''gzip'') codec then gunzip dec payload
     else if starts_with (S ''zstd'') codec then unzstd dec payload
     else Err (KernelDecompress (S ''unsupported zboot kernel compression: '' @ codec)))"
proof -
  note f = zboot_fields [OF assms(1,2)]
  have "to_bootable_inner dec (zboot_image codec payload) d = unzboot dec (zboot_image codec payload) codec"
    using assms(3) by (subst to_bootable_inner.simps) (simp add: f(1))
  moreover have "unzboot dec (zboot_image codec payload) codec =
      (if starts_with (S ''gzip'') codec then gunzip dec payload
       else if starts_with (S ''zstd'') codec then unzstd dec payload
       else Err (KernelDecompress (S ''unsupported zboot kernel compression: '' @ codec)))"
    using assms(2)
    by (simp add: unzboot_def ZBOOT_PAYLOAD_OFFSET_def ZBOOT_PAYLOAD_SIZE_def f(2-4) le_at_enc Let_def
        del: le_enc.simps)
  ultimately show ?thesis by simp
qed

text \<open>
  What a prefix has to hold. A gzip decoder reads its input from the front, so what it has put out of a
  prefix it puts out of every longer input; and the section table of a PE file ends where its
  headers say.
\<close>

definition streaming_gzip :: "decoders \<Rightarrow> bool" where
  "streaming_gzip dec \<longleftrightarrow>
     (\<forall>gz more k out. gz_read_exact dec gz k = Some out \<longrightarrow> gz_read_exact dec (gz @ more) k = Some out)"

definition pe_table_end :: "bytes \<Rightarrow> nat" where
  "pe_table_end data =
     (let coff = unat (le32_at data PE_HEADER_OFFSET_AT) + 4;
          num_sections = unat (le16_at data (coff + COFF_NUM_SECTIONS_AT));
          opt_size = unat (le16_at data (coff + COFF_OPT_HEADER_SIZE_AT))
      in coff + COFF_SIZE + opt_size + num_sections * SECTION_HEADER_SIZE)"

lemma get_range_prefix: "b \<le> n \<Longrightarrow> get_range data a b = Some x \<Longrightarrow> get_range (take n data) a b = Some x"
  by (auto simp: get_range_Some take_drop min_def)

lemma u16_le_Some: "u16_le data at = Some x \<Longrightarrow> x = le16_at data at \<and> at + 2 \<le> length data"
  by (auto simp: u16_le_def get_range_Some le16_at_def field_def take_drop)

lemma u32_le_Some: "u32_le data at = Some x \<Longrightarrow> x = le32_at data at \<and> at + 4 \<le> length data"
  by (auto simp: u32_le_def get_range_Some le32_at_def field_def take_drop)

lemma u16_le_prefix: "at + 2 \<le> n \<Longrightarrow> u16_le data at = Some x \<Longrightarrow> u16_le (take n data) at = Some x"
  by (auto simp: u16_le_def dest: get_range_prefix [rotated])

lemma u32_le_prefix: "at + 4 \<le> n \<Longrightarrow> u32_le data at = Some x \<Longrightarrow> u32_le (take n data) at = Some x"
  by (auto simp: u32_le_def dest: get_range_prefix [rotated])

lemma pe_sections_prefix:
  "header + k * 40 \<le> n \<Longrightarrow> pe_sections data header k = Some x \<Longrightarrow>
   pe_sections (take n data) header k = Some x"
proof (induction k arbitrary: header)
  case (Suc k)
  from Suc.prems(2) obtain name where name: "get_range data header (header + 8) = Some name"
    by (auto split: option.splits)
  have "get_range (take n data) header (header + 8) = Some name"
    using Suc.prems(1) name by (intro get_range_prefix) simp_all
  moreover have "u32_le (take n data) (header + j) = Some y"
    if "u32_le data (header + j) = Some y" "j \<le> 36" for j y
    using Suc.prems(1) that by (intro u32_le_prefix) simp_all
  ultimately show ?case using Suc name
    by (force simp: bind_eq_Some_conv kernel_consts split: if_splits)
qed simp

lemma pe_linux_section_prefix:
  assumes "pe_linux_section data = Some x" and "pe_table_end data \<le> n"
  shows "pe_linux_section (take n data) = Some x"
proof -
  from assms(1) obtain pe num opt where
    mz: "get_range data 0 2 = Some (B ''MZ'')" and pe: "u32_le data PE_HEADER_OFFSET_AT = Some pe" and
    sig: "get_range data (unat pe) (unat pe + 4) = Some (B ''PE'' @ [0, 0])" and
    num: "u16_le data (unat pe + 4 + COFF_NUM_SECTIONS_AT) = Some num" and
    opt: "u16_le data (unat pe + 4 + COFF_OPT_HEADER_SIZE_AT) = Some opt" and
    sec: "pe_sections data (unat pe + 4 + COFF_SIZE + unat opt) (unat num) = Some x"
    by (auto simp: pe_linux_section_def bind_eq_Some_conv Let_def split: if_splits)
  have e: "pe_table_end data =
      unat pe + 4 + COFF_SIZE + unat opt + unat num * SECTION_HEADER_SIZE"
    using u32_le_Some [OF pe] u16_le_Some [OF num] u16_le_Some [OF opt]
    by (simp add: pe_table_end_def Let_def)
  have "0 < unat num" using sec by (cases "unat num") auto
  with e assms(2) have n: "64 \<le> n" "unat pe + 4 + COFF_SIZE \<le> n"
    "unat pe + 4 + COFF_SIZE + unat opt + unat num * 40 \<le> n"
    by (simp_all add: kernel_consts)
  note get_range_prefix [OF _ mz, of n] u32_le_prefix [OF _ pe, of n] get_range_prefix [OF _ sig, of n]
    u16_le_prefix [OF _ num, of n] u16_le_prefix [OF _ opt, of n] pe_sections_prefix [OF n(3) sec]
  with n show ?thesis
    by (simp add: pe_linux_section_def kernel_consts Let_def)
qed

lemma gunzip_is_arm64_prefix:
  assumes "streaming_gzip dec" and "gz_read_exact dec (take n data) 60 \<noteq> None"
  shows "gunzip_is_arm64 dec (take n data) = gunzip_is_arm64 dec data"
proof -
  obtain out where "gz_read_exact dec (take n data) 60 = Some out" using assms(2) by blast
  moreover from this have "gz_read_exact dec data 60 = Some out"
    using assms(1) [unfolded streaming_gzip_def, rule_format, of "take n data" 60 out "drop n data"] by simp
  ultimately show ?thesis by (simp add: gunzip_is_arm64_def kernel_consts)
qed

lemma gzip_not_pe: "is_gzip data \<Longrightarrow> pe_linux_section data = None"
  by (cases data; cases "tl data")
    (auto simp: is_gzip_def starts_with_def pe_linux_section_def get_range_def bind_eq_Some_conv)


definition example_decoders :: decoders where
  "example_decoders =
     \<lparr>gz_read_exact = (\<lambda>gz k. if k + 2 \<le> length gz then Some (take k (drop 2 gz)) else None),
      gz_read_to_end = (\<lambda>gz. Inr (drop 2 gz)), zstd_read_to_end = (\<lambda>z. Inr z)\<rparr>"


text \<open>
  C25: an EFI zboot image is unwrapped to what its payload inflates to, with the decoder its header
  names; any other codec is reported as it is named and refused with an error.
\<close>

theorem zboot_unwraps:
  assumes "codec_ok codec" and "length payload < 2 ^ 32"
  shows "compression dec (zboot_image codec payload) = Some (Zboot codec) \<and>
    to_bootable dec (zboot_image codec payload) =
      (if starts_with (S ''gzip'') codec then gunzip dec payload
       else if starts_with (S ''zstd'') codec then unzstd dec payload
       else Err (KernelDecompress (S ''unsupported zboot kernel compression: '' @ codec)))"
  using zboot_unwrap [OF assms, of 0 dec] zboot_fields(1) [OF assms, of dec]
  by (simp add: to_bootable_def MAX_WRAPPERS_def)

lemma zboot_unwraps_witness:
  "to_bootable example_decoders (zboot_image (S ''gzip'') [0x1f, 0x8b, 7, 8]) = Ok [7, 8]"
  using zboot_unwraps [of "S ''gzip''" "[0x1f, 0x8b, 7, 8]" example_decoders]
  by (simp add: codec_ok_def gunzip_def example_decoders_def)

text \<open>
  C26: a raw arm64 image passes unchanged, and so it does from inside one or two unified kernel images;
  three or more wrappers are refused, whatever is inside.
\<close>

theorem uki_nesting:
  assumes "is_arm64_image img" and "length img + 256 * n < 2 ^ 32"
  shows "to_bootable dec ((uki_image ^^ n) img) =
    (if n < 3 then Ok img else Err (KernelDecompress (S ''kernel wrappers nested too deep'')))"
proof -
  have len: "length ((uki_image ^^ k) img) = length img + 256 * k" for k
  proof (induction k)
    case (Suc k)
    have "length (uki_image linux) = 256 + length linux" for linux
      by (simp add: uki_layout kernel_consts del: le_enc.simps)
    with Suc show ?case by simp
  qed simp
  have "k \<le> n \<Longrightarrow> d \<le> 3 \<Longrightarrow> to_bootable_inner dec ((uki_image ^^ k) img) d =
      (if d + k < 3 then Ok img else Err (KernelDecompress (S ''kernel wrappers nested too deep'')))" for k d
  proof (induction k arbitrary: d)
    case 0
    have "compression dec img = None" using assms(1) by (simp add: compression_def)
    then show ?case by (simp add: to_bootable_inner.simps [of dec img] MAX_WRAPPERS_def)
  next
    case (Suc k)
    show ?case
    proof (cases "d < 3")
      case True
      have "length ((uki_image ^^ k) img) < 2 ^ 32" using len [of k] assms(2) Suc.prems(1) by simp
      with True Suc.IH [of "d + 1"] Suc.prems show ?thesis
        by (simp add: uki_unwrap MAX_WRAPPERS_def)
    next
      case False
      then show ?thesis by (simp add: to_bootable_inner.simps [of dec _ d] MAX_WRAPPERS_def)
    qed
  qed
  from this [of n 0] show ?thesis by (simp add: to_bootable_def)
qed

lemma uki_nesting_witness:
  "to_bootable example_decoders (uki_image (uki_image (fake_image 60))) = Ok (fake_image 60) \<and>
   to_bootable example_decoders (uki_image (uki_image (uki_image (fake_image 60)))) =
     Err (KernelDecompress (S ''kernel wrappers nested too deep''))"
proof -
  have img: "is_arm64_image (fake_image 60)" "length (fake_image 60) = 60"
    by (simp_all add: fake_image_def splice_def kernel_consts is_arm64_image_def field_def)
  have "(uki_image ^^ 2) x = uki_image (uki_image x)" "(uki_image ^^ 3) x = uki_image (uki_image (uki_image x))" for x
    by (simp_all add: numeral_2_eq_2 numeral_3_eq_3)
  with uki_nesting [OF img(1), of 2 example_decoders] uki_nesting [OF img(1), of 3 example_decoders] img(2)
  show ?thesis by simp
qed

text \<open>
  The result need not be a raw image: what a zboot payload inflates to is returned as it is, also when
  it is itself wrapped.
\<close>

lemma zboot_not_unwrapped_again:
  "compression example_decoders (uki_image []) = Some Uki \<and>
   to_bootable example_decoders (zboot_image (S ''gzip'') ([0x1f, 0x8b] @ uki_image [])) = Ok (uki_image [])"
proof -
  let ?payload = "[0x1f, 0x8b] @ uki_image []"
  have len: "length ?payload < 2 ^ 32"
    by (simp add: uki_layout kernel_consts del: le_enc.simps)
  have codec: "codec_ok (S ''gzip'')" by (simp add: codec_ok_def)
  have "to_bootable example_decoders (zboot_image (S ''gzip'') ?payload) = gunzip example_decoders ?payload"
    using zboot_unwrap [OF codec len, of 0 example_decoders] by (simp add: to_bootable_def MAX_WRAPPERS_def)
  also have "\<dots> = Ok (uki_image [])" by (simp add: gunzip_def example_decoders_def)
  finally have "to_bootable example_decoders (zboot_image (S ''gzip'') ?payload) = Ok (uki_image [])" .
  moreover have "compression example_decoders (uki_image []) = Some Uki" by (rule uki_compression) simp
  ultimately show ?thesis by blast
qed

end
