(* ===== verification/Kernel_Tests.thy ===== *)
theory Kernel_Tests
  imports Kernel
begin

text \<open>
  The unit tests of src/src/kernel.rs, proved on the model. Each definition is one \<open>#[test]\<close> function: the
  conjunction of its assertions, for any decoders. The encoders that the tests call (flate2, ruzstd) are
  functions, and a test holds when what they make of its image is what their documentation says:
  \<open>flate2_ok\<close> and \<open>ruzstd_ok\<close>. The compressed bytes must not look like another format by chance.
\<close>

definition flate2_ok :: "decoders \<Rightarrow> (bytes \<Rightarrow> bytes) \<Rightarrow> bytes \<Rightarrow> bool" where
  "flate2_ok dec gz x \<longleftrightarrow>
     gz_read_to_end dec (gz x) = Inr x \<and>
     (\<forall>n. gz_read_exact dec (gz x) n = (if n \<le> length x then Some (take n x) else None)) \<and>
     is_gzip (gz x) \<and> \<not> is_arm64_image (gz x) \<and> \<not> is_zboot (gz x) \<and> pe_linux_section (gz x) = None \<and>
     length (gz x) < 2 ^ 31"

definition ruzstd_ok :: "decoders \<Rightarrow> (bytes \<Rightarrow> bytes) \<Rightarrow> bytes \<Rightarrow> bool" where
  "ruzstd_ok dec zs x \<longleftrightarrow> zstd_read_to_end dec (zs x) = Inr x \<and> length (zs x) < 2 ^ 31"

section \<open>The tests\<close>

definition uki_unwraps_linux_section :: "decoders \<Rightarrow> (bytes \<Rightarrow> bytes) \<Rightarrow> bool" where
  "uki_unwraps_linux_section dec gz \<longleftrightarrow>
     (let img = fake_image 2048
      in compression dec (uki_image (gz img)) = Some Uki \<and> to_bootable dec (uki_image (gz img)) = Ok img \<and>
         compression dec (uki_image img) = Some Uki \<and> to_bootable dec (uki_image img) = Ok img \<and>
         to_bootable dec (uki_image (zboot_image (S ''gzip'') (gz img))) = Ok img)"

definition raw_image_needs_nothing :: "decoders \<Rightarrow> bool" where
  "raw_image_needs_nothing dec \<longleftrightarrow>
     (let img = fake_image 1024 in compression dec img = None \<and> to_bootable dec img = Ok img)"

definition x86_and_unknown_left_alone :: "decoders \<Rightarrow> bool" where
  "x86_and_unknown_left_alone dec \<longleftrightarrow>
     (let bz = [0x4d, 0x5a, 0, 0] @ replicate 1020 0 in compression dec bz = None \<and> to_bootable dec bz = Ok bz)"

definition gzip_image_round_trips :: "decoders \<Rightarrow> (bytes \<Rightarrow> bytes) \<Rightarrow> bool" where
  "gzip_image_round_trips dec gz \<longleftrightarrow>
     (let img = fake_image 2048 in compression dec (gz img) = Some Gzip \<and> to_bootable dec (gz img) = Ok img)"

definition cpio_bytes :: bytes where
  "cpio_bytes = B ''not a kernel, just some cpio bytes '' @ [7, 7, 7]"

definition gzip_non_kernel_is_not_a_kernel :: "decoders \<Rightarrow> (bytes \<Rightarrow> bytes) \<Rightarrow> bool" where
  "gzip_non_kernel_is_not_a_kernel dec gz \<longleftrightarrow>
     compression dec (gz cpio_bytes) = None \<and> to_bootable dec (gz cpio_bytes) = Ok (gz cpio_bytes)"

definition zboot_gzip_and_zstd :: "decoders \<Rightarrow> (bytes \<Rightarrow> bytes) \<Rightarrow> (bytes \<Rightarrow> bytes) \<Rightarrow> bool" where
  "zboot_gzip_and_zstd dec gz zs \<longleftrightarrow>
     (let img = fake_image 4096; zg = zboot_image (S ''gzip'') (gz img); zb = zboot_image (S ''zstd'') (zs img)
      in compression dec zg = Some (Zboot (S ''gzip'')) \<and> to_bootable dec zg = Ok img \<and>
         compression dec zb = Some (Zboot (S ''zstd'')) \<and> to_bootable dec zb = Ok img)"

definition zboot_unsupported_codec_errors :: "decoders \<Rightarrow> bool" where
  "zboot_unsupported_codec_errors dec \<longleftrightarrow>
     (let zb = zboot_image (S ''lzo'') [1, 2, 3, 4]
      in compression dec zb = Some (Zboot (S ''lzo'')) \<and> res_ok (to_bootable dec zb) = None)"

lemma fake_image_arm64: "is_arm64_image (fake_image n)" "length (fake_image n) = max n 60"
proof -
  let ?v = "(replicate (max n 60) 0)[0 := 0x4d, 1 := 0x5a] :: bytes"
  have v: "length ?v = max n 60" by simp
  have f: "fake_image n = take 56 ?v @ ARM64_MAGIC @ drop 60 ?v"
    by (simp add: fake_image_def splice_def kernel_consts del: list_update.simps)
  show "length (fake_image n) = max n 60" unfolding f using v by (simp add: kernel_consts)
  show "is_arm64_image (fake_image n)"
    unfolding f is_arm64_image_def field_def using v by (simp add: kernel_consts)
qed

lemma raw_unwrap: "is_arm64_image img \<Longrightarrow> d < MAX_WRAPPERS \<Longrightarrow> to_bootable_inner dec img d = Ok img"
  by (subst to_bootable_inner.simps) (simp add: compression_def)

lemma gzip_unwrap:
  assumes "flate2_ok dec gz x" and "is_arm64_image x" and "d < MAX_WRAPPERS"
  shows "compression dec (gz x) = Some Gzip" and "to_bootable_inner dec (gz x) d = Ok x"
proof -
  have "60 \<le> length x" using assms(2) by (simp add: is_arm64_image_def kernel_consts)
  then have "gz_read_exact dec (gz x) 60 = Some (take 60 x)" using assms(1) by (simp add: flate2_ok_def)
  then have "gunzip_is_arm64 dec (gz x)"
    using assms(2) is_arm64_image_take [of 60 x] by (simp add: gunzip_is_arm64_def kernel_consts)
  then show c: "compression dec (gz x) = Some Gzip"
    using assms(1) by (simp add: compression_def flate2_ok_def)
  show "to_bootable_inner dec (gz x) d = Ok x"
    using assms(1,3) by (subst to_bootable_inner.simps) (simp add: c gunzip_def flate2_ok_def)
qed

lemma codecs_ok: "codec_ok (S ''gzip'')" "codec_ok (S ''zstd'')" "codec_ok (S ''lzo'')"
  by (simp_all add: codec_ok_def)

lemma zboot_gzip_unwrap:
  assumes "flate2_ok dec gz x" and "d < MAX_WRAPPERS"
  shows "to_bootable_inner dec (zboot_image (S ''gzip'') (gz x)) d = Ok x"
    and "compression dec (zboot_image (S ''gzip'') (gz x)) = Some (Zboot (S ''gzip''))"
proof -
  have l: "length (gz x) < 2 ^ 32" using assms(1) by (simp add: flate2_ok_def)
  show "to_bootable_inner dec (zboot_image (S ''gzip'') (gz x)) d = Ok x"
    unfolding zboot_unwrap [OF codecs_ok(1) l assms(2)] using assms(1) by (simp add: gunzip_def flate2_ok_def)
  show "compression dec (zboot_image (S ''gzip'') (gz x)) = Some (Zboot (S ''gzip''))"
    by (rule zboot_fields(1) [OF codecs_ok(1) l])
qed

lemma zboot_zstd_unwrap:
  assumes "ruzstd_ok dec zs x" and "d < MAX_WRAPPERS"
  shows "to_bootable_inner dec (zboot_image (S ''zstd'') (zs x)) d = Ok x"
    and "compression dec (zboot_image (S ''zstd'') (zs x)) = Some (Zboot (S ''zstd''))"
proof -
  have l: "length (zs x) < 2 ^ 32" using assms(1) by (simp add: ruzstd_ok_def)
  show "to_bootable_inner dec (zboot_image (S ''zstd'') (zs x)) d = Ok x"
    unfolding zboot_unwrap [OF codecs_ok(2) l assms(2)] using assms(1) by (simp add: unzstd_def ruzstd_ok_def)
  show "compression dec (zboot_image (S ''zstd'') (zs x)) = Some (Zboot (S ''zstd''))"
    by (rule zboot_fields(1) [OF codecs_ok(2) l])
qed

lemma uki_unwraps_linux_section: "flate2_ok dec gz (fake_image 2048) \<Longrightarrow> uki_unwraps_linux_section dec gz"
proof -
  assume gz: "flate2_ok dec gz (fake_image 2048)"
  let ?img = "fake_image 2048"
  have len: "length (gz ?img) < 2 ^ 31" "length ?img < 2 ^ 32"
    using gz by (simp_all add: flate2_ok_def fake_image_arm64)
  then have l: "length (gz ?img) < 2 ^ 32" by simp
  have z: "length (zboot_image (S ''gzip'') (gz ?img)) < 2 ^ 32"
    using len by (simp add: zboot_layout as_bytes_ascii ZIMG_MAGIC_def del: le_enc.simps)
  have d: "0 < MAX_WRAPPERS" "0 + 1 < MAX_WRAPPERS" by (simp_all add: MAX_WRAPPERS_def)
  show ?thesis
    unfolding uki_unwraps_linux_section_def Let_def to_bootable_def
      uki_compression [OF l] uki_compression [OF len(2)] uki_unwrap [OF l d(1)] uki_unwrap [OF len(2) d(1)]
      uki_unwrap [OF z d(1)] zboot_gzip_unwrap [OF gz d(2)] gzip_unwrap(2) [OF gz fake_image_arm64(1) d(2)]
      raw_unwrap [OF fake_image_arm64(1) d(2)]
    by simp
qed

lemma raw_image_needs_nothing: "raw_image_needs_nothing dec"
  using fake_image_arm64(1) [of 1024]
  by (simp add: raw_image_needs_nothing_def compression_def to_bootable_def raw_unwrap MAX_WRAPPERS_def)

lemma gzip_image_round_trips: "flate2_ok dec gz (fake_image 2048) \<Longrightarrow> gzip_image_round_trips dec gz"
  using gzip_unwrap [OF _ fake_image_arm64(1), of dec gz 2048 0]
  by (simp add: gzip_image_round_trips_def to_bootable_def MAX_WRAPPERS_def)

lemma zboot_gzip_and_zstd:
  assumes "flate2_ok dec gz (fake_image 4096)" and "ruzstd_ok dec zs (fake_image 4096)"
  shows "zboot_gzip_and_zstd dec gz zs"
proof -
  have d: "0 < MAX_WRAPPERS" by (simp add: MAX_WRAPPERS_def)
  show ?thesis
    unfolding zboot_gzip_and_zstd_def Let_def to_bootable_def
      zboot_gzip_unwrap [OF assms(1) d] zboot_zstd_unwrap [OF assms(2) d]
    by simp
qed

lemma zboot_unsupported_codec_errors: "zboot_unsupported_codec_errors dec"
  using zboot_fields(1) [OF codecs_ok(3), of "[1, 2, 3, 4]" dec] zboot_unwrap [OF codecs_ok(3), of "[1, 2, 3, 4]" 0 dec]
  by (simp add: zboot_unsupported_codec_errors_def Let_def to_bootable_def MAX_WRAPPERS_def)

lemma unwrapped_left_alone: "compression dec x = None \<Longrightarrow> to_bootable dec x = Ok x"
  unfolding to_bootable_def by (subst to_bootable_inner.simps) (simp add: MAX_WRAPPERS_def)

lemma gzip_non_kernel_is_not_a_kernel: "flate2_ok dec gz cpio_bytes \<Longrightarrow> gzip_non_kernel_is_not_a_kernel dec gz"
proof -
  assume gz: "flate2_ok dec gz cpio_bytes"
  have "length cpio_bytes = 38" by (simp add: cpio_bytes_def)
  with gz have "\<not> gunzip_is_arm64 dec (gz cpio_bytes)"
    by (simp add: gunzip_is_arm64_def flate2_ok_def kernel_consts)
  with gz have "compression dec (gz cpio_bytes) = None" by (simp add: compression_def flate2_ok_def)
  then show ?thesis by (simp add: gzip_non_kernel_is_not_a_kernel_def unwrapped_left_alone)
qed

lemma x86_and_unknown_left_alone: "x86_and_unknown_left_alone dec"
proof -
  let ?bz = "[0x4d, 0x5a, 0, 0] @ replicate 1020 0 :: bytes"
  have z: "replicate 4 (0 :: u8) = [0, 0, 0, 0]" by (simp add: numeral_eq_Suc)
  have "field ?bz 56 4 = replicate 4 0" "field ?bz 4 4 = replicate 4 0" by (simp_all add: field_def)
  moreover have "length ARM64_MAGIC = 4" "ARM64_MAGIC \<noteq> [0, 0, 0, 0]" "length ZIMG_MAGIC = 4" "ZIMG_MAGIC \<noteq> [0, 0, 0, 0]"
    by (simp_all add: ARM64_MAGIC_def ZIMG_MAGIC_def)
  ultimately have m: "\<not> is_arm64_image ?bz" "\<not> is_zboot ?bz"
    unfolding is_arm64_image_def is_zboot_def ARM64_MAGIC_OFFSET_def ZIMG_MAGIC_OFFSET_def z by metis+
  have g: "\<not> is_gzip ?bz" by (simp add: is_gzip_def)
  have "get_range ?bz 60 64 = Some (replicate 4 0)" by (simp add: get_range_def)
  then have "u32_le ?bz PE_HEADER_OFFSET_AT = Some 0"
    unfolding z by (simp add: u32_le_def PE_HEADER_OFFSET_AT_def le32_at_def field_def)
  moreover have "get_range ?bz 0 2 = Some (B ''MZ'')" "get_range ?bz 0 4 = Some [0x4d, 0x5a, 0, 0]"
    by (simp_all add: get_range_def)
  ultimately have "pe_linux_section ?bz = None" by (simp add: pe_linux_section_def Let_def)
  with m g have "compression dec ?bz = None" by (simp add: compression_def)
  then show ?thesis unfolding x86_and_unknown_left_alone_def Let_def by (simp add: unwrapped_left_alone)
qed

end
