(* ===== verification/Guest.thy ===== *)
theory Guest
  imports Boot Part_Scan "HOL-Library.Code_Target_Nat"
begin

text \<open>
  src/src/guest.rs: the boot entries no config declares, today a Windows install. \<open>walk\<close> looks once at
  every partition of a disk and gathers the evidence of a Windows install and the scans of the
  filesystems; \<open>bootable\<close> merges the two: chainloader items are kept when they start the boot manager
  found, an undeclared install gets an entry of its own, partitions that boot nothing are left out.
\<close>

record windows =
  wd_firmware :: "firmware option"
  wd_boot_manager :: "str option"
  wd_bcd :: "str option"
  wd_arch :: "str option"
  wd_evidence :: "str list"

definition windows_summary :: "windows \<Rightarrow> str" where
  "windows_summary w =
     (let firmware = (case wd_firmware w of
            Some f \<Rightarrow> firmware_display f
          | None \<Rightarrow> S ''no boot manager found'')
      in case wd_arch w of
           Some arch \<Rightarrow> firmware @ S '', '' @ arch
         | None \<Rightarrow> firmware)"

record partition_boot =
  pb_partition :: partition
  pb_fs_type :: str
  pb_fs :: "filesystem option"
  pb_scan :: boot_scan

definition WINDOWS_TYPES :: "str list" where
  "WINDOWS_TYPES =
     [MS_RESERVED, WINDOWS_RECOVERY, MS_LDM_METADATA, MS_LDM_DATA, MS_STORAGE_SPACES, S ''0x27'']"

definition BOOT_MANAGER :: "str list" where
  "BOOT_MANAGER = [S ''EFI'', S ''Microsoft'', S ''Boot'', S ''bootmgfw.efi'']"

definition BCD :: "str list" where
  "BCD = [S ''EFI'', S ''Microsoft'', S ''Boot'', S ''BCD'']"

definition VBR_LEN :: u64 where
  "VBR_LEN = 16 * 512"

section \<open>URIs and paths\<close>

definition uri :: "nat \<Rightarrow> str \<Rightarrow> str" where
  "uri part path = S ''p'' @ show_nat part @ S '':'' @ path"

definition uri_partition :: "str \<Rightarrow> nat option" where
  "uri_partition u =
     Option.bind (strip_prefix (S ''p'') u) (\<lambda>rest.
     Option.bind (split_once (ch CHR '':'') rest) (\<lambda>(index, _). parse_usize index))"

definition path_of :: "str \<Rightarrow> str" where
  "path_of u = (case split_once (ch CHR '':'') u of Some (_, path) \<Rightarrow> path | None \<Rightarrow> u)"

definition norm_path :: "str \<Rightarrow> str" where
  "norm_path s =
     to_ascii_lowercase (trim_start_by (\<lambda>c. c = ch CHR ''/'')
       (map (\<lambda>c. if c = ch (CHR 0x5C) then ch CHR ''/'' else c) s))"

definition same_file :: "str \<Rightarrow> str \<Rightarrow> bool" where
  "same_file a b \<longleftrightarrow>
     norm_path a = norm_path b \<or> base_name (norm_path a) = base_name (norm_path b)"

fun find_path_from :: "filesystem \<Rightarrow> str \<Rightarrow> str list \<Rightarrow> str option" where
  "find_path_from fs path [] = Some path"
| "find_path_from fs path (part # parts) =
     (let dir = (if path = [] then S ''/'' else path) in
      case fs_read_dir fs dir of
        Inl _ \<Rightarrow> None
      | Inr es \<Rightarrow>
          (case find (\<lambda>e. eq_ignore_ascii_case (de_name e) part) es of
             None \<Rightarrow> None
           | Some found \<Rightarrow> find_path_from fs (path @ S ''/'' @ de_name found) parts))"

definition find_path :: "filesystem \<Rightarrow> str list \<Rightarrow> str option" where
  "find_path fs parts = find_path_from fs [] parts"

section \<open>Boot code and PE headers\<close>

text \<open>\<open>windows(n).any(|w| w == needle)\<close>.\<close>

definition contains :: "bytes \<Rightarrow> bytes \<Rightarrow> bool" where
  "contains haystack needle \<longleftrightarrow>
     length needle \<le> length haystack \<and>
     list_ex (\<lambda>i. field haystack i (length needle) = needle)
       [0..<Suc (length haystack - length needle)]"

definition vbr_loader :: "dev \<Rightarrow> str option" where
  "vbr_loader dev =
     Option.bind (res_ok (dev_read dev 0 (unat (min (dev_size dev) VBR_LEN)))) (\<lambda>buf.
       if contains buf (B ''BOOTMGR'') then Some (S ''bootmgr'')
       else if contains buf (B ''NTLDR'') then Some (S ''ntldr'')
       else None)"

definition MBR_STRINGS :: "bytes list" where
  "MBR_STRINGS =
     [B ''Invalid partition table'', B ''Error loading operating system'', B ''Missing operating system'']"

definition is_windows_bootstrap :: "bytes \<Rightarrow> bool" where
  "is_windows_bootstrap sector \<longleftrightarrow>
     2 \<le> length (filter (contains (take 446 sector)) MBR_STRINGS)"

definition pe_machine :: "u16 \<Rightarrow> str option" where
  "pe_machine machine =
     (if machine = 0x014c then Some (S ''i386'')
      else if machine = 0x8664 then Some (S ''x86_64'')
      else if machine = 0xaa64 then Some (S ''aarch64'')
      else if machine = 0x01c4 then Some (S ''arm'')
      else None)"

definition pe_arch :: "bytes \<Rightarrow> str option" where
  "pe_arch data =
     Option.bind (get_range data 0 2) (\<lambda>mz.
       if mz \<noteq> B ''MZ'' then None
       else Option.bind (get_range data 0x3c 0x40) (\<lambda>off.
         let pe = unat (le32_at off 0)
         in Option.bind (get_range data pe (pe + 4)) (\<lambda>sig.
              if sig \<noteq> B ''PE'' @ [0, 0] then None
              else Option.bind (get_range data (pe + 4) (pe + 6)) (\<lambda>m. pe_machine (le16_at m 0)))))"

section \<open>One pass over the disk\<close>

record walk_state =
  ws_parts :: "partition_boot list"
  ws_evidence :: "str list"
  ws_boot_manager :: "str option"
  ws_bcd :: "str option"
  ws_arch :: "str option"
  ws_ntfs_loader :: "nat option"
  ws_volumes :: bool
  ws_win_type :: bool

definition walk_initial :: walk_state where
  "walk_initial =
     \<lparr>ws_parts = [], ws_evidence = [], ws_boot_manager = None, ws_bcd = None, ws_arch = None,
      ws_ntfs_loader = None, ws_volumes = False, ws_win_type = False\<rparr>"

definition jot :: "str \<Rightarrow> walk_state \<Rightarrow> walk_state" where
  "jot line st = st\<lparr>ws_evidence := ws_evidence st @ [line]\<rparr>"

definition numbered :: "nat \<Rightarrow> str \<Rightarrow> str" where
  "numbered index what = S ''p'' @ show_nat index @ S '': '' @ what"

definition mbr_bootstrap :: "dev \<Rightarrow> partition_table \<Rightarrow> bool" where
  "mbr_bootstrap disk table \<longleftrightarrow>
     pt_kind table = Mbr \<and> in_bounds disk 0 512 \<and>
     (case dev_read disk 0 512 of Inl _ \<Rightarrow> False | Inr sector \<Rightarrow> is_windows_bootstrap sector)"

definition walk_type :: "partition \<Rightarrow> walk_state \<Rightarrow> walk_state" where
  "walk_type p st =
     (if p_type_id p \<in> set WINDOWS_TYPES
      then jot (numbered (p_index p) (p_kind p @ S '' partition'')) (st\<lparr>ws_win_type := True\<rparr>)
      else st)"

definition walk_volume :: "partition \<Rightarrow> str \<Rightarrow> dev \<Rightarrow> walk_state \<Rightarrow> walk_state" where
  "walk_volume p t dev st =
     (let st = st\<lparr>ws_volumes := True\<rparr>;
          st = (case vbr_loader dev of
              Some loader \<Rightarrow>
                jot (numbered (p_index p) (t @ S '' volume, VBR chains to '' @ loader))
                  (st\<lparr>ws_ntfs_loader := opt_or (ws_ntfs_loader st) (Some (p_index p))\<rparr>)
            | None \<Rightarrow> jot (numbered (p_index p) (t @ S '' volume'')) st)
      in st\<lparr>ws_parts := ws_parts st @
           [\<lparr>pb_partition = p, pb_fs_type = t, pb_fs = None, pb_scan = empty_scan\<rparr>]\<rparr>)"

definition walk_manager :: "partition \<Rightarrow> filesystem \<Rightarrow> walk_state \<Rightarrow> walk_state" where
  "walk_manager p fs st =
     (case find_path fs BOOT_MANAGER of
        None \<Rightarrow> st
      | Some path \<Rightarrow>
          let st = jot (numbered (p_index p) (S ''Windows boot manager '' @ path)) st
          in st\<lparr>ws_arch := opt_or (ws_arch st) (Option.bind (res_ok (fs_read_prefix fs path 4096)) pe_arch),
                ws_boot_manager := opt_or (ws_boot_manager st) (Some (uri (p_index p) path))\<rparr>)"

definition walk_bcd :: "partition \<Rightarrow> filesystem \<Rightarrow> walk_state \<Rightarrow> walk_state" where
  "walk_bcd p fs st =
     (case find_path fs BCD of
        None \<Rightarrow> st
      | Some path \<Rightarrow>
          let st = jot (numbered (p_index p) (S ''boot configuration store '' @ path)) st
          in st\<lparr>ws_bcd := opt_or (ws_bcd st) (Some (uri (p_index p) path))\<rparr>)"

definition walk_scan :: "bool \<Rightarrow> filesystem \<Rightarrow> boot_scan" where
  "walk_scan want_entries fs =
     (if want_entries then unwrap_or (res_ok (boot_scan_fs fs)) empty_scan else empty_scan)"

definition walk_files ::
  "bool \<Rightarrow> partition \<Rightarrow> str \<Rightarrow> filesystem \<Rightarrow> walk_state \<Rightarrow> walk_state" where
  "walk_files want_entries p t fs st =
     (let st = walk_bcd p fs (walk_manager p fs st)
      in st\<lparr>ws_parts := ws_parts st @
           [\<lparr>pb_partition = p, pb_fs_type = t, pb_fs = Some fs, pb_scan = walk_scan want_entries fs\<rparr>]\<rparr>)"

definition walk_partition ::
  "(dev \<Rightarrow> filesystem result) \<Rightarrow> bool \<Rightarrow> dev \<Rightarrow> partition \<Rightarrow> walk_state \<Rightarrow> walk_state" where
  "walk_partition open_fs want_entries disk p st =
     (let st = walk_type p st;
          dev = partition_open p disk
      in case unwrap_or (res_ok (detect dev)) None of
           None \<Rightarrow> st
         | Some t \<Rightarrow>
             if t = S ''ntfs'' \<or> t = S ''refs'' then walk_volume p t dev st
             else if t = S ''ext4'' \<or> t = S ''vfat'' then
               (case open_fs dev of
                  Inl _ \<Rightarrow> st
                | Inr fs \<Rightarrow> walk_files want_entries p t fs st)
             else st)"

record walk_result =
  wk_parts :: "partition_boot list"
  wk_windows :: "windows option"
  wk_bios_part :: "nat option"

definition firmware_of :: "bool \<Rightarrow> bool \<Rightarrow> firmware option" where
  "firmware_of boot_manager bios_part =
     (if boot_manager then Some (if bios_part then Both else Uefi)
      else if bios_part then Some Bios else None)"

definition walk_finish :: "bool \<Rightarrow> walk_state \<Rightarrow> walk_result" where
  "walk_finish bootstrap st =
     (let bios_part = (if bootstrap then ws_ntfs_loader st else None);
          firmware = firmware_of (ws_boot_manager st \<noteq> None) (bios_part \<noteq> None);
          is_windows = (firmware \<noteq> None \<or> ws_win_type st \<or> ws_bcd st \<noteq> None \<or> ws_volumes st)
      in \<lparr>wk_parts = ws_parts st,
          wk_windows =
            (if is_windows
             then Some \<lparr>wd_firmware = firmware, wd_boot_manager = ws_boot_manager st,
                    wd_bcd = ws_bcd st, wd_arch = ws_arch st, wd_evidence = ws_evidence st\<rparr>
             else None),
          wk_bios_part = bios_part\<rparr>)"

definition walk_start :: "bool \<Rightarrow> walk_state" where
  "walk_start bootstrap =
     (if bootstrap then jot (S ''mbr: Windows bootstrap code'') walk_initial else walk_initial)"

definition walk ::
  "(dev \<Rightarrow> filesystem result) \<Rightarrow> dev \<Rightarrow> bool \<Rightarrow> walk_result result" where
  "walk open_fs disk want_entries =
     rbind (part_scan disk) (\<lambda>table.
       let bootstrap = mbr_bootstrap disk table
       in Ok (walk_finish bootstrap
            (fold (walk_partition open_fs want_entries disk) (pt_partitions table)
               (walk_start bootstrap))))"

section \<open>The merged answer\<close>

text \<open>What becomes of an entry: itself, with the Windows boot filled in, and whether it is kept.\<close>

definition starts_manager :: "str option \<Rightarrow> str \<Rightarrow> bool" where
  "starts_manager bm_path target \<longleftrightarrow> (case bm_path of None \<Rightarrow> False | Some bm \<Rightarrow> same_file target bm)"

definition chain_entry :: "windows option \<Rightarrow> str option \<Rightarrow> boot_entry \<Rightarrow> boot_entry \<times> bool" where
  "chain_entry win bm_path e =
     (case be_chainloader e of
        None \<Rightarrow> (e, True)
      | Some target \<Rightarrow>
          if \<not> starts_manager bm_path target then (e, False)
          else (e\<lparr>be_windows := Some \<lparr>wb_firmware = Uefi, wb_arch = Option.bind win wd_arch,
                    wb_loader = Option.bind win wd_boot_manager\<rparr>\<rparr>, True))"

definition declares :: "str option \<Rightarrow> boot_entry \<Rightarrow> bool" where
  "declares bm_path e \<longleftrightarrow>
     (case be_chainloader e of None \<Rightarrow> False | Some target \<Rightarrow> starts_manager bm_path target)"

definition chain_part ::
  "windows option \<Rightarrow> str option \<Rightarrow> partition_boot \<Rightarrow> partition_boot result" where
  "chain_part win bm_path pb =
     (let marked = map (chain_entry win bm_path) (bs_entries (pb_scan pb))
      in rbind (retain (map fst marked) (bs_default (pb_scan pb)) (map snd marked))
           (\<lambda>(entries, default).
             Ok (pb\<lparr>pb_scan := (pb_scan pb)\<lparr>bs_entries := entries, bs_default := default\<rparr>\<rparr>)))"

fun chain_parts ::
  "windows option \<Rightarrow> str option \<Rightarrow> partition_boot list \<Rightarrow> bool \<Rightarrow>
   (partition_boot list \<times> bool) result" where
  "chain_parts win bm_path [] declared = Ok ([], declared)"
| "chain_parts win bm_path (pb # pbs) declared =
     rbind (chain_part win bm_path pb) (\<lambda>pb'.
     rbind (chain_parts win bm_path pbs
              (declared \<or> list_ex (declares bm_path) (bs_entries (pb_scan pb))))
       (\<lambda>(pbs', declared'). Ok (pb' # pbs', declared')))"

definition windows_entry :: "windows \<Rightarrow> firmware \<Rightarrow> boot_entry" where
  "windows_entry win firmware =
     default_entry_value\<lparr>be_title := Some (S ''Windows Boot Manager''), be_id := Some (S ''windows''),
       be_source := SrcWindows,
       be_windows := Some \<lparr>wb_firmware = firmware, wb_arch = wd_arch win, wb_loader = wd_boot_manager win\<rparr>\<rparr>"

definition push_entry :: "boot_entry \<Rightarrow> boot_scan \<Rightarrow> boot_scan" where
  "push_entry e s =
     (let entries = bs_entries s @ [e]
      in s\<lparr>bs_entries := entries, bs_default := opt_or (bs_default s) (Some (length entries - 1))\<rparr>)"

text \<open>\<open>iter_mut().find(..)\<close>: the first partition of that index.\<close>

fun push_windows :: "nat \<Rightarrow> boot_entry \<Rightarrow> partition_boot list \<Rightarrow> partition_boot list" where
  "push_windows index e [] = []"
| "push_windows index e (pb # pbs) =
     (if p_index (pb_partition pb) = index
      then pb\<lparr>pb_scan := push_entry e (pb_scan pb)\<rparr> # pbs
      else pb # push_windows index e pbs)"

definition windows_host :: "windows \<Rightarrow> nat option \<Rightarrow> nat option" where
  "windows_host win bios_part =
     opt_or (Option.bind (wd_boot_manager win) uri_partition) bios_part"

definition add_windows ::
  "windows option \<Rightarrow> nat option \<Rightarrow> bool \<Rightarrow> partition_boot list \<Rightarrow> partition_boot list" where
  "add_windows win bios_part declared parts =
     (if declared then parts
      else case win of
        None \<Rightarrow> parts
      | Some w \<Rightarrow>
          (case wd_firmware w of
             None \<Rightarrow> parts
           | Some firmware \<Rightarrow>
               (case windows_host w bios_part of
                  None \<Rightarrow> parts
                | Some index \<Rightarrow> push_windows index (windows_entry w firmware) parts)))"

definition manager_path :: "windows option \<Rightarrow> str option" where
  "manager_path win = map_option path_of (Option.bind win wd_boot_manager)"

definition bootable :: "(dev \<Rightarrow> filesystem result) \<Rightarrow> dev \<Rightarrow> partition_boot list result" where
  "bootable open_fs disk =
     rbind (walk open_fs disk True) (\<lambda>w.
     rbind (chain_parts (wk_windows w) (manager_path (wk_windows w)) (wk_parts w) False)
       (\<lambda>(parts, declared).
         Ok (filter (\<lambda>pb. bs_entries (pb_scan pb) \<noteq> [])
               (add_windows (wk_windows w) (wk_bios_part w) declared parts))))"

definition windows_evidence :: "(dev \<Rightarrow> filesystem result) \<Rightarrow> dev \<Rightarrow> windows option result" where
  "windows_evidence open_fs disk = rbind (walk open_fs disk False) (\<lambda>w. Ok (wk_windows w))"

section \<open>What the walk keeps\<close>

lemma part_scan_index:
  assumes "part_scan disk = Ok t" and "p \<in> set (pt_partitions t)"
  shows "p_index p \<le> 4096"
  using assms(1)
proof (cases rule: part_scan_cases)
  case gpt
  from gpt obtain header table where "unat (le32_at header 80) \<le> 4096"
    "pt_partitions t = List.map_filter (\<lambda>i. gpt_entry i
       (field table (i * unat (le32_at header 84)) (unat (le32_at header 84)))) [0..<unat (le32_at header 80)]"
    by (rule gpt_scan_Some) simp
  with assms(2) obtain i e where "i < unat (le32_at header 80)" "gpt_entry i e = Some p"
    by (auto simp: List.map_filter_def)
  with \<open>unat (le32_at header 80) \<le> 4096\<close> show ?thesis by (simp add: gpt_entry_index)
next
  case mbr
  from mbr(2) obtain sector es more where m: "parse_entries sector = Some es"
    "pt_partitions t = primary_partitions (mbr_part_uuid (le32_at sector 440)) 0 es @ more"
    "map p_index more = [5..<5 + length more]" "length more \<le> 128"
    by (rule mbr_scan_Some)
  from assms(2) m(2) consider "p \<in> set (primary_partitions (mbr_part_uuid (le32_at sector 440)) 0 es)"
    | "p \<in> set more" by auto
  then show ?thesis
  proof cases
    case 1
    with primary_partitions_index parse_entries_length [OF m(1)] show ?thesis by fastforce
  next
    case 2
    then have "p_index p \<in> set (map p_index more)" by simp
    with m(3,4) show ?thesis by simp
  qed
next
  case (whole q)
  with assms(2) show ?thesis by simp
qed

text \<open>
  An entry of a partition whose configs name no loader has a kernel on that partition; the default of
  a partition is one of its entries.
\<close>

definition entry_has_kernel :: "partition_boot \<Rightarrow> boot_entry \<Rightarrow> bool" where
  "entry_has_kernel pb e \<longleftrightarrow>
     (\<exists>fs k. pb_fs pb = Some fs \<and> be_kernel e = Some k \<and> fs_exists fs k)"

definition part_ok :: "partition_boot \<Rightarrow> bool" where
  "part_ok pb \<longleftrightarrow>
     default_ok (bs_entries (pb_scan pb)) (bs_default (pb_scan pb)) \<and>
     (\<forall>e \<in> set (bs_entries (pb_scan pb)). be_chainloader e = None \<longrightarrow> entry_has_kernel pb e)"

text \<open>
  The state of the walk points at partitions it has: the boot manager lies on one of them, and so
  does the volume that a BIOS install boots from.
\<close>

definition points_at :: "partition_boot list \<Rightarrow> nat \<Rightarrow> bool" where
  "points_at pbs i \<longleftrightarrow> (\<exists>pb \<in> set pbs. p_index (pb_partition pb) = i)"

definition manager_at :: "partition_boot list \<Rightarrow> str \<Rightarrow> bool" where
  "manager_at pbs u \<longleftrightarrow> (\<exists>i path. u = uri i path \<and> i \<le> 4096 \<and> points_at pbs i)"

definition walk_ok :: "walk_state \<Rightarrow> bool" where
  "walk_ok st \<longleftrightarrow>
     (\<forall>pb \<in> set (ws_parts st). part_ok pb) \<and>
     (\<forall>u. ws_boot_manager st = Some u \<longrightarrow> manager_at (ws_parts st) u) \<and>
     (\<forall>i. ws_ntfs_loader st = Some i \<longrightarrow> points_at (ws_parts st) i)"

lemma points_at_snoc [simp]:
  "points_at (pbs @ [pb]) i \<longleftrightarrow> points_at pbs i \<or> p_index (pb_partition pb) = i"
  by (auto simp: points_at_def)

lemma manager_at_snoc: "manager_at pbs u \<Longrightarrow> manager_at (pbs @ [pb]) u"
  by (auto simp: manager_at_def)

lemma manager_at_uri [simp]:
  "p_index (pb_partition pb) \<le> 4096 \<Longrightarrow> manager_at (pbs @ [pb]) (uri (p_index (pb_partition pb)) path)"
  by (auto simp: manager_at_def)

lemma part_ok_empty [simp]: "pb_scan pb = empty_scan \<Longrightarrow> part_ok pb"
  by (simp add: part_ok_def empty_scan_def)

lemma walk_scan_ok: "part_ok \<lparr>pb_partition = p, pb_fs_type = t, pb_fs = Some fs, pb_scan = walk_scan want fs\<rparr>"
proof (cases want)
  case False
  then show ?thesis by (simp add: walk_scan_def)
next
  case True
  obtain entries dflt configs d' where "default_ok (filter (boot_entry_usable fs) entries) d'"
    "boot_scan_fs fs = Ok \<lparr>bs_entries = filter (boot_entry_usable fs) entries, bs_default = d',
       bs_configs = configs\<rparr>"
    by (rule boot_scan_fs_choice [of fs])
  with True show ?thesis
    by (auto simp: part_ok_def walk_scan_def entry_has_kernel_def boot_entry_usable_def split: option.splits)
qed

lemma walk_ok_initial: "walk_ok walk_initial"
  by (simp add: walk_ok_def walk_initial_def)

lemma walk_ok_jot [simp]: "walk_ok (jot line st) = walk_ok st"
  by (simp add: walk_ok_def jot_def)

lemma walk_ok_type: "walk_ok st \<Longrightarrow> walk_ok (walk_type p st)"
  by (simp add: walk_type_def) (simp add: walk_ok_def)

lemma walk_ok_volume:
  "walk_ok st \<Longrightarrow> walk_ok (walk_volume p t dev st)"
  by (cases "ws_ntfs_loader st") (auto simp: walk_volume_def walk_ok_def Let_def jot_def manager_at_snoc split: option.splits)

lemma walk_ok_files:
  assumes "walk_ok st" and "p_index p \<le> 4096"
  shows "walk_ok (walk_files want p t fs st)"
proof -
  have "ws_boot_manager (walk_manager p fs st) = ws_boot_manager st \<or>
      (\<exists>path. ws_boot_manager (walk_manager p fs st) = Some (uri (p_index p) path))"
    by (cases "ws_boot_manager st") (auto simp: walk_manager_def Let_def jot_def split: option.splits)
  moreover have "ws_parts (walk_manager p fs st) = ws_parts st"
    "ws_ntfs_loader (walk_manager p fs st) = ws_ntfs_loader st"
    by (auto simp: walk_manager_def Let_def jot_def split: option.splits)
  moreover have "ws_boot_manager (walk_bcd p fs st') = ws_boot_manager st'"
    "ws_parts (walk_bcd p fs st') = ws_parts st'"
    "ws_ntfs_loader (walk_bcd p fs st') = ws_ntfs_loader st'" for st'
    by (auto simp: walk_bcd_def Let_def jot_def split: option.splits)
  ultimately show ?thesis
    using assms walk_scan_ok [of p t fs want]
      manager_at_uri [of "\<lparr>pb_partition = p, pb_fs_type = t, pb_fs = Some fs, pb_scan = walk_scan want fs\<rparr>"]
    unfolding walk_ok_def walk_files_def Let_def by (auto simp: manager_at_snoc)
qed

lemma walk_ok_partition:
  assumes "walk_ok st" and "p_index p \<le> 4096"
  shows "walk_ok (walk_partition open_fs want disk p st)"
  using walk_ok_type [OF assms(1), of p] assms(2)
  by (auto simp: walk_partition_def Let_def walk_ok_volume walk_ok_files
      split: option.splits sum.splits)

lemma walk_ok_fold:
  "walk_ok st \<Longrightarrow> \<forall>p \<in> set ps. p_index p \<le> 4096 \<Longrightarrow>
   walk_ok (fold (walk_partition open_fs want disk) ps st)"
  by (induction ps arbitrary: st) (auto intro: walk_ok_partition)

lemma walk_total:
  assumes "part_scan disk = Ok t"
  obtains st where "walk open_fs disk want = Ok (walk_finish (mbr_bootstrap disk t) st)"
    and "walk_ok st"
proof -
  let ?st = "fold (walk_partition open_fs want disk) (pt_partitions t) (walk_start (mbr_bootstrap disk t))"
  have "walk_ok (walk_start (mbr_bootstrap disk t))" by (simp add: walk_start_def walk_ok_initial)
  then have "walk_ok ?st"
    by (rule walk_ok_fold) (use part_scan_index [OF assms] in blast)
  moreover have "walk open_fs disk want = Ok (walk_finish (mbr_bootstrap disk t) ?st)"
    by (simp add: walk_def assms Let_def)
  ultimately show thesis by (rule that [rotated])
qed

text \<open>Whether entries are wanted or not, the walk finds the same Windows.\<close>

definition without_parts :: "walk_state \<Rightarrow> walk_state" where
  "without_parts st = st\<lparr>ws_parts := []\<rparr>"

lemma without_parts_pushed [simp]: "without_parts (st\<lparr>ws_parts := ps\<rparr>) = without_parts st"
  by (simp add: without_parts_def)

lemma without_parts_steps:
  "without_parts (walk_type p (without_parts st)) = without_parts (walk_type p st)"
  "without_parts (walk_manager p fs (without_parts st)) = without_parts (walk_manager p fs st)"
  "without_parts (walk_bcd p fs (without_parts st)) = without_parts (walk_bcd p fs st)"
  "without_parts (walk_volume p t dev (without_parts st)) = without_parts (walk_volume p t dev st)"
  by (simp_all add: without_parts_def walk_type_def walk_manager_def walk_bcd_def
      walk_volume_def jot_def Let_def split: option.split)

lemma without_parts_files:
  "without_parts (walk_files want p t fs (without_parts st)) = without_parts (walk_files want' p t fs st)"
proof -
  have "without_parts (walk_bcd p fs (walk_manager p fs (without_parts st))) =
      without_parts (walk_bcd p fs (walk_manager p fs st))"
    by (metis without_parts_steps(2,3))
  then show ?thesis by (simp add: walk_files_def Let_def)
qed

lemma without_parts_partition:
  "without_parts (walk_partition open_fs want disk p (without_parts st)) =
   without_parts (walk_partition open_fs want' disk p st)"
proof -
  define st1 where "st1 = walk_type p (without_parts st)"
  define st2 where "st2 = walk_type p st"
  have e: "without_parts st1 = without_parts st2"
    unfolding st1_def st2_def by (rule without_parts_steps)
  then have "without_parts (walk_volume p t dev st1) = without_parts (walk_volume p t dev st2)"
    and "without_parts (walk_files want p t fs st1) = without_parts (walk_files want' p t fs st2)" for t dev fs
    by (metis without_parts_steps(4), metis without_parts_files)
  with e show ?thesis unfolding walk_partition_def Let_def st1_def [symmetric] st2_def [symmetric]
    by (simp split: option.split sum.split)
qed

lemma without_parts_cong:
  "without_parts st = without_parts st' \<Longrightarrow>
   without_parts (walk_partition open_fs want disk p st) =
   without_parts (walk_partition open_fs want' disk p st')"
  by (metis without_parts_partition)

lemma without_parts_fold:
  "without_parts st = without_parts st' \<Longrightarrow>
   without_parts (fold (walk_partition open_fs want disk) ps st) =
   without_parts (fold (walk_partition open_fs want' disk) ps st')"
proof (induction ps arbitrary: st st')
  case (Cons p ps)
  from without_parts_cong [OF Cons.prems] show ?case by (auto intro: Cons.IH)
qed simp

lemma walk_finish_windows:
  "without_parts st = without_parts st' \<Longrightarrow>
   wk_windows (walk_finish bootstrap st) = wk_windows (walk_finish bootstrap st')"
  by (cases st; cases st') (simp add: without_parts_def walk_finish_def Let_def)

lemma walk_windows_eq:
  assumes "walk open_fs disk want = Ok w"
  shows "windows_evidence open_fs disk = Ok (wk_windows w)"
proof -
  from assms obtain t where t: "part_scan disk = Ok t"
    by (cases "part_scan disk") (simp_all add: walk_def)
  show ?thesis
    using assms walk_finish_windows [OF without_parts_fold [OF refl, of open_fs False disk _ _ want]]
    by (auto simp: windows_evidence_def walk_def t Let_def)
qed
section \<open>What the merge keeps\<close>

lemma uri_parts:
  assumes "i < 2 ^ 64"
  shows "uri_partition (uri i path) = Some i \<and> path_of (uri i path) = path"
proof -
  have "ch CHR '':'' \<notin> set (show_nat i)" by (auto dest!: show_nat_digits simp: is_ascii_digit_def)
  then have n: "\<forall>c \<in> set (show_nat i). c \<noteq> ch CHR '':''" by auto
  then have p: "\<forall>c \<in> set (S ''p'' @ show_nat i). c \<noteq> ch CHR '':''" by simp
  have s: "split_once (ch CHR '':'') (show_nat i @ S '':'' @ path) = Some (show_nat i, path)"
    using n split_once_append [where P = "\<lambda>c. c = ch CHR '':''"] by simp
  have "split_once (ch CHR '':'') (uri i path) = Some (S ''p'' @ show_nat i, path)"
    using p split_once_append [where P = "\<lambda>c. c = ch CHR '':''" and a = "S ''p'' @ show_nat i"]
    by (simp add: uri_def)
  then have "path_of (uri i path) = path" unfolding path_of_def by simp
  moreover have "strip_prefix (S ''p'') (uri i path) = Some (show_nat i @ S '':'' @ path)"
    unfolding uri_def by (rule strip_prefix_append)
  then have "uri_partition (uri i path) = Some i"
    unfolding uri_partition_def using s parse_usize_show [OF assms] by simp
  ultimately show ?thesis by blast
qed

text \<open>
  What an entry of the merged answer starts: a kernel on its own partition, the boot manager through
  a chainloader, or the Windows install found by the walk.
\<close>

definition chained :: "windows option \<Rightarrow> boot_entry \<Rightarrow> bool" where
  "chained win e \<longleftrightarrow>
     (\<exists>w bm t. win = Some w \<and> wd_boot_manager w = Some bm \<and> be_chainloader e = Some t \<and>
        same_file t (path_of bm) \<and>
        be_windows e = Some \<lparr>wb_firmware = Uefi, wb_arch = wd_arch w, wb_loader = Some bm\<rparr>)"

definition entry_boots :: "windows option \<Rightarrow> partition_boot \<Rightarrow> boot_entry \<Rightarrow> bool" where
  "entry_boots win pb e \<longleftrightarrow>
     be_chainloader e = None \<and> entry_has_kernel pb e \<or>
     chained win e \<or>
     (\<exists>w f. win = Some w \<and> wd_firmware w = Some f \<and> e = windows_entry w f)"

definition part_boots :: "windows option \<Rightarrow> partition_boot \<Rightarrow> bool" where
  "part_boots win pb \<longleftrightarrow>
     default_ok (bs_entries (pb_scan pb)) (bs_default (pb_scan pb)) \<and>
     (\<forall>e \<in> set (bs_entries (pb_scan pb)). entry_boots win pb e)"

lemma chain_entry_cases:
  assumes "bm_path = manager_path win" and "snd (chain_entry win bm_path e)"
  shows "be_chainloader e = None \<and> fst (chain_entry win bm_path e) = e \<or>
    declares bm_path e \<and> chained win (fst (chain_entry win bm_path e))"
  using assms
  by (cases win) (auto simp: chain_entry_def declares_def chained_def starts_manager_def manager_path_def
      split: option.splits if_splits)

lemma declares_kept:
  "bm_path = manager_path win \<Longrightarrow> declares bm_path e \<Longrightarrow>
   snd (chain_entry win bm_path e) \<and> chained win (fst (chain_entry win bm_path e))"
  by (cases win) (auto simp: chain_entry_def declares_def chained_def starts_manager_def manager_path_def
      split: option.splits if_splits)

lemma map_fst_filter_snd: "map fst (filter snd (zip (map fst m) (map snd m))) = map fst (filter snd m)"
  by (simp add: zip_map_fst_snd)

lemma chain_part_total:
  assumes "part_ok pb" and bm: "bm_path = manager_path win"
  obtains pb' where "chain_part win bm_path pb = Ok pb'" and "pb_partition pb' = pb_partition pb"
    and "part_boots win pb'"
    and "(\<exists>e \<in> set (bs_entries (pb_scan pb)). declares bm_path e) \<longrightarrow>
      (\<exists>e \<in> set (bs_entries (pb_scan pb')). chained win e)"
proof -
  let ?m = "map (chain_entry win bm_path) (bs_entries (pb_scan pb))"
  have d: "default_ok (map fst ?m) (bs_default (pb_scan pb))"
    using assms(1) by (simp add: part_ok_def default_ok_def split: option.splits)
  obtain kept d' where r: "retain (map fst ?m) (bs_default (pb_scan pb)) (map snd ?m) = Ok (kept, d')"
    "kept = map fst (filter snd (zip (map fst ?m) (map snd ?m)))" "default_ok kept d'"
    by (rule retain_total [OF _ d, of "map snd ?m"]) auto
  have kept: "kept = map fst (filter snd ?m)" using r(2) by (simp only: map_fst_filter_snd)
  let ?pb = "pb\<lparr>pb_scan := (pb_scan pb)\<lparr>bs_entries := kept, bs_default := d'\<rparr>\<rparr>"
  have ok: "\<forall>e \<in> set (bs_entries (pb_scan pb)). be_chainloader e = None \<longrightarrow> entry_has_kernel pb e"
    using assms(1) by (simp add: part_ok_def)
  have "entry_boots win ?pb e'" if "e' \<in> set kept" for e'
  proof -
    from that obtain e where e: "e \<in> set (bs_entries (pb_scan pb))" "snd (chain_entry win bm_path e)"
      "e' = fst (chain_entry win bm_path e)" by (auto simp: kept)
    from chain_entry_cases [OF bm e(2)] ok e(1) show ?thesis
      unfolding e(3) by (auto simp: entry_boots_def entry_has_kernel_def)
  qed
  with r(3) have boots: "part_boots win ?pb" by (simp add: part_boots_def)
  show thesis
  proof (rule that [OF _ _ boots])
    show "chain_part win bm_path pb = Ok ?pb" using r(1) by (simp add: chain_part_def Let_def)
  next
    show "(\<exists>e \<in> set (bs_entries (pb_scan pb)). declares bm_path e) \<longrightarrow>
      (\<exists>e \<in> set (bs_entries (pb_scan ?pb)). chained win e)"
      using declares_kept [OF bm] by (force simp: kept)
  qed simp
qed

lemma chain_parts_total:
  assumes "\<forall>pb \<in> set pbs. part_ok pb" and bm: "bm_path = manager_path win"
  shows "\<exists>pbs' declared'. chain_parts win bm_path pbs declared = Ok (pbs', declared') \<and>
    map pb_partition pbs' = map pb_partition pbs \<and> (\<forall>pb \<in> set pbs'. part_boots win pb) \<and>
    (declared' \<longrightarrow> declared \<or> (\<exists>pb \<in> set pbs'. \<exists>e \<in> set (bs_entries (pb_scan pb)). chained win e))"
  using assms(1)
proof (induction pbs arbitrary: declared)
  case (Cons pb pbs)
  then have pb: "part_ok pb" by simp
  obtain pb' where c: "chain_part win bm_path pb = Ok pb'" "pb_partition pb' = pb_partition pb"
    "part_boots win pb'"
    "(\<exists>e \<in> set (bs_entries (pb_scan pb)). declares bm_path e) \<longrightarrow>
      (\<exists>e \<in> set (bs_entries (pb_scan pb')). chained win e)"
    by (rule chain_part_total [OF pb bm])
  let ?d = "declared \<or> list_ex (declares bm_path) (bs_entries (pb_scan pb))"
  from Cons.IH [of ?d] Cons.prems obtain pbs' declared' where
    r: "chain_parts win bm_path pbs ?d = Ok (pbs', declared')"
      "map pb_partition pbs' = map pb_partition pbs" "\<forall>pb \<in> set pbs'. part_boots win pb"
      "declared' \<longrightarrow> ?d \<or> (\<exists>pb \<in> set pbs'. \<exists>e \<in> set (bs_entries (pb_scan pb)). chained win e)"
    by auto
  have "chain_parts win bm_path (pb # pbs) declared = Ok (pb' # pbs', declared')"
    using c(1) r(1) by simp
  moreover have "declared' \<longrightarrow> declared \<or>
      (\<exists>pb \<in> set (pb' # pbs'). \<exists>e \<in> set (bs_entries (pb_scan pb)). chained win e)"
    using r(4) c(4) by (auto simp: list_ex_iff)
  moreover have "map pb_partition (pb' # pbs') = map pb_partition (pb # pbs)"
    "\<forall>pb \<in> set (pb' # pbs'). part_boots win pb" using c(2,3) r(2,3) by simp_all
  ultimately show ?case by blast
qed simp

lemma push_entry_default:
  "default_ok (bs_entries s) (bs_default s) \<Longrightarrow>
   default_ok (bs_entries (push_entry e s)) (bs_default (push_entry e s))"
  by (cases "bs_default s") (auto simp: push_entry_def Let_def)

lemma push_windows_boots:
  assumes "\<forall>pb \<in> set pbs. part_boots (Some w) pb" and "wd_firmware w = Some f"
  shows "\<forall>pb \<in> set (push_windows i (windows_entry w f) pbs). part_boots (Some w) pb"
  using assms
proof (induction pbs)
  case (Cons pb pbs)
  have "part_boots (Some w) (pb\<lparr>pb_scan := push_entry (windows_entry w f) (pb_scan pb)\<rparr>)"
    using Cons.prems push_entry_default [of "pb_scan pb"]
    by (auto simp: part_boots_def entry_boots_def entry_has_kernel_def push_entry_def Let_def)
  with Cons show ?case by simp
qed simp

lemma push_windows_pushed:
  "points_at pbs i \<Longrightarrow> \<exists>pb \<in> set (push_windows i e pbs). e \<in> set (bs_entries (pb_scan pb))"
  by (induction pbs) (auto simp: points_at_def push_entry_def Let_def)

lemma points_at_map:
  assumes "map pb_partition pbs' = map pb_partition pbs"
  shows "points_at pbs' i = points_at pbs i"
proof -
  have "points_at qs i \<longleftrightarrow> i \<in> p_index ` set (map pb_partition qs)" for qs
    by (auto simp: points_at_def)
  then show ?thesis by (simp only: assms)
qed

lemma windows_host_points:
  assumes "walk_ok st" and "wk_windows (walk_finish b st) = Some w" and "wd_firmware w \<noteq> None"
  shows "\<exists>i. windows_host w (wk_bios_part (walk_finish b st)) = Some i \<and> points_at (ws_parts st) i"
proof -
  from assms(2) have w: "wd_boot_manager w = ws_boot_manager st"
    "wd_firmware w = firmware_of (ws_boot_manager st \<noteq> None) (b \<and> ws_ntfs_loader st \<noteq> None)"
    by (auto simp: walk_finish_def Let_def split: if_splits)
  show ?thesis
  proof (cases "ws_boot_manager st")
    case None
    with w assms(3) obtain i where "b" "ws_ntfs_loader st = Some i"
      by (auto simp: firmware_of_def split: if_splits)
    with assms(1) w None show ?thesis by (simp add: walk_ok_def windows_host_def walk_finish_def Let_def)
  next
    case (Some u)
    with assms(1) obtain i path where i: "u = uri i path" "i \<le> 4096" "points_at (ws_parts st) i"
      by (auto simp: walk_ok_def manager_at_def)
    then have "i < 2 ^ 64" by simp
    from uri_parts [OF this, of path] i w Some show ?thesis by (simp add: windows_host_def)
  qed
qed

lemma bootable_has_windows:
  assumes "windows_evidence open_fs disk = Ok (Some w)" and "wd_firmware w = Some f"
  shows "\<exists>parts pb e. bootable open_fs disk = Ok parts \<and> pb \<in> set parts \<and> e \<in> set (bs_entries (pb_scan pb)) \<and>
    (chained (Some w) e \<or> e = windows_entry w f)"
proof -
  from assms(1) obtain t where t: "part_scan disk = Ok t"
    by (cases "part_scan disk") (simp_all add: windows_evidence_def walk_def)
  obtain st where w: "walk open_fs disk True = Ok (walk_finish (mbr_bootstrap disk t) st)" and ok: "walk_ok st"
    by (rule walk_total [OF t])
  let ?w = "walk_finish (mbr_bootstrap disk t) st"
  have win: "wk_windows ?w = Some w" using walk_windows_eq [OF w] assms(1) by simp
  have "\<forall>pb \<in> set (wk_parts ?w). part_ok pb" using ok by (simp add: walk_ok_def walk_finish_def Let_def)
  from chain_parts_total [OF this refl, of "wk_windows ?w" False] obtain pbs declared where
    c: "chain_parts (wk_windows ?w) (manager_path (wk_windows ?w)) (wk_parts ?w) False = Ok (pbs, declared)"
      "map pb_partition pbs = map pb_partition (wk_parts ?w)"
      "declared \<longrightarrow> (\<exists>pb \<in> set pbs. \<exists>e \<in> set (bs_entries (pb_scan pb)). chained (Some w) e)"
    unfolding win by blast
  let ?parts = "add_windows (Some w) (wk_bios_part ?w) declared pbs"
  have "\<exists>pb \<in> set ?parts. \<exists>e \<in> set (bs_entries (pb_scan pb)). chained (Some w) e \<or> e = windows_entry w f"
  proof (cases declared)
    case True
    with c(3) show ?thesis by (auto simp: add_windows_def)
  next
    case False
    obtain i where i: "windows_host w (wk_bios_part ?w) = Some i" "points_at (ws_parts st) i"
      using windows_host_points [OF ok win] assms(2) by auto
    have "wk_parts ?w = ws_parts st" by (simp add: walk_finish_def Let_def)
    with i(2) points_at_map [OF c(2), of i] have "points_at pbs i" by simp
    from push_windows_pushed [OF this, of "windows_entry w f"] False assms(2) i(1) show ?thesis
      by (auto simp: add_windows_def)
  qed
  moreover have "bootable open_fs disk = Ok (filter (\<lambda>pb. bs_entries (pb_scan pb) \<noteq> []) ?parts)"
    using w c(1) by (simp add: bootable_def win)
  ultimately show ?thesis by (auto intro!: exI [of _ "filter (\<lambda>pb. bs_entries (pb_scan pb) \<noteq> []) ?parts"])
qed

section \<open>Properties\<close>

text \<open>
  C28: the merged answer fails only when the partition table cannot be read, and everything in it boots.
  No partition of it is without entries and each has one of its entries as the default. An entry
  without chainloader has its kernel on that partition, unless it is the entry made for the
  Windows install; a chainloader entry names the boot manager that was found and says how to start it.
\<close>

theorem bootable_sound:
  "(case part_scan disk of
      Inl e \<Rightarrow> bootable open_fs disk = Err e \<and> windows_evidence open_fs disk = Err e
    | Inr t \<Rightarrow>
        \<exists>parts win. bootable open_fs disk = Ok parts \<and> windows_evidence open_fs disk = Ok win \<and>
          (\<forall>pb \<in> set parts. bs_entries (pb_scan pb) \<noteq> [] \<and> part_boots win pb))"
proof (cases "part_scan disk")
  case (Inl e)
  then show ?thesis by (simp add: bootable_def windows_evidence_def walk_def)
next
  case (Inr t)
  obtain st where w: "walk open_fs disk True = Ok (walk_finish (mbr_bootstrap disk t) st)" and ok: "walk_ok st"
    by (rule walk_total [OF Inr])
  let ?w = "walk_finish (mbr_bootstrap disk t) st"
  have "\<forall>pb \<in> set (wk_parts ?w). part_ok pb" using ok by (simp add: walk_ok_def walk_finish_def Let_def)
  from chain_parts_total [OF this refl, of "wk_windows ?w" False] obtain pbs declared where
    c: "chain_parts (wk_windows ?w) (manager_path (wk_windows ?w)) (wk_parts ?w) False = Ok (pbs, declared)"
      "\<forall>pb \<in> set pbs. part_boots (wk_windows ?w) pb" by blast
  have "\<forall>pb \<in> set (add_windows (wk_windows ?w) (wk_bios_part ?w) declared pbs). part_boots (wk_windows ?w) pb"
    using c(2) push_windows_boots by (auto simp: add_windows_def split: option.splits)
  with w c(1) walk_windows_eq [OF w] Inr show ?thesis by (simp add: bootable_def)
qed

text \<open>
  C29: a Windows install with a boot path is never lost. When the walk finds one, UEFI or BIOS, the merged
  answer has an entry that starts it: the chainloader item of a config, or the entry made for it
  on the partition of the boot manager (else of the volume that BIOS boots from).
\<close>

theorem bootable_windows:
  assumes "windows_evidence open_fs disk = Ok (Some w)" and "wd_firmware w = Some f"
  shows "\<exists>parts pb e. bootable open_fs disk = Ok parts \<and> pb \<in> set parts \<and> e \<in> set (bs_entries (pb_scan pb)) \<and>
    (chained (Some w) e \<or> e = windows_entry w f)"
  using assms by (rule bootable_has_windows)

section \<open>An EFI system partition with Windows on it\<close>

definition esp_sector :: bytes where
  "esp_sector = [0xeb] @ replicate 53 0 @ B ''FAT16   '' @ replicate 450 0"

definition esp_disk :: dev where
  "esp_disk = \<lparr>dev_size = 512, dev_read = (\<lambda>off n.
     if unat off + n \<le> 512 then Ok (field esp_sector (unat off) n) else Err (OutOfBounds off n 512))\<rparr>"

definition one_dir :: "str \<Rightarrow> dir_entry list" where
  "one_dir name = [\<lparr>de_name = name, de_kind = KDir, de_size = 0\<rparr>]"

definition esp_fs :: filesystem where
  "esp_fs =
     \<lparr>fs_type = S ''vfat'', fs_label = None,
      fs_read_dir = (\<lambda>d.
        if d = S ''/'' then Ok (one_dir (S ''EFI''))
        else if d = S ''/EFI'' then Ok (one_dir (S ''MICROSOFT''))
        else if d = S ''/EFI/MICROSOFT'' then Ok (one_dir (S ''Boot''))
        else if d = S ''/EFI/MICROSOFT/Boot'' then Ok (one_dir (S ''bootmgfw.efi''))
        else Err (NotFound d)),
      fs_read_file = (\<lambda>p. Err (NotFound p)), fs_exists = (\<lambda>p. False),
      fs_read_prefix = (\<lambda>p n. Err (NotFound p)), fs_file_size = (\<lambda>p. Err (NotFound p)),
      fs_read_link = (\<lambda>p. None)\<rparr>"

definition esp_windows :: windows where
  "esp_windows = \<lparr>wd_firmware = Some Uefi,
     wd_boot_manager = Some (S ''p1:/EFI/MICROSOFT/Boot/bootmgfw.efi''), wd_bcd = None, wd_arch = None,
     wd_evidence = [S ''p1: Windows boot manager /EFI/MICROSOFT/Boot/bootmgfw.efi'']\<rparr>"

definition esp_partition :: partition where
  "esp_partition = \<lparr>p_index = 1, p_start_byte = 0, p_size_bytes = 512, p_kind = S ''whole disk'',
     p_type_id = [], p_name = None, p_probe_worthy = True, p_part_uuid = None\<rparr>"

lemma two_zeros: "replicate 2 x = [x, x]"
  by (simp add: numeral_eq_Suc)

lemma eight_zeros: "replicate 8 x = [x, x, x, x, x, x, x, x]"
  by (simp add: numeral_eq_Suc)

lemma length_esp_sector [simp]: "length esp_sector = 512"
  by (simp add: esp_sector_def)

lemma esp_part_scan: "part_scan esp_disk = Ok \<lparr>pt_kind = NoTable, pt_partitions = [esp_partition]\<rparr>"
proof -
  have "gpt_scan esp_disk = Ok None" by (simp add: gpt_scan_def esp_disk_def SECTOR_def)
  moreover have "parse_entries esp_sector = None"
    by (simp add: parse_entries_def esp_sector_def field_def two_zeros)
  then have "mbr_scan esp_disk = Ok None"
    by (simp add: mbr_scan_def esp_disk_def SECTOR_def field_def)
  moreover have "dev_size esp_disk = 512" by (simp add: esp_disk_def)
  ultimately show ?thesis by (simp add: part_scan_def esp_partition_def)
qed

lemma esp_detect: "detect (partition_open esp_partition esp_disk) = Ok (Some (S ''vfat''))"
proof -
  let ?d = "partition_open esp_partition esp_disk"
  have sz: "dev_size ?d = 512"
    by (simp add: partition_open_def slice_dev_def slice_new_def esp_partition_def esp_disk_def)
  have rd: "dev_read ?d off n = Ok (field esp_sector (unat off) n)" if "unat off + n \<le> 512" for off n
    using that by (simp add: partition_open_def slice_dev_def slice_new_def slice_read_def esp_partition_def
        esp_disk_def check_bounds_if)
  have "detect_ext4 ?d = Ok None" by (simp add: detect_ext4_def in_bounds_def check_bounds_if sz)
  moreover have "detect_start ?d = Ok None"
    by (simp add: detect_start_def in_bounds_def check_bounds_if sz rd) (simp add: esp_sector_def field_def)
  moreover have "detect_btrfs ?d = Ok None" by (simp add: detect_btrfs_def in_bounds_def check_bounds_if sz)
  moreover have "detect_boot_sector esp_sector = Some (S ''vfat'')"
    by (simp add: detect_boot_sector_def esp_sector_def field_def Let_def eight_zeros)
  then have "detect_sector ?d = Ok (Some (S ''vfat''))"
    by (simp add: detect_sector_def in_bounds_def check_bounds_if sz rd) (simp add: field_def)
  ultimately show ?thesis unfolding detect_def by (simp add: or_detect_def)
qed

lemma esp_manager: "find_path esp_fs BOOT_MANAGER = Some (S ''/EFI/MICROSOFT/Boot/bootmgfw.efi'')"
  by (simp add: find_path_def BOOT_MANAGER_def esp_fs_def one_dir_def eq_ignore_ascii_case_def
      to_ascii_lowercase_def ascii_lower_def is_ascii_uppercase_def)

lemma esp_bcd: "find_path esp_fs BCD = None"
  by (simp add: find_path_def BCD_def esp_fs_def one_dir_def eq_ignore_ascii_case_def
      to_ascii_lowercase_def ascii_lower_def is_ascii_uppercase_def)

lemma esp_evidence: "windows_evidence (\<lambda>d. Ok esp_fs) esp_disk = Ok (Some esp_windows)"
proof -
  have "walk_type esp_partition walk_initial = walk_initial"
    by (simp add: walk_type_def esp_partition_def WINDOWS_TYPES_def MS_RESERVED_def WINDOWS_RECOVERY_def
        MS_LDM_METADATA_def MS_LDM_DATA_def MS_STORAGE_SPACES_def)
  then have step: "walk_partition (\<lambda>d. Ok esp_fs) False esp_disk esp_partition walk_initial =
      walk_files False esp_partition (S ''vfat'') esp_fs walk_initial"
    by (simp add: walk_partition_def esp_detect Let_def)
  have start: "\<not> mbr_bootstrap esp_disk \<lparr>pt_kind = NoTable, pt_partitions = [esp_partition]\<rparr>"
    by (simp add: mbr_bootstrap_def)
  have "p_index esp_partition = 1" "fs_read_prefix esp_fs = (\<lambda>p n. Err (NotFound p))"
    by (simp_all add: esp_partition_def esp_fs_def)
  then show ?thesis
    by (simp add: windows_evidence_def walk_def esp_part_scan start walk_start_def step)
      (simp add: walk_files_def walk_manager_def walk_bcd_def esp_manager esp_bcd walk_finish_def firmware_of_def esp_windows_def
        walk_initial_def jot_def numbered_def uri_def Let_def show_base.simps digit_char_def)
qed

lemma bootable_windows_witness:
  "\<exists>parts pb e. bootable (\<lambda>d. Ok esp_fs) esp_disk = Ok parts \<and> pb \<in> set parts \<and>
     e \<in> set (bs_entries (pb_scan pb)) \<and> (chained (Some esp_windows) e \<or> e = windows_entry esp_windows Uefi)"
  using bootable_windows [OF esp_evidence, of Uefi] by (simp add: esp_windows_def)

lemma bootable_sound_witness:
  "\<exists>parts pb. bootable (\<lambda>d. Ok esp_fs) esp_disk = Ok parts \<and> pb \<in> set parts \<and>
     part_boots (Some esp_windows) pb"
proof -
  obtain t where t: "part_scan esp_disk = Ok t"
    using esp_evidence by (cases "part_scan esp_disk") (simp_all add: windows_evidence_def walk_def)
  from bootable_sound [where disk = esp_disk and open_fs = "\<lambda>d. Ok esp_fs"] obtain parts where
    "bootable (\<lambda>d. Ok esp_fs) esp_disk = Ok parts" "\<forall>pb \<in> set parts. part_boots (Some esp_windows) pb"
    by (auto simp: t esp_evidence)
  moreover obtain parts' pb where "bootable (\<lambda>d. Ok esp_fs) esp_disk = Ok parts'" "pb \<in> set parts'"
    using bootable_has_windows [OF esp_evidence, of Uefi] by (auto simp: esp_windows_def)
  ultimately show ?thesis by auto
qed
end
