(* ===== verification/Guest_Tests.thy ===== *)
theory Guest_Tests
  imports Guest Boot_Tests
begin

text \<open>
  The unit tests of src/src/guest.rs, run on the model by evaluation in the kernel. Each definition is
  one \<open>#[test]\<close> function: the conjunction of its assertions. The one on the bootstrap code, whose
  sectors are large, is left out.
\<close>

definition pe_fixture :: "u16 \<Rightarrow> bytes" where
  "pe_fixture machine =
     B ''MZ'' @ replicate 58 0 @ le_enc 4 0x80 @ replicate 64 0 @ B ''PE'' @ [0, 0] @
     le_enc 2 (unat machine) @ [0, 0]"

definition pe_machine_types :: bool where
  "pe_machine_types \<longleftrightarrow>
     pe_arch (pe_fixture 0x8664) = Some (S ''x86_64'') \<and>
     pe_arch (pe_fixture 0xaa64) = Some (S ''aarch64'') \<and>
     pe_arch (pe_fixture 0x014c) = Some (S ''i386'') \<and>
     pe_arch (pe_fixture 0x5678) = None \<and>
     pe_arch (B ''not a PE at all'') = None \<and>
     pe_arch (take 0x20 (pe_fixture 0x8664)) = None"

lemma pe_machine_types: pe_machine_types
  by code_simp

definition finds_boot_manager_whatever_the_case :: bool where
  "finds_boot_manager_whatever_the_case \<longleftrightarrow>
     (let fs = mock_filesystem (mock_new
            [(S ''/EFI/Microsoft/Boot/bootmgfw.efi'', S ''MZ''), (S ''/EFI/Microsoft/Boot/BCD'', S ''hive'')]);
          lower = mock_filesystem (mock_new [(S ''/efi/microsoft/boot/BOOTMGFW.EFI'', S ''MZ'')])
      in find_path fs BOOT_MANAGER = Some (S ''/EFI/Microsoft/Boot/bootmgfw.efi'') \<and>
         find_path fs BCD = Some (S ''/EFI/Microsoft/Boot/BCD'') \<and>
         find_path lower BOOT_MANAGER = Some (S ''/efi/microsoft/boot/BOOTMGFW.EFI''))"

lemma finds_boot_manager_whatever_the_case: finds_boot_manager_whatever_the_case
  by code_simp

definition linux_esp_has_no_boot_manager :: bool where
  "linux_esp_has_no_boot_manager \<longleftrightarrow>
     (let fs = mock_filesystem (mock_new
            [(S ''/EFI/BOOT/BOOTAA64.EFI'', S ''MZ''),
             (S ''/EFI/debian/grub.cfg'', S ''menuentry 'Debian' {}'')])
      in find_path fs BOOT_MANAGER = None \<and> find_path fs BCD = None)"

lemma linux_esp_has_no_boot_manager: linux_esp_has_no_boot_manager
  by code_simp

definition chainloader_targets_match_the_boot_manager :: bool where
  "chainloader_targets_match_the_boot_manager \<longleftrightarrow>
     (let found = S ''/EFI/Microsoft/Boot/bootmgfw.efi'';
          sep = [ch (CHR 0x5C)]
      in same_file (S ''/EFI/Microsoft/Boot/bootmgfw.efi'') found \<and>
         same_file (S ''/efi/microsoft/boot/bootmgfw.efi'') found \<and>
         same_file (sep @ S ''EFI'' @ sep @ S ''Microsoft'' @ sep @ S ''Boot'' @ sep @ S ''bootmgfw.efi'') found \<and>
         same_file (S ''/EFI/MICROSOFT/BOOT/BOOTMGFW.EFI'') found \<and>
         \<not> same_file (S ''/EFI/ubuntu/grubx64.efi'') found \<and>
         \<not> same_file (S ''+1'') found)"

lemma chainloader_targets_match_the_boot_manager: chainloader_targets_match_the_boot_manager
  by code_simp

definition guest_uri_parts :: bool where
  "guest_uri_parts \<longleftrightarrow>
     uri 2 (S ''/EFI/x.efi'') = S ''p2:/EFI/x.efi'' \<and>
     uri_partition (S ''p12:/EFI/x.efi'') = Some 12 \<and>
     uri_partition (S ''/EFI/x.efi'') = None \<and>
     path_of (S ''p1:/EFI/x.efi'') = S ''/EFI/x.efi''"

lemma guest_uri_parts: guest_uri_parts
  by code_simp

definition no_windows :: windows where
  "no_windows = \<lparr>wd_firmware = None, wd_boot_manager = None, wd_bcd = None, wd_arch = None, wd_evidence = []\<rparr>"

definition summary_reports_what_is_known :: bool where
  "summary_reports_what_is_known \<longleftrightarrow>
     windows_summary (no_windows\<lparr>wd_firmware := Some Uefi, wd_arch := Some (S ''x86_64'')\<rparr>) = S ''uefi, x86_64'' \<and>
     windows_summary no_windows = S ''no boot manager found''"

lemma summary_reports_what_is_known: summary_reports_what_is_known
  by code_simp

end
