(* ===== verification/Remote.thy ===== *)
theory Remote
  imports Bytes
begin

text \<open>
  src/src/source/remote.rs: a remote image as a byte source. The reader keeps the image in chunks of
  4 MiB, each fetched the first time a read touches it: by a ranged request, or, when the server does
  not honour ranges, from one forward stream that is read chunk by chunk. Chunks may persist in a
  directory on disk.

  The network is a parameter: a \<open>fetcher\<close> whose calls run in a state \<open>'w\<close> of the world, with streams
  of type \<open>'s\<close> (the trait \<open>RangeFetcher\<close> and the \<open>dyn Read\<close> it returns). A ranged request or a read of a
  stream may never return: that is the value \<open>None\<close>, and whatever waits for it does not return either.
  The files of the cache are a map from paths to contents, and \<open>faults\<close> says which file operations fail:
  any of them may, at any time. The locale \<open>remote_source\<close> states what a fetcher promises. Progress lines
  are not modelled.
\<close>

definition CHUNK :: u64 where
  "CHUNK = 4 * 1024 * 1024"

record probe =
  pr_size :: u64
  pr_supports_range :: bool

record ('s, 'w) fetcher =
  ft_probe :: "'w \<Rightarrow> probe result \<times> 'w"
  ft_range :: "u64 \<Rightarrow> u64 \<Rightarrow> 'w \<Rightarrow> bytes result option \<times> 'w"
  ft_all :: "'w \<Rightarrow> 's result \<times> 'w"
  ft_read :: "'s \<Rightarrow> nat \<Rightarrow> 'w \<Rightarrow> (str + bytes) option \<times> 's \<times> 'w"

section \<open>Files\<close>

text \<open>
  The operating system as the cache sees it. A fault makes the operation of that number fail; a
  write that fails may have written a part of its data.
\<close>

datatype fault = Refused | Cut nat

type_synonym faults = "nat \<Rightarrow> fault option"

record os =
  os_files :: "str \<rightharpoonup> bytes"
  os_ops :: nat

definition os_tick :: "os \<Rightarrow> os" where
  "os_tick os = os\<lparr>os_ops := Suc (os_ops os)\<rparr>"

definition os_read :: "faults \<Rightarrow> str \<Rightarrow> os \<Rightarrow> bytes option \<times> os" where
  "os_read flt path os =
     (if flt (os_ops os) = None then os_files os path else None, os_tick os)"

definition os_create_dir :: "faults \<Rightarrow> os \<Rightarrow> bool \<times> os" where
  "os_create_dir flt os = (flt (os_ops os) = None, os_tick os)"

definition os_write :: "faults \<Rightarrow> str \<Rightarrow> bytes \<Rightarrow> os \<Rightarrow> bool \<times> os" where
  "os_write flt path data os =
     (case flt (os_ops os) of
        None \<Rightarrow> (True, os_tick os\<lparr>os_files := (os_files os)(path \<mapsto> data)\<rparr>)
      | Some Refused \<Rightarrow> (False, os_tick os)
      | Some (Cut n) \<Rightarrow> (False, os_tick os\<lparr>os_files := (os_files os)(path \<mapsto> take n data)\<rparr>))"

definition os_rename :: "faults \<Rightarrow> str \<Rightarrow> str \<Rightarrow> os \<Rightarrow> bool \<times> os" where
  "os_rename flt src dst os =
     (case os_files os src of
        None \<Rightarrow> (False, os_tick os)
      | Some data \<Rightarrow>
          if flt (os_ops os) = None
          then (True, os_tick os\<lparr>os_files := (os_files os)(src := None, dst \<mapsto> data)\<rparr>)
          else (False, os_tick os))"

section \<open>The chunk cache on disk\<close>

text \<open>\<open>DiskCache\<close> is its directory; the digest is a parameter.\<close>

definition cache_new :: "(bytes \<Rightarrow> str) \<Rightarrow> str \<Rightarrow> str \<Rightarrow> str" where
  "cache_new md5_hex root url = root @ S ''/'' @ md5_hex (as_bytes url)"

definition chunk_path :: "str \<Rightarrow> nat \<Rightarrow> str" where
  "chunk_path dir idx = dir @ S ''/'' @ show_nat idx"

definition part_path :: "str \<Rightarrow> nat \<Rightarrow> str" where
  "part_path dir idx = dir @ S ''/'' @ show_nat idx @ S ''.part''"

definition cache_load :: "faults \<Rightarrow> str \<Rightarrow> nat \<Rightarrow> nat \<Rightarrow> os \<Rightarrow> bytes option \<times> os" where
  "cache_load flt dir idx expected os =
     (case os_read flt (chunk_path dir idx) os of
        (None, os) \<Rightarrow> (None, os)
      | (Some data, os) \<Rightarrow> (if length data = expected then Some data else None, os))"

definition cache_store :: "faults \<Rightarrow> str \<Rightarrow> nat \<Rightarrow> bytes \<Rightarrow> os \<Rightarrow> os" where
  "cache_store flt dir idx data os =
     (case os_create_dir flt os of
        (False, os) \<Rightarrow> os
      | (True, os) \<Rightarrow>
          (case os_write flt (part_path dir idx) data os of
             (False, os) \<Rightarrow> os
           | (True, os) \<Rightarrow> snd (os_rename flt (part_path dir idx) (chunk_path dir idx) os)))"

section \<open>The reader and its state\<close>

record remote_reader =
  rr_size :: u64
  rr_supports_range :: bool
  rr_cache :: "str option"

record ('s, 'w) remote =
  rm_chunks :: "bytes option list"
  rm_stream :: "'s option"
  rm_streamed :: nat
  rm_downloaded :: nat
  rm_net :: 'w
  rm_os :: os

definition div_ceil :: "u64 \<Rightarrow> u64 \<Rightarrow> u64" where
  "div_ceil a b = (if a mod b = 0 then a div b else a div b + 1)"

definition remote_build ::
  "('s, 'w) fetcher \<Rightarrow> str option \<Rightarrow> 'w \<Rightarrow> os \<Rightarrow> (remote_reader \<times> ('s, 'w) remote) result" where
  "remote_build fe cache w os =
     (case ft_probe fe w of
        (Inl e, w) \<Rightarrow> Err e
      | (Inr p, w) \<Rightarrow>
          if pr_size p = 0 then Err (HttpError (S ''server reported a zero-length image''))
          else Ok (\<lparr>rr_size = pr_size p, rr_supports_range = pr_supports_range p, rr_cache = cache\<rparr>,
                   \<lparr>rm_chunks = replicate (unat (div_ceil (pr_size p) CHUNK)) None, rm_stream = None,
                    rm_streamed = 0, rm_downloaded = 0, rm_net = w, rm_os = os\<rparr>))"

definition remote_open ::
  "(str \<Rightarrow> ('s, 'w) fetcher result) \<Rightarrow> (bytes \<Rightarrow> str) \<Rightarrow> str option \<Rightarrow> str \<Rightarrow> 'w \<Rightarrow> os \<Rightarrow>
   (('s, 'w) fetcher \<times> remote_reader \<times> ('s, 'w) remote) result" where
  "remote_open http_fetcher md5_hex cache_dir url w os =
     (let cache = map_option (\<lambda>root. cache_new md5_hex root url) cache_dir
      in rbind (http_fetcher url) (\<lambda>fe.
         rbind (remote_build fe cache w os) (\<lambda>(rd, st). Ok (fe, rd, st))))"

definition chunk_len :: "remote_reader \<Rightarrow> nat \<Rightarrow> nat" where
  "chunk_len rd idx = unat (min (rr_size rd - of_nat idx * CHUNK) CHUNK)"

definition remote_store ::
  "faults \<Rightarrow> remote_reader \<Rightarrow> nat \<Rightarrow> bytes \<Rightarrow> ('s, 'w) remote \<Rightarrow> ('s, 'w) remote" where
  "remote_store flt rd idx data st =
     st\<lparr>rm_os := (case rr_cache rd of
                     Some dir \<Rightarrow> cache_store flt dir idx data (rm_os st)
                   | None \<Rightarrow> rm_os st),
        rm_chunks := (rm_chunks st)[idx := Some data],
        rm_downloaded := rm_downloaded st + 1\<rparr>"

section \<open>Fetching a chunk\<close>

text \<open>\<open>read_full\<close>: a read that returns more than it was asked for would break the slice indices.\<close>

function read_full ::
  "('s, 'w) fetcher \<Rightarrow> 's \<Rightarrow> nat \<Rightarrow> bytes \<Rightarrow> 'w \<Rightarrow> bytes result option \<times> 's \<times> 'w" where
  "read_full fe s n buf w =
     (if \<not> length buf < n then (Some (Ok buf), s, w)
      else case ft_read fe s (n - length buf) w of
             (None, s', w') \<Rightarrow> (None, s', w')
           | (Some (Inl e), s', w') \<Rightarrow> (Some (Err (HttpError (S ''stream read: '' @ e))), s', w')
           | (Some (Inr bs), s', w') \<Rightarrow>
               if bs = [] then (Some (Err (HttpError (S ''stream ended before the expected length''))), s', w')
               else if n - length buf < length bs then (Some (Err Panic), s', w')
               else read_full fe s' n (buf @ bs) w')"
  by pat_completeness auto
termination
proof (relation "measure (\<lambda>(fe, s, n, buf, w). n - length buf)")
  fix fe :: "('s, 'w) fetcher" and s s' :: 's and n :: nat and buf bs :: bytes and w w' :: 'w and x y z v
  assume "\<not> \<not> length buf < n" and "bs \<noteq> []"
  then have "n - (length buf + length bs) < n - length buf" by (cases bs) auto
  then show "((fe, s', n, buf @ bs, w'), fe, s, n, buf, w) \<in> measure (\<lambda>(fe, s, n, buf, w). n - length buf)"
    by simp
qed simp

declare read_full.simps [simp del]

lemma remote_store_streamed [simp]: "rm_streamed (remote_store flt rd idx data st) = rm_streamed st"
  by (simp add: remote_store_def)

function stream_loop ::
  "('s, 'w) fetcher \<Rightarrow> faults \<Rightarrow> remote_reader \<Rightarrow> nat \<Rightarrow> ('s, 'w) remote \<Rightarrow>
   unit result option \<times> ('s, 'w) remote" where
  "stream_loop fe flt rd idx st =
     (if \<not> rm_streamed st \<le> idx then (Some (Ok ()), st)
      else case rm_stream st of
             None \<Rightarrow> (Some (Err Panic), st)
           | Some s \<Rightarrow>
               let n = rm_streamed st
               in case read_full fe s (chunk_len rd n) [] (rm_net st) of
                    (None, s', w') \<Rightarrow> (None, st\<lparr>rm_stream := Some s', rm_net := w'\<rparr>)
                  | (Some (Inl e), s', w') \<Rightarrow> (Some (Err e), st\<lparr>rm_stream := Some s', rm_net := w'\<rparr>)
                  | (Some (Inr buf), s', w') \<Rightarrow>
                      stream_loop fe flt rd idx
                        ((remote_store flt rd n buf (st\<lparr>rm_stream := Some s', rm_net := w'\<rparr>))
                           \<lparr>rm_streamed := n + 1\<rparr>))"
  by pat_completeness auto
termination
  by (relation "measure (\<lambda>(fe, flt, rd, idx, st). Suc idx - rm_streamed st)") auto

declare stream_loop.simps [simp del]

definition stream_chunk ::
  "('s, 'w) fetcher \<Rightarrow> faults \<Rightarrow> remote_reader \<Rightarrow> nat \<Rightarrow> ('s, 'w) remote \<Rightarrow>
   unit result option \<times> ('s, 'w) remote" where
  "stream_chunk fe flt rd idx st =
     (case rm_stream st of
        Some _ \<Rightarrow> stream_loop fe flt rd idx st
      | None \<Rightarrow>
          (case ft_all fe (rm_net st) of
             (Inl e, w) \<Rightarrow> (Some (Err e), st\<lparr>rm_net := w\<rparr>)
           | (Inr s, w) \<Rightarrow>
               stream_loop fe flt rd idx (st\<lparr>rm_stream := Some s, rm_streamed := 0, rm_net := w\<rparr>)))"

definition fetch_chunk ::
  "('s, 'w) fetcher \<Rightarrow> faults \<Rightarrow> remote_reader \<Rightarrow> nat \<Rightarrow> ('s, 'w) remote \<Rightarrow>
   unit result option \<times> ('s, 'w) remote" where
  "fetch_chunk fe flt rd idx st =
     (let expected = chunk_len rd idx;
          start = of_nat idx * CHUNK
      in case ft_range fe start (start + of_nat expected) (rm_net st) of
           (None, w) \<Rightarrow> (None, st\<lparr>rm_net := w\<rparr>)
         | (Some (Inl e), w) \<Rightarrow> (Some (Err e), st\<lparr>rm_net := w\<rparr>)
         | (Some (Inr data), w) \<Rightarrow>
             if length data \<noteq> expected
             then (Some (Err (HttpError (S ''short range read: wanted '' @ show_nat expected @ S '' got '' @
                                show_nat (length data)))), st\<lparr>rm_net := w\<rparr>)
             else (Some (Ok ()), remote_store flt rd idx data (st\<lparr>rm_net := w\<rparr>)))"

text \<open>What the cache on disk has, if there is one.\<close>

definition cache_hit ::
  "faults \<Rightarrow> remote_reader \<Rightarrow> nat \<Rightarrow> ('s, 'w) remote \<Rightarrow> bytes option \<times> ('s, 'w) remote" where
  "cache_hit flt rd idx st =
     (case rr_cache rd of
        None \<Rightarrow> (None, st)
      | Some dir \<Rightarrow>
          (case cache_load flt dir idx (chunk_len rd idx) (rm_os st) of
             (data, os) \<Rightarrow> (data, st\<lparr>rm_os := os\<rparr>)))"

definition ensure ::
  "('s, 'w) fetcher \<Rightarrow> faults \<Rightarrow> remote_reader \<Rightarrow> nat \<Rightarrow> ('s, 'w) remote \<Rightarrow>
   unit result option \<times> ('s, 'w) remote" where
  "ensure fe flt rd idx st =
     (case get (rm_chunks st) idx of
        None \<Rightarrow> (Some (Err Panic), st)
      | Some (Some _) \<Rightarrow> (Some (Ok ()), st)
      | Some None \<Rightarrow>
          (case cache_hit flt rd idx st of
             (Some data, st) \<Rightarrow> (Some (Ok ()), st\<lparr>rm_chunks := (rm_chunks st)[idx := Some data]\<rparr>)
           | (None, st) \<Rightarrow>
               if rr_supports_range rd then fetch_chunk fe flt rd idx st
               else stream_chunk fe flt rd idx st))"

fun ensure_all ::
  "('s, 'w) fetcher \<Rightarrow> faults \<Rightarrow> remote_reader \<Rightarrow> nat list \<Rightarrow> ('s, 'w) remote \<Rightarrow>
   unit result option \<times> ('s, 'w) remote" where
  "ensure_all fe flt rd [] st = (Some (Ok ()), st)"
| "ensure_all fe flt rd (idx # is) st =
     (case ensure fe flt rd idx st of
        (None, st) \<Rightarrow> (None, st)
      | (Some (Inl e), st) \<Rightarrow> (Some (Err e), st)
      | (Some (Inr _), st) \<Rightarrow> ensure_all fe flt rd is st)"

section \<open>Reading\<close>

text \<open>
  The copy loop. It would not end if a chunk ended exactly where the read stands, so not returning is
  the value \<open>None\<close>.
\<close>

partial_function (option) copy_loop ::
  "bytes option list \<Rightarrow> u64 \<Rightarrow> nat \<Rightarrow> bytes \<Rightarrow> bytes result option" where
  "copy_loop chunks pos n acc =
     (if \<not> length acc < n then Some (Ok acc)
      else case get chunks (unat (pos div CHUNK)) of
             None \<Rightarrow> Some (Err Panic)
           | Some None \<Rightarrow> Some (Err Panic)
           | Some (Some chunk) \<Rightarrow>
               let within = unat (pos mod CHUNK)
               in if length chunk < within then Some (Err Panic)
                  else
                    let k = min (length chunk - within) (n - length acc)
                    in copy_loop chunks (pos + of_nat k) n (acc @ take k (drop within chunk)))"

definition remote_read_at ::
  "('s, 'w) fetcher \<Rightarrow> faults \<Rightarrow> remote_reader \<Rightarrow> u64 \<Rightarrow> nat \<Rightarrow> ('s, 'w) remote \<Rightarrow>
   bytes result option \<times> ('s, 'w) remote" where
  "remote_read_at fe flt rd off n st =
     (case check_bounds (rr_size rd) off n of
        Inl e \<Rightarrow> (Some (Err e), st)
      | Inr _ \<Rightarrow>
          if n = 0 then (Some (Ok []), st)
          else
            let first = unat (off div CHUNK);
                final = unat ((off + of_nat n - 1) div CHUNK)
            in case ensure_all fe flt rd [first..<Suc final] st of
                 (None, st) \<Rightarrow> (None, st)
               | (Some (Inl e), st) \<Rightarrow> (Some (Err e), st)
               | (Some (Inr _), st) \<Rightarrow> (copy_loop (rm_chunks st) off n [], st))"

text \<open>A run of reads, each on the state the one before left.\<close>

fun remote_run ::
  "('s, 'w) fetcher \<Rightarrow> faults \<Rightarrow> remote_reader \<Rightarrow> (u64 \<times> nat) list \<Rightarrow> ('s, 'w) remote \<Rightarrow>
   bytes result option list \<times> ('s, 'w) remote" where
  "remote_run fe flt rd [] st = ([], st)"
| "remote_run fe flt rd ((off, n) # reqs) st =
     (case remote_read_at fe flt rd off n st of
        (r, st) \<Rightarrow> (case remote_run fe flt rd reqs st of (rs, st) \<Rightarrow> (r # rs, st)))"

section \<open>Chunks of a content\<close>

lemma unat_CHUNK [simp]: "unat CHUNK = 4194304"
  by (simp add: CHUNK_def)

definition nchunks :: "remote_reader \<Rightarrow> nat" where
  "nchunks rd = unat (div_ceil (rr_size rd) CHUNK)"

lemma div_ceil_less: "i < unat (div_ceil a CHUNK) \<longleftrightarrow> i * 4194304 < unat a"
proof -
  have a: "unat a < 2 ^ 64" by (rule unat_u64_lt)
  have m: "a mod CHUNK = 0 \<longleftrightarrow> unat a mod 4194304 = 0"
    by (simp add: word_unat_eq_iff unat_mod)
  have "unat (a div CHUNK + 1) = unat (a div CHUNK) + 1"
    using unat_plus [of "a div CHUNK" 1] a by (simp add: unat_div)
  then have e: "unat (div_ceil a CHUNK) = unat a div 4194304 + (if unat a mod 4194304 = 0 then 0 else 1)"
    by (simp add: div_ceil_def m unat_div)
  define q r where "q = unat a div 4194304" and "r = unat a mod 4194304"
  have "unat a = q * 4194304 + r" "r < 4194304" by (simp_all add: q_def r_def)
  then show ?thesis unfolding e q_def [symmetric] r_def [symmetric] by (cases "r = 0") auto
qed

lemma nchunks_iff: "i < nchunks rd \<longleftrightarrow> i * 4194304 < unat (rr_size rd)"
  by (simp add: nchunks_def div_ceil_less)

lemma unat_chunk_start: "i < nchunks rd \<Longrightarrow> unat (of_nat i * CHUNK) = i * 4194304"
  using unat_u64_lt [of "rr_size rd"]
  by (simp add: nchunks_iff unat_word_ariths unat_of_nat)

lemma chunk_len_eq: "i < nchunks rd \<Longrightarrow> chunk_len rd i = min (unat (rr_size rd) - i * 4194304) 4194304"
proof -
  assume i: "i < nchunks rd"
  then have "of_nat i * CHUNK \<le> rr_size rd"
    by (simp add: word_le_nat_alt unat_chunk_start) (simp add: nchunks_iff)
  then have "unat (rr_size rd - of_nat i * CHUNK) = unat (rr_size rd) - i * 4194304"
    by (simp only: unat_sub unat_chunk_start [OF i])
  then show ?thesis by (simp add: chunk_len_def min_def word_le_nat_alt)
qed

lemma chunk_len_bound: "i < nchunks rd \<Longrightarrow> i * 4194304 + chunk_len rd i \<le> unat (rr_size rd)"
  by (simp add: chunk_len_eq nchunks_iff)

lemma chunk_len_pos: "i < nchunks rd \<Longrightarrow> 0 < chunk_len rd i"
  by (simp add: chunk_len_eq nchunks_iff)

definition chunk_content :: "(nat \<Rightarrow> u8) \<Rightarrow> remote_reader \<Rightarrow> nat \<Rightarrow> bytes" where
  "chunk_content f rd i = segment f (i * 4194304) (chunk_len rd i)"

lemma length_chunk_content [simp]: "length (chunk_content f rd i) = chunk_len rd i"
  by (simp add: chunk_content_def)

section \<open>The copy\<close>

lemma copy_loop_step:
  assumes "length acc < n" and "get chunks i = Some (Some chunk)" and "w < length chunk"
    and "unat (pos div CHUNK) = i" and "unat (pos mod CHUNK) = w"
    and "k = min (length chunk - w) (n - length acc)"
  shows "copy_loop chunks pos n acc = copy_loop chunks (pos + of_nat k) n (acc @ take k (drop w chunk))"
proof -
  have "\<not> length chunk < w" using assms(3) by simp
  then show ?thesis by (subst copy_loop.simps) (simp add: assms Let_def del: get_Some)
qed

lemma copy_loop_content:
  assumes fits: "unat off + n \<le> unat (rr_size rd)"
    and chunks: "\<forall>i. unat off div 4194304 \<le> i \<and> i \<le> (unat off + n - 1) div 4194304 \<longrightarrow>
      get chunks i = Some (Some (chunk_content f rd i))"
  shows "length acc \<le> n \<Longrightarrow> acc = segment f (unat off) (length acc) \<Longrightarrow>
    copy_loop chunks (off + of_nat (length acc)) n acc = Some (Ok (segment f (unat off) n))"
proof (induction "n - length acc" arbitrary: acc rule: less_induct)
  case less
  show ?case
  proof (cases "length acc < n")
    case False
    with less.prems show ?thesis by (subst copy_loop.simps) simp
  next
    case True
    let ?P = "unat off + length acc"
    let ?i = "?P div 4194304"
    let ?w = "?P mod 4194304"
    let ?k = "min (chunk_len rd ?i - ?w) (n - length acc)"
    have P: "unat (off + of_nat (length acc)) = ?P"
      by (rule unat_add_nat) (use True fits unat_u64_lt [of "rr_size rd"] in linarith)
    have Pw: "?P = ?i * 4194304 + ?w" by simp
    have i: "?i < nchunks rd" unfolding nchunks_iff using True fits Pw by linarith
    have "?w < unat (rr_size rd) - ?i * 4194304" using True fits Pw by linarith
    then have w: "?w < chunk_len rd ?i" unfolding chunk_len_eq [OF i] by simp
    have "?i \<le> (unat off + n - 1) div 4194304" using True by (intro div_le_mono) simp
    moreover have "unat off div 4194304 \<le> ?i" by (intro div_le_mono) simp
    ultimately have c: "get chunks ?i = Some (Some (chunk_content f rd ?i))" using chunks by blast
    have piece: "take ?k (drop ?w (chunk_content f rd ?i)) = segment f ?P ?k"
      unfolding chunk_content_def drop_segment
      using Pw by (simp add: take_segment add.commute mult.commute)
    let ?acc = "acc @ segment f ?P ?k"
    have pos: "0 < ?k" using w True by simp
    have "copy_loop chunks (off + of_nat (length ?acc)) n ?acc = Some (Ok (segment f (unat off) n))"
    proof (rule less.hyps)
      show "n - length ?acc < n - length acc" using pos True by simp
      show "length ?acc \<le> n" using True by simp
      show "?acc = segment f (unat off) (length ?acc)"
        using less.prems(2) by (simp add: segment_append)
    qed
    moreover have "copy_loop chunks (off + of_nat (length acc)) n acc =
        copy_loop chunks (off + of_nat (length acc) + of_nat ?k) n
          (acc @ take ?k (drop ?w (chunk_content f rd ?i)))"
      by (rule copy_loop_step [OF True c]) (use w in \<open>simp_all only: unat_div unat_mod P unat_CHUNK length_chunk_content\<close>)
    ultimately show ?thesis unfolding piece by (simp add: add.assoc)
  qed
qed

section \<open>What a fetcher promises\<close>

text \<open>
  A fetcher of the content \<open>f\<close> of size \<open>sz\<close>. A ranged request returns, and if it succeeds with bytes of the
  content from the start of the range (perhaps not all of them). A stream starts at 0; where it
  stands at a position, a read returns, with an error or with the next bytes, and bytes move it. Where a
  stream stands after a failed read, or after one that returned nothing, is not promised: it may
  be at its end, carry on or deliver anything.
\<close>

locale remote_source =
  fixes fe :: "('s, 'w) fetcher"
    and f :: "nat \<Rightarrow> u8"
    and sz :: u64
    and ranges :: bool
    and stands :: "'s \<Rightarrow> nat \<Rightarrow> bool"
  assumes range_sound: "ranges \<Longrightarrow> unat a \<le> unat b \<Longrightarrow> unat b \<le> unat sz \<Longrightarrow>
      ft_range fe a b w = (r, w') \<Longrightarrow>
      r \<noteq> None \<and> r \<noteq> Some (Err Panic) \<and> (\<forall>bs. r = Some (Ok bs) \<longrightarrow> bs = segment f (unat a) (length bs))"
    and all_sound: "ft_all fe w = (q, w') \<Longrightarrow> q \<noteq> Err Panic \<and> (\<forall>s. q = Ok s \<longrightarrow> stands s 0)"
    and stream_sound: "stands s p \<Longrightarrow> 0 < n \<Longrightarrow> ft_read fe s n w = (x, s', w') \<Longrightarrow>
      x \<noteq> None \<and> (\<forall>bs. x = Some (Inr bs) \<longrightarrow>
        length bs \<le> n \<and> bs = segment f p (length bs) \<and> (bs \<noteq> [] \<longrightarrow> stands s' (p + length bs)))"
begin

lemma read_full_stands:
  assumes "read_full fe s n buf w = (r, s', w')" and "stands s (p + length buf)"
    and "buf = segment f p (length buf)" and "length buf \<le> n"
  shows "(r = Some (Ok (segment f p n)) \<and> stands s' (p + n)) \<or> (\<exists>e. r = Some (Err e) \<and> e \<noteq> Panic)"
  using assms
proof (induction "n - length buf" arbitrary: s buf w rule: less_induct)
  case less
  show ?case
  proof (cases "length buf < n")
    case False
    with less.prems show ?thesis by (subst (asm) read_full.simps) auto
  next
    case True
    obtain x s1 w1 where x: "ft_read fe s (n - length buf) w = (x, s1, w1)" by (metis prod_cases3)
    from stream_sound [OF less.prems(2) _ x] True have ret: "x \<noteq> None"
      and b: "\<And>bs. x = Some (Inr bs) \<Longrightarrow> length bs \<le> n - length buf \<and>
        bs = segment f (p + length buf) (length bs) \<and> (bs \<noteq> [] \<longrightarrow> stands s1 (p + length buf + length bs))"
      by auto
    show ?thesis
    proof (cases "\<exists>bs. x = Some (Inr bs) \<and> bs \<noteq> []")
      case False
      with less.prems(1) True x ret show ?thesis
        by (subst (asm) read_full.simps) (auto split: option.splits sum.splits)
    next
      case more: True
      then obtain bs where bs: "x = Some (Inr bs)" "bs \<noteq> []" by blast
      note b = b [OF bs(1)]
      have step: "read_full fe s1 n (buf @ bs) w1 = (r, s', w')"
        using less.prems(1) True x bs b by (subst (asm) read_full.simps) (simp add: not_less)
      show ?thesis
      proof (rule less.hyps [OF _ step])
        show "n - length (buf @ bs) < n - length buf" using bs(2) True by (cases bs) auto
        show "stands s1 (p + length (buf @ bs))" using b bs(2) by (simp add: add.assoc)
        have "bs = segment f (p + length buf) (length bs)" using b by blast
        then show "buf @ bs = segment f p (length (buf @ bs))"
          using less.prems(3) by (metis length_append segment_append)
        show "length (buf @ bs) \<le> n" using b [THEN conjunct1] True by simp
      qed
    qed
  qed
qed

end

section \<open>The invariant\<close>

text \<open>
  Every chunk in memory, and every complete chunk in the cache directory, is that chunk of the content;
  and of a server without ranges, an open stream stands after the chunks streamed so far, all of which
  are in memory.
\<close>

definition chunks_ok :: "(nat \<Rightarrow> u8) \<Rightarrow> remote_reader \<Rightarrow> bytes option list \<Rightarrow> bool" where
  "chunks_ok f rd chunks \<longleftrightarrow> length chunks = nchunks rd \<and>
     (\<forall>i < nchunks rd. \<forall>c. chunks ! i = Some c \<longrightarrow> c = chunk_content f rd i)"

definition cache_ok :: "(nat \<Rightarrow> u8) \<Rightarrow> remote_reader \<Rightarrow> os \<Rightarrow> bool" where
  "cache_ok f rd os \<longleftrightarrow>
     (\<forall>dir i c. rr_cache rd = Some dir \<longrightarrow> i < nchunks rd \<longrightarrow> os_files os (chunk_path dir i) = Some c \<longrightarrow>
        length c = chunk_len rd i \<longrightarrow> c = chunk_content f rd i)"

definition stream_ok :: "('s \<Rightarrow> nat \<Rightarrow> bool) \<Rightarrow> remote_reader \<Rightarrow> ('s, 'w) remote \<Rightarrow> bool" where
  "stream_ok stands rd st \<longleftrightarrow>
     rm_streamed st \<le> nchunks rd \<and> (\<forall>j < rm_streamed st. rm_chunks st ! j \<noteq> None) \<and>
     (\<forall>s. rm_stream st = Some s \<longrightarrow>
        stands s (min (rm_streamed st * 4194304) (unat (rr_size rd))))"

definition remote_inv ::
  "('s \<Rightarrow> nat \<Rightarrow> bool) \<Rightarrow> (nat \<Rightarrow> u8) \<Rightarrow> remote_reader \<Rightarrow> ('s, 'w) remote \<Rightarrow> bool" where
  "remote_inv stands f rd st \<longleftrightarrow>
     chunks_ok f rd (rm_chunks st) \<and> cache_ok f rd (rm_os st) \<and>
     (rr_supports_range rd \<or> stream_ok stands rd st)"

text \<open>Chunks are never dropped.\<close>

definition keeps :: "('s, 'w) remote \<Rightarrow> ('s, 'w) remote \<Rightarrow> bool" where
  "keeps st st' \<longleftrightarrow> (\<forall>j < length (rm_chunks st). rm_chunks st ! j \<noteq> None \<longrightarrow> rm_chunks st' ! j \<noteq> None)"

lemma keeps_refl [simp]: "keeps st st"
  by (simp add: keeps_def)

lemma keeps_chunks: "rm_chunks st' = rm_chunks st \<Longrightarrow> keeps st st'"
  by (simp add: keeps_def)

lemma keeps_trans:
  "keeps st st' \<Longrightarrow> keeps st' st'' \<Longrightarrow> length (rm_chunks st') = length (rm_chunks st) \<Longrightarrow> keeps st st''"
  by (simp add: keeps_def)

section \<open>Storing\<close>

lemma show_nat_no_dot: "ch CHR ''.'' \<notin> set (show_nat i)"
  by (auto dest!: show_nat_digits simp: is_ascii_digit_def)

lemma part_path_chunk: "part_path dir i \<noteq> chunk_path dir j"
proof
  assume "part_path dir i = chunk_path dir j"
  then have "show_nat j = show_nat i @ S ''.part''" by (simp add: part_path_def chunk_path_def)
  with show_nat_no_dot [of j] show False by simp
qed

lemma chunk_path_inj: "chunk_path dir i = chunk_path dir j \<longleftrightarrow> i = j"
  by (auto simp: chunk_path_def dest: show_nat_inj)

lemma os_tick_files [simp]: "os_files (os_tick os) = os_files os"
  by (simp add: os_tick_def)

lemma cache_store_files:
  assumes "p \<noteq> part_path dir i"
  shows "os_files (cache_store flt dir i data os) p = os_files os p \<or>
    p = chunk_path dir i \<and> os_files (cache_store flt dir i data os) p = Some data"
  using assms part_path_chunk [of dir i i]
  by (auto simp: cache_store_def os_create_dir_def os_write_def os_rename_def
      split: option.split fault.split prod.split bool.split)

lemma cache_load_files: "cache_load flt dir i n os = (d, os') \<Longrightarrow> os_files os' = os_files os"
  by (auto simp: cache_load_def os_read_def split: option.splits if_splits)

lemma cache_ok_store:
  assumes "cache_ok f rd os" and "i < nchunks rd" and "rr_cache rd = Some dir"
  shows "cache_ok f rd (cache_store flt dir i (chunk_content f rd i) os)"
proof -
  have "c = chunk_content f rd j"
    if "j < nchunks rd" "os_files (cache_store flt dir i (chunk_content f rd i) os) (chunk_path dir j) = Some c"
      "length c = chunk_len rd j" for j c
    using cache_store_files [of "chunk_path dir j" dir i flt "chunk_content f rd i" os] that assms
      part_path_chunk [of dir i j] by (auto simp: chunk_path_inj cache_ok_def)
  with assms(3) show ?thesis by (simp add: cache_ok_def)
qed

lemma remote_store_ok:
  assumes "chunks_ok f rd (rm_chunks st)" and "cache_ok f rd (rm_os st)" and "i < nchunks rd"
    and "data = chunk_content f rd i"
  shows "chunks_ok f rd (rm_chunks (remote_store flt rd i data st)) \<and>
    cache_ok f rd (rm_os (remote_store flt rd i data st)) \<and> keeps st (remote_store flt rd i data st) \<and>
    rm_chunks (remote_store flt rd i data st) ! i = Some (chunk_content f rd i)"
  using assms cache_ok_store [OF assms(2,3)]
  by (auto simp: remote_store_def chunks_ok_def keeps_def nth_list_update split: option.split)

lemma remote_store_rest [simp]:
  "rm_stream (remote_store flt rd i data st) = rm_stream st"
  "rm_chunks (remote_store flt rd i data st) = (rm_chunks st)[i := Some data]"
  by (simp_all add: remote_store_def)

section \<open>Every step keeps the invariant\<close>

lemma cache_load_Some:
  "cache_load flt dir i n os = (Some data, os') \<Longrightarrow>
   os_files os (chunk_path dir i) = Some data \<and> length data = n"
proof -
  assume load: "cache_load flt dir i n os = (Some data, os')"
  obtain x os1 where x: "os_read flt (chunk_path dir i) os = (x, os1)" by fastforce
  with load have "x = Some data" "length data = n"
    by (auto simp: cache_load_def split: option.splits if_splits)
  with x show ?thesis by (auto simp: os_read_def split: if_splits)
qed

lemma cache_hit_sound:
  assumes "cache_ok f rd (rm_os st)" and "i < nchunks rd" and "cache_hit flt rd i st = (d, st')"
  shows "(\<exists>os. st' = st\<lparr>rm_os := os\<rparr> \<and> cache_ok f rd os) \<and>
    (\<forall>data. d = Some data \<longrightarrow> data = chunk_content f rd i)"
proof (cases "rr_cache rd")
  case None
  with assms show ?thesis by (auto simp: cache_hit_def intro!: exI [of _ "rm_os st"])
next
  case (Some dir)
  obtain x os where x: "cache_load flt dir i (chunk_len rd i) (rm_os st) = (x, os)" by fastforce
  have files: "os_files os = os_files (rm_os st)" by (rule cache_load_files [OF x])
  have "data = chunk_content f rd i" if "x = Some data" for data
    using cache_load_Some [OF x [unfolded that]] assms(1,2) Some unfolding cache_ok_def by blast
  moreover have "cache_ok f rd os" using assms(1) by (simp add: cache_ok_def files)
  ultimately show ?thesis using assms(3) Some x by (auto simp: cache_hit_def)
qed

context remote_source
begin

text \<open>
  A step returns and does not panic, and it keeps the invariant; of a stream, only if it succeeds.
\<close>

lemma stream_loop_sound:
  assumes "stream_loop fe flt rd idx st = (r, st')" and "remote_inv stands f rd st" and "\<not> rr_supports_range rd"
    and "rr_size rd = sz" and "idx < nchunks rd" and "rm_stream st \<noteq> None"
  shows "keeps st st' \<and> r \<noteq> None \<and> r \<noteq> Some (Err Panic) \<and>
    (r = Some (Ok ()) \<longrightarrow> remote_inv stands f rd st' \<and> idx < rm_streamed st')"
  using assms
proof (induction "Suc idx - rm_streamed st" arbitrary: st rule: less_induct)
  case less
  note inv = less.prems(2)
  show ?case
  proof (cases "rm_streamed st \<le> idx")
    case False
    then have "stream_loop fe flt rd idx st = (Some (Ok ()), st)" by (subst stream_loop.simps) simp
    with less.prems(1,2) False show ?thesis by auto
  next
    case True
    let ?n = "rm_streamed st"
    obtain s where s: "rm_stream st = Some s" using less.prems(6) by blast
    obtain x s1 w1 where x: "read_full fe s (chunk_len rd ?n) [] (rm_net st) = (x, s1, w1)" by (metis prod_cases3)
    let ?st1 = "st\<lparr>rm_stream := Some s1, rm_net := w1\<rparr>"
    have n: "?n < nchunks rd" using True less.prems(5) by simp
    from inv s less.prems(3) have "stands s (min (?n * 4194304) (unat (rr_size rd)))"
      by (simp add: remote_inv_def stream_ok_def)
    moreover have "min (?n * 4194304) (unat (rr_size rd)) = ?n * 4194304"
      using n by (simp add: nchunks_iff)
    ultimately have rd_cases: "(x = Some (Ok (chunk_content f rd ?n)) \<and> stands s1 (?n * 4194304 + chunk_len rd ?n)) \<or>
        (\<exists>e. x = Some (Err e) \<and> e \<noteq> Panic)"
      using read_full_stands [OF x, of "?n * 4194304"] by (simp add: chunk_content_def)
    show ?thesis
    proof (cases "\<exists>e. x = Some (Err e)")
      case err: True
      with rd_cases obtain e where e: "x = Some (Err e)" "e \<noteq> Panic" by auto
      have "stream_loop fe flt rd idx st = (Some (Err e), ?st1)"
        using True s x e(1) by (subst stream_loop.simps) (simp add: Let_def)
      then show ?thesis using less.prems(1) e(2) by (auto intro: keeps_chunks)
    next
      case False
      with rd_cases have b: "x = Some (Ok (chunk_content f rd ?n))" "stands s1 (?n * 4194304 + chunk_len rd ?n)" by auto
      let ?buf = "chunk_content f rd ?n"
      let ?st2 = "(remote_store flt rd ?n ?buf ?st1)\<lparr>rm_streamed := ?n + 1\<rparr>"
      have step: "stream_loop fe flt rd idx ?st2 = (r, st')"
        using less.prems(1) True s x b(1) by (subst (asm) stream_loop.simps) (simp add: Let_def)
      have stored: "chunks_ok f rd (rm_chunks ?st2)" "cache_ok f rd (rm_os ?st2)" "keeps st ?st2"
        using remote_store_ok [of f rd ?st1 ?n ?buf flt] inv n
        by (auto simp: remote_inv_def keeps_def)
      have "min ((?n + 1) * 4194304) (unat (rr_size rd)) = ?n * 4194304 + chunk_len rd ?n"
        using n by (simp add: chunk_len_eq nchunks_iff)
      with b(2) have "stands s1 (min ((?n + 1) * 4194304) (unat (rr_size rd)))" by (simp only:)
      moreover have "rm_chunks ?st2 ! j \<noteq> None" if "j < ?n + 1" for j
        using that inv n less.prems(3) by (cases "j = ?n") (simp_all add: remote_inv_def stream_ok_def chunks_ok_def)
      moreover have "rm_streamed ?st2 = ?n + 1" "rm_stream ?st2 = Some s1" by simp_all
      ultimately have "stream_ok stands rd ?st2" unfolding stream_ok_def using n by (simp only:) auto
      with stored have "remote_inv stands f rd ?st2" by (simp add: remote_inv_def)
      moreover have "Suc idx - rm_streamed ?st2 < Suc idx - rm_streamed st" using True by simp
      ultimately have "keeps ?st2 st' \<and> r \<noteq> None \<and> r \<noteq> Some (Err Panic) \<and>
          (r = Some (Ok ()) \<longrightarrow> remote_inv stands f rd st' \<and> idx < rm_streamed st')"
        using less.hyps [OF _ step] less.prems(3-5) by simp
      then show ?thesis using stored(3) by (auto intro: keeps_trans)
    qed
  qed
qed

lemma stream_chunk_sound:
  assumes "stream_chunk fe flt rd idx st = (r, st')" and inv: "remote_inv stands f rd st"
    and sr: "\<not> rr_supports_range rd" and "rr_size rd = sz" and "idx < nchunks rd"
  shows "keeps st st' \<and> r \<noteq> None \<and> r \<noteq> Some (Err Panic) \<and>
    (r = Some (Ok ()) \<longrightarrow> remote_inv stands f rd st' \<and> rm_chunks st' ! idx \<noteq> None)"
proof (cases "rm_stream st")
  case (Some s)
  with stream_loop_sound [of flt rd idx st r st'] assms show ?thesis
    by (auto simp: stream_chunk_def remote_inv_def stream_ok_def)
next
  case None
  obtain x w where x: "ft_all fe (rm_net st) = (x, w)" by fastforce
  show ?thesis
  proof (cases x)
    case (Inl e)
    with None x assms(1) have "r = Some (Err e)" "st' = st\<lparr>rm_net := w\<rparr>" by (auto simp: stream_chunk_def)
    with inv Inl all_sound [OF x] show ?thesis by (auto intro: keeps_chunks)
  next
    case (Inr s)
    let ?st1 = "st\<lparr>rm_stream := Some s, rm_streamed := 0, rm_net := w\<rparr>"
    have "stream_loop fe flt rd idx ?st1 = (r, st')" using assms(1) None x Inr by (simp add: stream_chunk_def)
    moreover have "remote_inv stands f rd ?st1"
      using inv all_sound [OF x] Inr by (simp add: remote_inv_def stream_ok_def)
    ultimately have "keeps ?st1 st' \<and> r \<noteq> None \<and> r \<noteq> Some (Err Panic) \<and>
        (r = Some (Ok ()) \<longrightarrow> remote_inv stands f rd st' \<and> idx < rm_streamed st')"
      using stream_loop_sound [of flt rd idx ?st1 r st'] assms(3-5) by simp
    then show ?thesis using sr by (auto simp: keeps_def remote_inv_def stream_ok_def)
  qed
qed

lemma fetch_chunk_sound:
  assumes "fetch_chunk fe flt rd idx st = (r, st')" and inv: "remote_inv stands f rd st"
    and sr: "rr_supports_range rd" and "rr_size rd = sz" and "ranges" and i: "idx < nchunks rd"
  shows "remote_inv stands f rd st' \<and> keeps st st' \<and> r \<noteq> None \<and> r \<noteq> Some (Err Panic) \<and>
    (r = Some (Ok ()) \<longrightarrow> rm_chunks st' ! idx \<noteq> None) \<and>
    (\<forall>j. j \<noteq> idx \<longrightarrow> rm_chunks st' ! j = rm_chunks st ! j)"
proof -
  let ?a = "of_nat idx * CHUNK :: u64"
  let ?b = "?a + of_nat (chunk_len rd idx)"
  obtain x w where x: "ft_range fe ?a ?b (rm_net st) = (x, w)" by fastforce
  have a: "unat ?a = idx * 4194304" by (rule unat_chunk_start [OF i])
  have b: "unat ?b = idx * 4194304 + chunk_len rd idx"
    using chunk_len_bound [OF i] unat_u64_lt [of "rr_size rd"] a by (subst unat_add_nat) auto
  have s: "x \<noteq> None" "x \<noteq> Some (Err Panic)"
    "\<forall>bs. x = Some (Ok bs) \<longrightarrow> bs = segment f (idx * 4194304) (length bs)"
    using range_sound [OF \<open>ranges\<close> _ _ x] a b chunk_len_bound [OF i] assms(4) by auto
  let ?st1 = "st\<lparr>rm_net := w\<rparr>"
  have inv1: "remote_inv stands f rd ?st1" using inv sr by (simp add: remote_inv_def)
  show ?thesis
  proof (cases "\<exists>data. x = Some (Ok data) \<and> length data = chunk_len rd idx")
    case False
    then have "st' = ?st1" "r \<noteq> Some (Ok ())" "r \<noteq> None" "r \<noteq> Some (Err Panic)"
      using assms(1) x s(1,2) by (auto simp: fetch_chunk_def Let_def split: sum.splits if_splits option.splits)
    with inv1 show ?thesis by (auto intro: keeps_chunks)
  next
    case True
    then obtain data where d: "x = Some (Ok data)" "length data = chunk_len rd idx" by blast
    with s(3) have "data = chunk_content f rd idx" by (simp add: chunk_content_def)
    with remote_store_ok [of f rd ?st1 idx data flt] inv1 i
    have st: "chunks_ok f rd (rm_chunks (remote_store flt rd idx data ?st1))"
      "cache_ok f rd (rm_os (remote_store flt rd idx data ?st1))" "keeps ?st1 (remote_store flt rd idx data ?st1)"
      "rm_chunks (remote_store flt rd idx data ?st1) ! idx = Some (chunk_content f rd idx)"
      by (simp_all add: remote_inv_def del: remote_store_rest)
    have "r = Some (Ok ())" "st' = remote_store flt rd idx data ?st1"
      using assms(1) x d by (simp_all add: fetch_chunk_def Let_def)
    with st sr show ?thesis by (auto simp: remote_inv_def keeps_def)
  qed
qed

end

section \<open>Reads\<close>

text \<open>What a read may answer: the bytes of the content, or an error that is no panic.\<close>

definition read_answer :: "(nat \<Rightarrow> u8) \<Rightarrow> u64 \<Rightarrow> u64 \<Rightarrow> nat \<Rightarrow> bytes result option \<Rightarrow> bool" where
  "read_answer f sz off n r \<longleftrightarrow>
     (if unat sz < unat off + n then r = Some (Err (OutOfBounds off n sz))
      else r = Some (Ok (segment f (unat off) n)) \<or> (\<exists>e. r = Some (Err e) \<and> e \<noteq> Panic))"

text \<open>
  What a run of reads may answer. With a stream (\<open>always\<close> is false), the answers are the content's as long as
  every read inside the image has returned bytes: after a failed read the stream may stand anywhere.
\<close>

fun answers_ok ::
  "(nat \<Rightarrow> u8) \<Rightarrow> u64 \<Rightarrow> bool \<Rightarrow> (u64 \<times> nat) list \<Rightarrow> bytes result option list \<Rightarrow> bool" where
  "answers_ok f sz always [] rs \<longleftrightarrow> rs = []"
| "answers_ok f sz always ((off, n) # reqs) rs \<longleftrightarrow>
     (case rs of
        [] \<Rightarrow> False
      | r # rs \<Rightarrow>
          read_answer f sz off n r \<and>
          (if always \<or> unat sz < unat off + n \<or> (\<exists>bs. r = Some (Ok bs))
           then answers_ok f sz always reqs rs
           else length rs = length reqs))"

lemma length_remote_run: "length (fst (remote_run fe flt rd reqs st)) = length reqs"
  by (induction fe flt rd reqs st rule: remote_run.induct) (auto split: prod.splits)

lemma nth_updated: "xs[i := x] ! j = (if i = j \<and> i < length xs then x else xs ! j)"
  by (cases "i < length xs") (auto simp: list_update_beyond)

context remote_source
begin

lemma ensure_sound:
  assumes "ensure fe flt rd idx st = (r, st')" and inv: "remote_inv stands f rd st"
    and "rr_size rd = sz" and "rr_supports_range rd \<longrightarrow> ranges" and i: "idx < nchunks rd"
  shows "keeps st st' \<and> r \<noteq> None \<and> r \<noteq> Some (Err Panic) \<and>
    (rr_supports_range rd \<or> r = Some (Ok ()) \<longrightarrow> remote_inv stands f rd st') \<and>
    (r = Some (Ok ()) \<longrightarrow> rm_chunks st' ! idx \<noteq> None) \<and>
    (rr_supports_range rd \<longrightarrow> (\<forall>j. j \<noteq> idx \<longrightarrow> rm_chunks st' ! j = rm_chunks st ! j))"
proof -
  from inv i have len: "idx < length (rm_chunks st)" by (simp add: remote_inv_def chunks_ok_def)
  show ?thesis
  proof (cases "rm_chunks st ! idx")
    case (Some c)
    with assms(1) len have "r = Some (Ok ())" "st' = st" by (simp_all add: ensure_def get_def)
    with inv Some show ?thesis by simp
  next
    case None
    obtain d st1 where d: "cache_hit flt rd idx st = (d, st1)" by fastforce
    from cache_hit_sound [OF _ i d] inv obtain os where os: "st1 = st\<lparr>rm_os := os\<rparr>" "cache_ok f rd os"
      and hit: "\<forall>data. d = Some data \<longrightarrow> data = chunk_content f rd idx" by (auto simp: remote_inv_def)
    have inv1: "remote_inv stands f rd st1" using inv os by (simp add: remote_inv_def stream_ok_def)
    show ?thesis
    proof (cases d)
      case (Some data)
      with assms(1) len None d have r: "r = Some (Ok ())" "st' = st1\<lparr>rm_chunks := (rm_chunks st1)[idx := Some data]\<rparr>"
        by (simp_all add: ensure_def get_def)
      have "remote_inv stands f rd st'"
        using inv1 hit Some unfolding r(2)
        by (auto simp: remote_inv_def chunks_ok_def stream_ok_def nth_updated)
      moreover have "keeps st st'" unfolding r(2) os(1) by (auto simp: keeps_def nth_updated)
      ultimately show ?thesis using r len os(1) by simp
    next
      case miss: None
      have k: "keeps st1 x \<Longrightarrow> keeps st x" "rm_chunks st1 = rm_chunks st" for x
        using os(1) by (simp_all add: keeps_def)
      show ?thesis
      proof (cases "rr_supports_range rd")
        case True
        with assms(1) len None d miss have "fetch_chunk fe flt rd idx st1 = (r, st')"
          by (simp add: ensure_def get_def)
        with fetch_chunk_sound [OF _ inv1 True assms(3) _ i] True assms(4) k show ?thesis by simp
      next
        case False
        with assms(1) len None d miss have "stream_chunk fe flt rd idx st1 = (r, st')"
          by (simp add: ensure_def get_def)
        with stream_chunk_sound [OF _ inv1 False assms(3) i] False k show ?thesis by simp
      qed
    qed
  qed
qed

lemma ensure_all_sound:
  assumes "ensure_all fe flt rd is st = (r, st')" and "remote_inv stands f rd st"
    and "rr_size rd = sz" and "rr_supports_range rd \<longrightarrow> ranges" and "\<forall>i \<in> set is. i < nchunks rd"
  shows "r \<noteq> None \<and> r \<noteq> Some (Err Panic) \<and>
    (rr_supports_range rd \<or> r = Some (Ok ()) \<longrightarrow> remote_inv stands f rd st') \<and>
    (r = Some (Ok ()) \<longrightarrow> keeps st st' \<and> (\<forall>i \<in> set is. rm_chunks st' ! i \<noteq> None)) \<and>
    (rr_supports_range rd \<longrightarrow> (\<forall>j. j \<notin> set is \<longrightarrow> rm_chunks st' ! j = rm_chunks st ! j))"
  using assms(1,2,5)
proof (induction "is" arbitrary: st)
  case (Cons i "is")
  obtain x st1 where x: "ensure fe flt rd i st = (x, st1)" by fastforce
  from Cons.prems(3) have i: "i < nchunks rd" "\<forall>i \<in> set is. i < nchunks rd" by simp_all
  note s = ensure_sound [OF x Cons.prems(2) assms(3,4) i(1)]
  then consider (err) e where "x = Some (Err e)" | (ok) "x = Some (Ok ())" by (metis (full_types) option.exhaust sum.exhaust old.unit.exhaust)
  then show ?case
  proof cases
    case err
    with Cons.prems(1) x have "r = Some (Err e)" "st' = st1" by simp_all
    with s err show ?thesis by simp
  next
    case ok
    with Cons.prems(1) x have step: "ensure_all fe flt rd is st1 = (r, st')" by simp
    from s ok have inv1: "remote_inv stands f rd st1" by blast
    note t = Cons.IH [OF step inv1 i(2)]
    have len: "length (rm_chunks st1) = nchunks rd" "length (rm_chunks st) = nchunks rd"
      using inv1 Cons.prems(2) by (simp_all add: remote_inv_def chunks_ok_def)
    with s t have k: "r = Some (Ok ()) \<longrightarrow> keeps st st'" by (auto intro: keeps_trans)
    have "rm_chunks st1 ! i \<noteq> None" using s ok by simp
    then have "r = Some (Ok ()) \<longrightarrow> rm_chunks st' ! i \<noteq> None" using t len i(1) by (simp add: keeps_def)
    with s t k show ?thesis by simp
  qed
qed auto

end

text \<open>A read inside the image, chunk by chunk.\<close>

lemma read_at_chunks:
  assumes n: "0 < n" "unat off + n \<le> unat (rr_size rd)"
  defines "is \<equiv> [unat off div 4194304..<Suc ((unat off + n - 1) div 4194304)]"
  shows "remote_read_at fe flt rd off n st =
      (case ensure_all fe flt rd is st of
         (None, st) \<Rightarrow> (None, st)
       | (Some (Inl e), st) \<Rightarrow> (Some (Err e), st)
       | (Some (Inr _), st) \<Rightarrow> (copy_loop (rm_chunks st) off n [], st))"
    and "\<forall>i \<in> set is. i < nchunks rd"
proof -
  let ?l = "(unat off + n - 1) div 4194304"
  have eq: "off + of_nat n - 1 = off + of_nat (n - 1)" using n(1) by (cases n) simp_all
  have "unat (off + of_nat (n - 1)) = unat off + (n - 1)"
    by (rule unat_add_nat) (use n unat_u64_lt [of "rr_size rd"] in linarith)
  then have l: "unat (off + of_nat n - 1) = unat off + n - 1" unfolding eq using n(1) by simp
  show "remote_read_at fe flt rd off n st =
      (case ensure_all fe flt rd is st of
         (None, st) \<Rightarrow> (None, st)
       | (Some (Inl e), st) \<Rightarrow> (Some (Err e), st)
       | (Some (Inr _), st) \<Rightarrow> (copy_loop (rm_chunks st) off n [], st))"
    using n by (simp add: is_def remote_read_at_def check_bounds_if Let_def unat_div l del: upt_Suc)
  show "\<forall>i \<in> set is. i < nchunks rd"
  proof
    fix i assume "i \<in> set is"
    then have "i \<le> ?l" by (auto simp: is_def)
    then have "i * 4194304 \<le> unat off + n - 1" by (metis div_times_less_eq_dividend mult_le_mono1 order_trans)
    with n show "i < nchunks rd" by (simp add: nchunks_iff)
  qed
qed

context remote_source
begin

lemma read_at_inside:
  assumes "remote_read_at fe flt rd off n st = (r, st')" and inv: "remote_inv stands f rd st"
    and sz: "rr_size rd = sz" and "rr_supports_range rd \<longrightarrow> ranges" and n: "0 < n" "unat off + n \<le> unat sz"
  obtains "is" x where "is = [unat off div 4194304..<Suc ((unat off + n - 1) div 4194304)]"
    and "\<forall>i \<in> set is. i < nchunks rd" and "ensure_all fe flt rd is st = (Some x, st')"
    and "r = Some (case x of Inl e \<Rightarrow> Err e | Inr _ \<Rightarrow> Ok (segment f (unat off) n))"
proof -
  let ?l = "(unat off + n - 1) div 4194304"
  let ?is = "[unat off div 4194304..<Suc ?l]"
  note chunks = read_at_chunks(1) [OF n(1) n(2) [folded sz], where fe = fe and flt = flt and st = st]
    read_at_chunks(2) [OF n(1) n(2) [folded sz]]
  obtain y st1 where y: "ensure_all fe flt rd ?is st = (y, st1)" by fastforce
  note s = ensure_all_sound [OF y inv sz assms(4) chunks(2)]
  then obtain x where x: "y = Some x" by blast
  have "r = Some (case x of Inl e \<Rightarrow> Err e | Inr _ \<Rightarrow> Ok (segment f (unat off) n))"
  proof (cases x)
    case (Inl e)
    with chunks(1) y x assms(1) show ?thesis by (simp del: upt_Suc)
  next
    case (Inr u)
    have "get (rm_chunks st1) i = Some (Some (chunk_content f rd i))"
      if "unat off div 4194304 \<le> i" "i \<le> ?l" for i
    proof -
      from that have i: "i \<in> set ?is" by (simp del: upt_Suc)
      have ok: "y = Some (Ok ())" using x Inr by simp
      with s i have "rm_chunks st1 ! i \<noteq> None" by blast
      moreover have "i < nchunks rd" using chunks(2) i by blast
      moreover have "chunks_ok f rd (rm_chunks st1)" using s ok unfolding remote_inv_def by blast
      ultimately show ?thesis by (auto simp: chunks_ok_def)
    qed
    then have "copy_loop (rm_chunks st1) (off + of_nat (length ([] :: bytes))) n [] =
        Some (Ok (segment f (unat off) n))"
      using n sz by (intro copy_loop_content) auto
    with chunks(1) y x assms(1) Inr show ?thesis by (simp del: upt_Suc)
  qed
  moreover have "st' = st1" using chunks(1) y x assms(1) by (simp del: upt_Suc split: sum.splits)
  ultimately show thesis using that [OF refl chunks(2)] x y by simp
qed

lemma read_at_sound:
  assumes "remote_read_at fe flt rd off n st = (r, st')" and inv: "remote_inv stands f rd st"
    and sz: "rr_size rd = sz" and "rr_supports_range rd \<longrightarrow> ranges"
  shows "read_answer f sz off n r \<and>
    (rr_supports_range rd \<or> unat sz < unat off + n \<or> (\<exists>bs. r = Some (Ok bs)) \<longrightarrow> remote_inv stands f rd st') \<and>
    (rr_supports_range rd \<longrightarrow>
      (\<forall>j. j < unat off div 4194304 \<or> (unat off + n - 1) div 4194304 < j \<longrightarrow>
         rm_chunks st' ! j = rm_chunks st ! j))"
proof (cases "unat sz < unat off + n \<or> n = 0")
  case True
  with assms(1) have "st' = st"
    "r = (if unat sz < unat off + n then Some (Err (OutOfBounds off n sz)) else Some (Ok []))"
    by (cases "unat sz < unat off + n"; simp add: remote_read_at_def check_bounds_if sz not_less)+
  with inv True show ?thesis by (auto simp: read_answer_def)
next
  case False
  then have n: "0 < n" "unat off + n \<le> unat sz" by auto
  obtain "is" x where i: "is = [unat off div 4194304..<Suc ((unat off + n - 1) div 4194304)]"
    and bound: "\<forall>i \<in> set is. i < nchunks rd" and x: "ensure_all fe flt rd is st = (Some x, st')"
    and r: "r = Some (case x of Inl e \<Rightarrow> Err e | Inr _ \<Rightarrow> Ok (segment f (unat off) n))"
    by (rule read_at_inside [OF assms n])
  note s = ensure_all_sound [OF x inv sz assms(4) bound]
  have "read_answer f sz off n r" using s n unfolding r by (cases x) (auto simp: read_answer_def)
  moreover have "remote_inv stands f rd st'"
    if "rr_supports_range rd \<or> unat sz < unat off + n \<or> (\<exists>bs. r = Some (Ok bs))"
    using that s n(2) unfolding r by (cases x) auto
  moreover have "j \<notin> set is" if "j < unat off div 4194304 \<or> (unat off + n - 1) div 4194304 < j" for j
    using that unfolding i by auto
  ultimately show ?thesis using s by blast
qed

lemma run_sound:
  "remote_inv stands f rd st \<Longrightarrow> rr_size rd = sz \<Longrightarrow> rr_supports_range rd \<longrightarrow> ranges \<Longrightarrow>
   answers_ok f sz (rr_supports_range rd) reqs (fst (remote_run fe flt rd reqs st))"
proof (induction reqs arbitrary: st)
  case (Cons q reqs)
  obtain off n where q: "q = (off, n)" by fastforce
  obtain r st1 where r: "remote_read_at fe flt rd off n st = (r, st1)" by fastforce
  note s = read_at_sound [OF r Cons.prems]
  have "fst (remote_run fe flt rd (q # reqs) st) = r # fst (remote_run fe flt rd reqs st1)"
    using q r by (simp split: prod.split)
  moreover have "answers_ok f sz (rr_supports_range rd) reqs (fst (remote_run fe flt rd reqs st1))"
    if "rr_supports_range rd \<or> unat sz < unat off + n \<or> (\<exists>bs. r = Some (Ok bs))"
    using that s by (intro Cons.IH [OF _ Cons.prems(2,3)]) blast
  ultimately show ?case using s q by (auto simp: length_remote_run)
qed simp

end

definition answers_in_full :: "('s, 'w) fetcher \<Rightarrow> (nat \<Rightarrow> u8) \<Rightarrow> u64 \<Rightarrow> bool" where
  "answers_in_full fe f sz \<longleftrightarrow>
     (\<forall>a b w. unat a \<le> unat b \<and> unat b \<le> unat sz \<longrightarrow>
        (\<exists>w'. ft_range fe a b w = (Some (Ok (segment f (unat a) (unat b - unat a))), w')))"

context remote_source
begin

text \<open>With requests answered in full nothing fails.\<close>

lemma ensure_full:
  assumes "remote_inv stands f rd st" and sz: "rr_size rd = sz" and sr: "rr_supports_range rd"
    and i: "idx < nchunks rd" and full: "answers_in_full fe f sz"
  shows "\<exists>st'. ensure fe flt rd idx st = (Some (Ok ()), st')"
proof -
  let ?a = "of_nat idx * CHUNK :: u64"
  have a: "unat ?a = idx * 4194304" by (rule unat_chunk_start [OF i])
  have b: "unat (?a + of_nat (chunk_len rd idx)) = unat ?a + chunk_len rd idx"
    using chunk_len_bound [OF i] unat_u64_lt [of "rr_size rd"] a by (subst unat_add_nat) auto
  have "fst (fetch_chunk fe flt rd idx st1) = Some (Ok ())" for st1
  proof -
    have "unat (?a + of_nat (chunk_len rd idx)) \<le> unat sz" using chunk_len_bound [OF i] a b sz by simp
    then obtain w' where "ft_range fe ?a (?a + of_nat (chunk_len rd idx)) (rm_net st1) =
        (Some (Ok (segment f (unat ?a) (unat (?a + of_nat (chunk_len rd idx)) - unat ?a))), w')"
      using full b unfolding answers_in_full_def by (metis le_add1)
    with b have "ft_range fe ?a (?a + of_nat (chunk_len rd idx)) (rm_net st1) =
        (Some (Ok (segment f (unat ?a) (chunk_len rd idx))), w')" by simp
    then show ?thesis by (simp add: fetch_chunk_def Let_def)
  qed
  then have fetch: "\<exists>st'. fetch_chunk fe flt rd idx st1 = (Some (Ok ()), st')" for st1
    by (metis prod.collapse)
  have "idx < length (rm_chunks st)" using assms(1) i by (simp add: remote_inv_def chunks_ok_def)
  with sr fetch show ?thesis
    by (auto simp: ensure_def get_def split: option.split prod.split)
qed

lemma ensure_all_full:
  assumes "remote_inv stands f rd st" and "rr_size rd = sz" and "rr_supports_range rd" and "ranges"
    and "\<forall>i \<in> set is. i < nchunks rd"
    and "answers_in_full fe f sz"
  shows "\<exists>st'. ensure_all fe flt rd is st = (Some (Ok ()), st')"
  using assms(1,5)
proof (induction "is" arbitrary: st)
  case (Cons i "is")
  from Cons.prems(2) have i: "i < nchunks rd" "\<forall>i \<in> set is. i < nchunks rd" by simp_all
  from ensure_full [OF Cons.prems(1) assms(2,3) i(1) assms(6)] obtain st1
    where e: "ensure fe flt rd i st = (Some (Ok ()), st1)" by blast
  from ensure_sound [OF e Cons.prems(1) assms(2) _ i(1)] assms(3,4)
  have "remote_inv stands f rd st1" by blast
  from Cons.IH [OF this i(2)] e show ?case by auto
qed simp

lemma read_at_full:
  assumes "remote_inv stands f rd st" and "rr_size rd = sz" and "rr_supports_range rd" and "ranges"
    and "answers_in_full fe f sz"
    and "unat off + n \<le> unat sz"
  shows "\<exists>st'. remote_read_at fe flt rd off n st = (Some (Ok (segment f (unat off) n)), st')"
proof (cases "n = 0")
  case True
  with assms(2,6) show ?thesis by (simp add: remote_read_at_def check_bounds_if)
next
  case False
  obtain r st' where r: "remote_read_at fe flt rd off n st = (r, st')" by fastforce
  have "rr_supports_range rd \<longrightarrow> ranges" "0 < n" using assms(4) False by auto
  note facts = this
  obtain "is" x where "is = [unat off div 4194304..<Suc ((unat off + n - 1) div 4194304)]"
    and bound: "\<forall>i \<in> set is. i < nchunks rd" and x: "ensure_all fe flt rd is st = (Some x, st')"
    and ans: "r = Some (case x of Inl e \<Rightarrow> Err e | Inr _ \<Rightarrow> Ok (segment f (unat off) n))"
    by (rule read_at_inside [OF r assms(1,2) facts assms(6)])
  from ensure_all_full [OF assms(1-4) bound assms(5), where flt = flt] x have "x = Ok ()" by auto
  with r ans show ?thesis by simp
qed

end

section \<open>The fetcher of the tests\<close>

text \<open>\<open>FakeFetcher\<close>: a blob in memory; the world is the number of bytes fetched.\<close>

definition fake_fetcher :: "bytes \<Rightarrow> bool \<Rightarrow> (nat, nat) fetcher" where
  "fake_fetcher data supports_range =
     \<lparr>ft_probe = (\<lambda>w. (Ok \<lparr>pr_size = file_len data, pr_supports_range = supports_range\<rparr>, w)),
      ft_range = (\<lambda>a b w.
        if \<not> supports_range then (Some (Err Panic), w)
        else if unat b < unat a \<or> length data < unat b then (Some (Err Panic), w + unat (b - a))
        else (Some (Ok (take (unat b - unat a) (drop (unat a) data))), w + unat (b - a))),
      ft_all = (\<lambda>w. (Ok 0, w)),
      ft_read = (\<lambda>pos n w.
        let bs = take n (drop pos data) in (Some (Inr bs), pos + length bs, w + length bs))\<rparr>"

interpretation fake: remote_source "fake_fetcher data sr" "(!) data" "file_len data" sr
  "\<lambda>s p. s = p \<and> p \<le> length data" for data sr
proof
  fix a b :: u64 and w w' :: nat and r
  assume "sr" "unat a \<le> unat b" "unat b \<le> unat (file_len data)" "ft_range (fake_fetcher data sr) a b w = (r, w')"
  moreover have "unat (file_len data) \<le> length data" by (simp add: file_len_def unat_of_nat)
  ultimately show "r \<noteq> None \<and> r \<noteq> Some (Err Panic) \<and>
      (\<forall>bs. r = Some (Ok bs) \<longrightarrow> bs = segment ((!) data) (unat a) (length bs))"
    by (auto simp: fake_fetcher_def segment_list)
next
  fix s p n w s' w' :: nat and x
  assume s: "s = p \<and> p \<le> length data" and "0 < n"
    and r: "ft_read (fake_fetcher data sr) s n w = (x, s', w')"
  have "x = Some (Inr (take n (drop p data)))" "s' = p + length (take n (drop p data))"
    using s r by (auto simp: fake_fetcher_def Let_def)
  with s show "x \<noteq> None \<and> (\<forall>bs. x = Some (Inr bs) \<longrightarrow> length bs \<le> n \<and>
      bs = segment ((!) data) p (length bs) \<and> (bs \<noteq> [] \<longrightarrow> s' = p + length bs \<and> p + length bs \<le> length data))"
    by (auto simp: segment_list min_def)
qed (auto simp: fake_fetcher_def Let_def)

section \<open>Properties\<close>

lemma build_inv:
  assumes "remote_build fe cache w os = Ok (rd, st)" and "cache_ok f rd os"
  shows "remote_inv stands f rd st"
proof -
  obtain p w' where p: "ft_probe fe w = (Ok p, w')" "pr_size p \<noteq> 0"
    using assms(1) by (auto simp: remote_build_def split: prod.splits sum.splits if_splits)
  with assms have "rm_chunks st = replicate (nchunks rd) None" "rm_streamed st = 0" "rm_stream st = None" "rm_os st = os"
    by (auto simp: remote_build_def nchunks_def)
  with assms(2) show ?thesis by (simp add: remote_inv_def chunks_ok_def stream_ok_def)
qed

text \<open>
  C30: a remote image reads as the file it is. Over any fetcher of a content, with or without a cache
  directory, whatever file operations of the cache fail, and for every run of reads: a read outside the
  image is refused, any other returns exactly the bytes of the content or the error of a failed
  request; it returns, and does not panic. With ranged requests this holds of every read; with a stream
  it holds up to and with the first read that fails, since where a stream stands after a failed read is
  not promised (C33 shows what comes of it).
\<close>

theorem remote_reads_content:
  assumes "remote_source fe f (rr_size rd) ranges stands"
    and "remote_build fe cache w os = Ok (rd, st)" and "rr_supports_range rd \<longrightarrow> ranges"
    and "cache_ok f rd os"
  shows "answers_ok f (rr_size rd) (rr_supports_range rd) reqs (fst (remote_run fe flt rd reqs st))"
  by (rule remote_source.run_sound [OF assms(1) build_inv [OF assms(2,4)] refl assms(3)])

definition fake_reader :: "bytes \<Rightarrow> bool \<Rightarrow> remote_reader" where
  "fake_reader data sr = \<lparr>rr_size = file_len data, rr_supports_range = sr, rr_cache = None\<rparr>"

definition fake_state :: "bytes \<Rightarrow> os \<Rightarrow> (nat, nat) remote" where
  "fake_state data os =
     \<lparr>rm_chunks = replicate (unat (div_ceil (file_len data) CHUNK)) None, rm_stream = None,
      rm_streamed = 0, rm_downloaded = 0, rm_net = 0, rm_os = os\<rparr>"

lemma fake_build:
  "file_len data \<noteq> 0 \<Longrightarrow>
   remote_build (fake_fetcher data sr) None 0 os = Ok (fake_reader data sr, fake_state data os)"
  by (simp add: remote_build_def fake_fetcher_def fake_reader_def fake_state_def)

lemma remote_reads_content_witness:
  "answers_ok ((!) [1, 2, 3]) 3 False [(1, 2), (0, 1)]
     (fst (remote_run (fake_fetcher [1, 2, 3] False) (\<lambda>_. None) (fake_reader [1, 2, 3] False) [(1, 2), (0, 1)]
        (fake_state [1, 2, 3] \<lparr>os_files = Map.empty, os_ops = 0\<rparr>)))"
proof -
  have sz: "file_len [1, 2, 3] = 3" by (simp add: file_len_def)
  then have "remote_build (fake_fetcher [1, 2, 3] False) None 0 \<lparr>os_files = Map.empty, os_ops = 0\<rparr> =
      Ok (fake_reader [1, 2, 3] False, fake_state [1, 2, 3] \<lparr>os_files = Map.empty, os_ops = 0\<rparr>)"
    by (intro fake_build) simp
  moreover have "remote_source (fake_fetcher [1, 2, 3] False) ((!) [1, 2, 3]) (rr_size (fake_reader [1, 2, 3] False)) False
      (\<lambda>s p. s = p \<and> p \<le> length [1, 2, 3 :: u8])"
    unfolding fake_reader_def remote_reader.simps by (rule fake.remote_source_axioms)
  ultimately have "answers_ok ((!) [1, 2, 3]) (rr_size (fake_reader [1, 2, 3] False))
     (rr_supports_range (fake_reader [1, 2, 3] False)) [(1, 2), (0, 1)]
     (fst (remote_run (fake_fetcher [1, 2, 3] False) (\<lambda>_. None) (fake_reader [1, 2, 3] False) [(1, 2), (0, 1)]
        (fake_state [1, 2, 3] \<lparr>os_files = Map.empty, os_ops = 0\<rparr>)))"
    by (intro remote_reads_content) (auto simp: fake_reader_def cache_ok_def)
  then show ?thesis unfolding fake_reader_def remote_reader.simps sz .
qed

text \<open>
  C31: the cache on disk is atomic. Storing a chunk, with any of its file operations failing at any point,
  even in the middle of a write, leaves under each chunk's name either what was there or, for the
  chunk stored, all of its data: a partial download never looks complete.
\<close>

theorem cache_store_atomic:
  "os_files (cache_store flt dir i data os) (chunk_path dir j) = os_files os (chunk_path dir j) \<or>
   i = j \<and> os_files (cache_store flt dir i data os) (chunk_path dir j) = Some data"
  using cache_store_files [of "chunk_path dir j" dir i flt data os] part_path_chunk [of dir i j]
  by (auto simp: chunk_path_inj)

text \<open>
  C32: ranged reads are lazy and complete. When the server honours ranges and every request is answered in
  full, a read inside the image returns its bytes, and of the chunks only those that it touches are
  looked at: the rest of the image stays unfetched.
\<close>

theorem remote_lazy:
  assumes "remote_source fe f (rr_size rd) True stands"
    and "remote_inv stands f rd st" and "rr_supports_range rd"
    and "answers_in_full fe f (rr_size rd)"
    and "unat off + n \<le> unat (rr_size rd)"
  shows "\<exists>st'. remote_read_at fe flt rd off n st = (Some (Ok (segment f (unat off) n)), st') \<and>
    (\<forall>j. j < unat off div 4194304 \<or> (unat off + n - 1) div 4194304 < j \<longrightarrow>
       rm_chunks st' ! j = rm_chunks st ! j)"
proof -
  from remote_source.read_at_full [OF assms(1,2) refl assms(3) TrueI assms(4,5)] obtain st'
    where r: "remote_read_at fe flt rd off n st = (Some (Ok (segment f (unat off) n)), st')" by blast
  from remote_source.read_at_sound [OF assms(1) r assms(2) refl] assms(3) r show ?thesis by blast
qed

lemma fake_in_full: "answers_in_full (fake_fetcher data True) ((!) data) (file_len data)"
proof -
  have "unat (file_len data) \<le> length data" by (simp add: file_len_def unat_of_nat)
  then show ?thesis by (auto simp: answers_in_full_def fake_fetcher_def segment_list)
qed

lemma remote_lazy_witness:
  "\<exists>st'. remote_read_at (fake_fetcher [1, 2, 3] True) (\<lambda>_. None) (fake_reader [1, 2, 3] True) 1 2
       (fake_state [1, 2, 3] \<lparr>os_files = Map.empty, os_ops = 0\<rparr>) = (Some (Ok [2, 3]), st')"
proof -
  let ?d = "[1, 2, 3 :: u8]"
  let ?os = "\<lparr>os_files = Map.empty, os_ops = 0\<rparr>"
  let ?stands = "\<lambda>s p. s = p \<and> p \<le> length ?d"
  have sz: "rr_size (fake_reader ?d True) = file_len ?d" "file_len ?d = 3"
    by (simp_all add: fake_reader_def file_len_def)
  have "remote_build (fake_fetcher ?d True) None 0 ?os = Ok (fake_reader ?d True, fake_state ?d ?os)"
    using sz(2) by (intro fake_build) simp
  then have "remote_inv ?stands ((!) ?d) (fake_reader ?d True) (fake_state ?d ?os)"
    by (rule build_inv) (simp add: cache_ok_def)
  moreover have "remote_source (fake_fetcher ?d True) ((!) ?d) (rr_size (fake_reader ?d True)) True ?stands"
    unfolding sz(1) by (rule fake.remote_source_axioms)
  moreover have "answers_in_full (fake_fetcher ?d True) ((!) ?d) (rr_size (fake_reader ?d True))"
    unfolding sz(1) by (rule fake_in_full)
  ultimately have "\<exists>st'. remote_read_at (fake_fetcher ?d True) (\<lambda>_. None) (fake_reader ?d True) 1 2
       (fake_state ?d ?os) = (Some (Ok (segment ((!) ?d) (unat (1 :: u64)) 2)), st')"
    using remote_lazy [of "fake_fetcher ?d True" "(!) ?d" "fake_reader ?d True" ?stands "fake_state ?d ?os" 1 2 "\<lambda>_. None"] sz
    by (auto simp: fake_reader_def)
  then show ?thesis by (simp add: segment_def upt_rec)
qed

text \<open>
  A stream that carries on: it delivers the content, and a read that fails takes nothing from it, as with
  a socket whose read timed out.
\<close>

definition resumes :: "('s, 'w) fetcher \<Rightarrow> (nat \<Rightarrow> u8) \<Rightarrow> ('s \<Rightarrow> nat \<Rightarrow> bool) \<Rightarrow> bool" where
  "resumes fe f stands \<longleftrightarrow>
     (\<forall>s p n w x s' w'. stands s p \<longrightarrow> 0 < n \<longrightarrow> ft_read fe s n w = (x, s', w') \<longrightarrow>
        (case x of
           None \<Rightarrow> True
         | Some (Inl e) \<Rightarrow> stands s' p
         | Some (Inr bs) \<Rightarrow> length bs \<le> n \<and> bs = segment f p (length bs) \<and> stands s' (p + length bs)))"

text \<open>A reader about to stream chunk \<open>k\<close>, its stream at \<open>q\<close>; and a read that needs chunk \<open>k\<close> only.\<close>

definition stream_at :: "('s \<Rightarrow> nat \<Rightarrow> bool) \<Rightarrow> remote_reader \<Rightarrow> nat \<Rightarrow> nat \<Rightarrow> ('s, 'w) remote \<Rightarrow> bool" where
  "stream_at stands rd k q st \<longleftrightarrow>
     (\<exists>s. rm_stream st = Some s \<and> stands s q) \<and> rm_streamed st = k \<and> k < nchunks rd \<and>
     length (rm_chunks st) = nchunks rd \<and> rm_chunks st ! k = None"

definition inside_chunk :: "remote_reader \<Rightarrow> nat \<Rightarrow> u64 \<Rightarrow> nat \<Rightarrow> bool" where
  "inside_chunk rd k off n \<longleftrightarrow>
     0 < n \<and> unat off + n \<le> unat (rr_size rd) \<and>
     unat off div 4194304 = k \<and> (unat off + n - 1) div 4194304 = k"

lemma read_full_resumes:
  assumes "resumes fe f stands"
  shows "read_full fe s n buf w = (r, s', w') \<Longrightarrow> stands s (p + length buf) \<Longrightarrow>
    buf = segment f p (length buf) \<Longrightarrow> length buf \<le> n \<Longrightarrow>
    (\<forall>e. r = Some (Err e) \<longrightarrow> (\<exists>d < n. stands s' (p + d))) \<and> (\<forall>bs. r = Some (Ok bs) \<longrightarrow> bs = segment f p n)"
proof (induction "n - length buf" arbitrary: s buf w rule: less_induct)
  case less
  show ?case
  proof (cases "length buf < n")
    case False
    with less.prems show ?thesis by (subst (asm) read_full.simps) auto
  next
    case True
    obtain x s1 w1 where x: "ft_read fe s (n - length buf) w = (x, s1, w1)" by (metis prod_cases3)
    have c: "case x of None \<Rightarrow> True | Some (Inl e) \<Rightarrow> stands s1 (p + length buf)
      | Some (Inr bs) \<Rightarrow> length bs \<le> n - length buf \<and> bs = segment f (p + length buf) (length bs) \<and>
          stands s1 (p + length buf + length bs)"
      using assms [unfolded resumes_def, rule_format, OF less.prems(2) _ x] True by simp
    show ?thesis
    proof (cases "\<exists>bs. x = Some (Inr bs) \<and> bs \<noteq> []")
      case False
      with less.prems(1) True x c show ?thesis
        by (subst (asm) read_full.simps) (auto split: option.splits sum.splits)
    next
      case more: True
      then obtain bs where bs: "x = Some (Inr bs)" "bs \<noteq> []" by blast
      with c have b: "length bs \<le> n - length buf" "bs = segment f (p + length buf) (length bs)"
        "stands s1 (p + length (buf @ bs))" by (simp_all add: add.assoc)
      have step: "read_full fe s1 n (buf @ bs) w1 = (r, s', w')"
        using less.prems(1) True x bs b(1) by (subst (asm) read_full.simps) (simp add: not_less)
      have seg: "buf @ bs = segment f p (length (buf @ bs))"
        using less.prems(3) b(2) by (metis length_append segment_append)
      have le: "length (buf @ bs) \<le> n" using b(1) True by simp
      have "n - length (buf @ bs) < n - length buf" using bs(2) True by (cases bs) auto
      from less.hyps [OF this step b(3) seg le] show ?thesis .
    qed
  qed
qed

lemma copy_loop_one:
  assumes "get chunks (unat off div 4194304) = Some (Some chunk)" and "0 < n"
    and "unat off mod 4194304 + n \<le> length chunk"
  shows "copy_loop chunks off n [] = Some (Ok (take n (drop (unat off mod 4194304) chunk)))"
proof -
  let ?w = "unat off mod 4194304"
  have "copy_loop chunks off n [] = copy_loop chunks (off + of_nat n) n ([] @ take n (drop ?w chunk))"
    by (rule copy_loop_step [OF _ assms(1)]) (use assms in \<open>simp_all add: unat_div unat_mod\<close>)
  also have "\<dots> = Some (Ok (take n (drop ?w chunk)))"
    using assms(3) by (subst copy_loop.simps) simp
  finally show ?thesis .
qed

text \<open>
  One read at chunk \<open>k\<close>: if it fails, the stream has moved inside the chunk; if it succeeds, its bytes are
  those from where the stream stood, taken for the start of the chunk.
\<close>

lemma stream_at_read:
  assumes res: "resumes fe f stands" and rd: "\<not> rr_supports_range rd" "rr_cache rd = None"
    and at: "stream_at stands rd k q st" and ins: "inside_chunk rd k off n"
    and run: "remote_read_at fe flt rd off n st = (r, st')"
  shows "(\<forall>e. r = Some (Err e) \<longrightarrow> (\<exists>d < chunk_len rd k. stream_at stands rd k (q + d) st')) \<and>
    (\<forall>bs. r = Some (Ok bs) \<longrightarrow> bs = segment f (q + unat off mod 4194304) n)"
proof -
  from at obtain s where s: "rm_stream st = Some s" "stands s q" and k: "rm_streamed st = k" "k < nchunks rd"
    "length (rm_chunks st) = nchunks rd" "rm_chunks st ! k = None" by (auto simp: stream_at_def)
  have i: "0 < n" "unat off + n \<le> unat (rr_size rd)" "unat off div 4194304 = k" "(unat off + n - 1) div 4194304 = k"
    using ins by (simp_all add: inside_chunk_def)
  obtain x s1 w1 where x: "read_full fe s (chunk_len rd k) [] (rm_net st) = (x, s1, w1)" by (metis prod_cases3)
  have full: "(\<forall>e. x = Some (Err e) \<longrightarrow> (\<exists>d < chunk_len rd k. stands s1 (q + d))) \<and>
      (\<forall>bs. x = Some (Ok bs) \<longrightarrow> bs = segment f q (chunk_len rd k))"
    using read_full_resumes [OF res x, of q] s(2) by simp
  let ?st1 = "st\<lparr>rm_stream := Some s1, rm_net := w1\<rparr>"
  have "ensure fe flt rd k st = stream_loop fe flt rd k st"
    using k s rd by (simp add: ensure_def get_def cache_hit_def stream_chunk_def)
  then have all: "ensure_all fe flt rd [k] st = stream_loop fe flt rd k st"
    by (auto split: prod.split option.split sum.split)
  have one: "remote_read_at fe flt rd off n st =
      (case stream_loop fe flt rd k st of
         (None, st) \<Rightarrow> (None, st)
       | (Some (Inl e), st) \<Rightarrow> (Some (Err e), st)
       | (Some (Inr _), st) \<Rightarrow> (copy_loop (rm_chunks st) off n [], st))"
    using read_at_chunks(1) [OF i(1,2), where fe = fe and flt = flt and st = st] i(3,4) all by simp
  show ?thesis
  proof (cases "\<exists>buf. x = Some (Ok buf)")
    case False
    then consider (none) "x = None" | (err) e where "x = Some (Err e)"
      by (metis option.exhaust sum.exhaust)
    then have "st' = ?st1 \<and> (\<forall>e. r = Some (Err e) \<longrightarrow> x = Some (Err e)) \<and> (\<forall>bs. r \<noteq> Some (Ok bs))"
    proof cases
      case none
      with k s x have "stream_loop fe flt rd k st = (None, ?st1)" by (subst stream_loop.simps) (simp add: Let_def)
      with one run show ?thesis by simp
    next
      case err
      with k s x have "stream_loop fe flt rd k st = (Some (Err e), ?st1)" by (subst stream_loop.simps) (simp add: Let_def)
      with one run err show ?thesis by simp
    qed
    with full k show ?thesis by (auto simp: stream_at_def)
  next
    case True
    then obtain buf where buf: "x = Some (Ok buf)" by blast
    with full have seg: "buf = segment f q (chunk_len rd k)" by blast
    let ?st2 = "(remote_store flt rd k buf ?st1)\<lparr>rm_streamed := k + 1\<rparr>"
    have "stream_loop fe flt rd k st = (Some (Ok ()), ?st2)"
      using k s x buf by (subst stream_loop.simps, simp add: Let_def) (subst stream_loop.simps, simp)
    with one run have r: "r = copy_loop ((rm_chunks st)[k := Some buf]) off n []" by simp
    have "unat off = k * 4194304 + unat off mod 4194304" using i(3) by (metis div_mult_mod_eq)
    moreover have "unat off + n - 1 = k * 4194304 + (unat off + n - 1) mod 4194304" using i(4) by (metis div_mult_mod_eq)
    moreover have "(unat off + n - 1) mod 4194304 < 4194304" by simp
    ultimately have fit: "unat off mod 4194304 + n \<le> length buf"
      using i(1,2) unfolding seg length_segment chunk_len_eq [OF k(2)] by linarith
    have "r = Some (Ok (take n (drop (unat off mod 4194304) buf)))"
      unfolding r by (rule copy_loop_one [OF _ i(1) fit]) (use k i(3) in \<open>simp add: get_def\<close>)
    moreover have "take n (drop (unat off mod 4194304) buf) = segment f (q + unat off mod 4194304) n"
      using fit unfolding seg drop_segment length_segment by (intro take_segment) simp
    ultimately show ?thesis by simp
  qed
qed


text \<open>
  The witness: a server whose first read delivers the first chunk, its second read one byte, its third
  read fails, and all later ones succeed.
\<close>

definition flaky :: "(nat \<Rightarrow> u8) \<Rightarrow> (nat, nat) fetcher" where
  "flaky f =
     \<lparr>ft_probe = (\<lambda>w. (Ok \<lparr>pr_size = 2 * CHUNK, pr_supports_range = False\<rparr>, w)),
      ft_range = (\<lambda>a b w. (Some (Err (HttpError [])), w)),
      ft_all = (\<lambda>w. (Ok 0, w)),
      ft_read = (\<lambda>pos n w.
        if w = 2 then (Some (Inl (S ''timeout'')), pos, w + 1)
        else let k = (if w = 1 then min n 1 else n) in (Some (Inr (segment f pos k)), pos + k, w + 1))\<rparr>"

definition flaky_reader :: remote_reader where
  "flaky_reader = \<lparr>rr_size = 2 * CHUNK, rr_supports_range = False, rr_cache = None\<rparr>"

definition flaky_state :: "(nat \<Rightarrow> u8) \<Rightarrow> nat \<Rightarrow> nat \<Rightarrow> (nat, nat) remote" where
  "flaky_state f pos w =
     \<lparr>rm_chunks = [Some (segment f 0 4194304), None], rm_stream = Some pos, rm_streamed = 1, rm_downloaded = 1,
      rm_net = w, rm_os = \<lparr>os_files = Map.empty, os_ops = 0\<rparr>\<rparr>"

lemma flaky_resumes: "resumes (flaky f) f (\<lambda>s p. s = p)"
  by (auto simp: resumes_def flaky_def Let_def split: if_splits)

lemma flaky_size: "unat (rr_size flaky_reader) = 8388608" "nchunks flaky_reader = 2" "chunk_len flaky_reader 1 = 4194304"
proof -
  show 1: "unat (rr_size flaky_reader) = 8388608" by (simp add: flaky_reader_def CHUNK_def)
  have n: "i < nchunks flaky_reader \<longleftrightarrow> i < 2" for i unfolding nchunks_iff 1 by auto
  from n [of 1] n [of 2] show "nchunks flaky_reader = 2" by simp
  show "chunk_len flaky_reader 1 = 4194304" using n [of 1] by (subst chunk_len_eq) (simp_all add: 1)
qed

lemma flaky_fields:
  "rm_stream (flaky_state f pos w) = Some pos" "rm_streamed (flaky_state f pos w) = 1"
  "rm_net (flaky_state f pos w) = w" "rm_chunks (flaky_state f pos w) = [Some (segment f 0 4194304), None]"
  by (simp_all add: flaky_state_def)

lemma flaky_ensure:
  "ensure_all (flaky f) flt flaky_reader [1] (flaky_state f pos w) = stream_loop (flaky f) flt flaky_reader 1 (flaky_state f pos w)"
  by (auto simp: ensure_def get_def cache_hit_def stream_chunk_def flaky_state_def flaky_reader_def
      split: prod.split option.split sum.split)

lemma flaky_read:
  "remote_read_at (flaky f) flt flaky_reader CHUNK 1 (flaky_state f pos w) =
     (case stream_loop (flaky f) flt flaky_reader 1 (flaky_state f pos w) of
        (None, st) \<Rightarrow> (None, st)
      | (Some (Inl e), st) \<Rightarrow> (Some (Err e), st)
      | (Some (Inr _), st) \<Rightarrow> (copy_loop (rm_chunks st) CHUNK 1 [], st))"
  using read_at_chunks(1) [of 1 CHUNK flaky_reader "flaky f" flt "flaky_state f pos w"] flaky_ensure [of f flt pos w]
  by (simp add: flaky_size)

lemma flaky_full_fails:
  "read_full (flaky f) 4194304 4194304 [] 1 = (Some (Err (HttpError (S ''stream read: timeout''))), 4194305, 3)"
  by (subst read_full.simps, simp add: flaky_def)
    (subst read_full.simps, simp add: segment_def)

lemma flaky_full_shifted:
  "read_full (flaky f) 4194305 4194304 [] 3 = (Some (Ok (segment f 4194305 4194304)), 8388609, 4)"
proof -
  have "segment f 4194305 4194304 \<noteq> []" by (metis length_segment list.size(3) zero_neq_numeral)
  then show ?thesis by (subst read_full.simps, simp add: flaky_def) (subst read_full.simps, simp)
qed

lemma flaky_fails:
  "remote_read_at (flaky f) flt flaky_reader CHUNK 1 (flaky_state f 4194304 1) =
     (Some (Err (HttpError (S ''stream read: timeout''))), flaky_state f 4194305 3)"
proof -
  have "stream_loop (flaky f) flt flaky_reader 1 (flaky_state f 4194304 1) =
      (Some (Err (HttpError (S ''stream read: timeout''))), flaky_state f 4194305 3)"
    by (simp add: stream_loop.simps [of _ _ _ _ "flaky_state f 4194304 1"] flaky_fields flaky_size(3)
        flaky_full_fails Let_def del: One_nat_def) (simp add: flaky_state_def)
  then show ?thesis unfolding flaky_read by simp
qed

lemma flaky_returns:
  "\<exists>bs st. remote_read_at (flaky f) flt flaky_reader CHUNK 1 (flaky_state f 4194305 3) = (Some (Ok bs), st)"
proof -
  let ?c = "segment f 4194305 4194304"
  let ?st = "(remote_store flt flaky_reader 1 ?c
      ((flaky_state f 4194305 3)\<lparr>rm_stream := Some 8388609, rm_net := 4\<rparr>))\<lparr>rm_streamed := 1 + 1\<rparr>"
  have "stream_loop (flaky f) flt flaky_reader 1 (flaky_state f 4194305 3) = stream_loop (flaky f) flt flaky_reader 1 ?st"
    by (simp add: stream_loop.simps [of _ _ _ _ "flaky_state f 4194305 3"] flaky_fields flaky_size(3)
        flaky_full_shifted Let_def del: One_nat_def)
  also have "\<dots> = (Some (Ok ()), ?st)" by (subst stream_loop.simps) simp
  finally obtain st where st: "stream_loop (flaky f) flt flaky_reader 1 (flaky_state f 4194305 3) = (Some (Ok ()), st)"
    "rm_chunks st = [Some (segment f 0 4194304), Some ?c]"
    by (simp add: flaky_fields)
  have "copy_loop (rm_chunks st) CHUNK 1 [] = Some (Ok (take 1 (drop 0 ?c)))"
    using copy_loop_one [of "rm_chunks st" CHUNK ?c 1] by (simp add: st(2) get_def)
  with st(1) show ?thesis unfolding flaky_read by simp
qed


end
