(* ===== verification/Dns.thy ===== *)
theory Dns
  imports Bytes "HOL-Library.Code_Target_Nat"
begin

text \<open>
  src/src/source/dns.rs: name resolution. An address literal stands for itself; else the system
  resolver is asked, and when it has no answer, a DNS query is sent to the configured and the public
  servers in turn. The message formats (\<open>build_query\<close>, \<open>parse_answers\<close>) are modelled byte by byte. The
  system resolver and the exchange of one datagram are parameters. Reading an address
  (\<open>parse::<IpAddr>()\<close>) follows the standard library's parser.
\<close>

datatype ip_addr = V4 "u8 list" | V6 "u16 list"

section \<open>Address literals\<close>

text \<open>
  \<open>read_number\<close>: digits of a base, at most so many, leading zeros only where allowed; the value and what
  follows.
\<close>

definition radix_digit :: "nat \<Rightarrow> nat \<Rightarrow> nat option" where
  "radix_digit base c =
     (case digit_value c of Some d \<Rightarrow> if d < base then Some d else None | None \<Rightarrow> None)"

definition read_number :: "nat \<Rightarrow> nat \<Rightarrow> nat \<Rightarrow> bool \<Rightarrow> str \<Rightarrow> (nat \<times> str) option" where
  "read_number limit base max_digits zero_prefix s =
     (let ds = takeWhile (\<lambda>c. radix_digit base c \<noteq> None) s
      in if ds = [] \<or> max_digits < length ds then None
         else if \<not> zero_prefix \<and> hd ds = ch CHR ''0'' \<and> 1 < length ds then None
         else case digits_value base 0 ds of
                None \<Rightarrow> None
              | Some v \<Rightarrow> if v < limit then Some (v, drop (length ds) s) else None)"

definition read_char :: "nat \<Rightarrow> str \<Rightarrow> str option" where
  "read_char c s = (case s of [] \<Rightarrow> None | x # xs \<Rightarrow> if x = c then Some xs else None)"

definition read_separator :: "nat \<Rightarrow> nat \<Rightarrow> str \<Rightarrow> str option" where
  "read_separator sep index s = (if 0 < index then read_char sep s else Some s)"

fun read_octets :: "nat \<Rightarrow> nat \<Rightarrow> str \<Rightarrow> (u8 list \<times> str) option" where
  "read_octets 0 i s = Some ([], s)"
| "read_octets (Suc k) i s =
     Option.bind (read_separator (ch CHR ''.'') i s) (\<lambda>s.
     Option.bind (read_number 256 10 3 False s) (\<lambda>(v, s).
     Option.bind (read_octets k (Suc i) s) (\<lambda>(vs, s). Some (of_nat v # vs, s))))"

definition read_ipv4 :: "str \<Rightarrow> (u8 list \<times> str) option" where
  "read_ipv4 s = read_octets 4 0 s"

text \<open>
  \<open>read_groups\<close>: up to \<open>limit\<close> groups; where two are left, an IPv4 address may take their place and ends
  the list.
\<close>

fun read_groups :: "nat \<Rightarrow> nat \<Rightarrow> nat \<Rightarrow> str \<Rightarrow> u16 list \<times> bool \<times> str" where
  "read_groups 0 i limit s = ([], False, s)"
| "read_groups (Suc k) i limit s =
     (let v4 = (if i + 1 < limit
                then Option.bind (read_separator (ch CHR '':'') i s) read_ipv4 else None)
      in case v4 of
           Some (os, s') \<Rightarrow>
             ([of_nat (unat (os ! 0) * 256 + unat (os ! 1)), of_nat (unat (os ! 2) * 256 + unat (os ! 3))],
              True, s')
         | None \<Rightarrow>
             (case Option.bind (read_separator (ch CHR '':'') i s) (read_number 65536 16 4 True) of
                None \<Rightarrow> ([], False, s)
              | Some (v, s') \<Rightarrow>
                  (case read_groups k (Suc i) limit s' of
                     (vs, ipv4, s'') \<Rightarrow> (of_nat v # vs, ipv4, s''))))"

definition read_ipv6 :: "str \<Rightarrow> (u16 list \<times> str) option" where
  "read_ipv6 s =
     (case read_groups 8 0 8 s of
        (head, head_ipv4, s1) \<Rightarrow>
          if length head = 8 then Some (head, s1)
          else if head_ipv4 then None
          else
            Option.bind (Option.bind (read_char (ch CHR '':'') s1) (read_char (ch CHR '':''))) (\<lambda>s2.
              let limit = 8 - (length head + 1)
              in case read_groups limit 0 limit s2 of
                   (tail, _, s3) \<Rightarrow>
                     Some (head @ replicate (8 - length head - length tail) 0 @ tail, s3)))"

definition parse_ip :: "str \<Rightarrow> ip_addr option" where
  "parse_ip s =
     (case read_ipv4 s of
        Some (os, rest) \<Rightarrow> if rest = [] then Some (V4 os) else None
      | None \<Rightarrow>
          (case read_ipv6 s of
             Some (gs, rest) \<Rightarrow> if rest = [] then Some (V6 gs) else None
           | None \<Rightarrow> None))"

section \<open>Messages\<close>

definition TYPE_A :: nat where "TYPE_A = 1"
definition TYPE_AAAA :: nat where "TYPE_AAAA = 28"

definition dns_label :: "str \<Rightarrow> bytes" where
  "dns_label label = of_nat (min (length (as_bytes label)) 63) # as_bytes label"

definition build_query :: "str \<Rightarrow> nat \<Rightarrow> bytes" where
  "build_query host qtype =
     be_enc 2 0x4242 @ be_enc 2 0x0100 @ be_enc 2 1 @ [0, 0, 0, 0, 0, 0] @
     concat (map dns_label (filter (\<lambda>l. l \<noteq> []) (split_on (ch CHR ''.'') host))) @
     [0] @ be_enc 2 qtype @ be_enc 2 1"

function skip_name :: "bytes \<Rightarrow> nat \<Rightarrow> nat" where
  "skip_name buf pos =
     (if \<not> pos < length buf then pos
      else
        let len = buf ! pos
        in if len = 0 then pos + 1
           else if len AND 0xc0 = 0xc0 then pos + 2
           else skip_name buf (pos + (1 + unat len)))"
  by pat_completeness auto
termination
  by (relation "measure (\<lambda>(buf, pos). length buf - pos)") auto

declare skip_name.simps [simp del]

definition be16_at :: "bytes \<Rightarrow> nat \<Rightarrow> nat" where
  "be16_at buf pos = be_val (field buf pos 2)"

fun v6_groups :: "bytes \<Rightarrow> u16 list" where
  "v6_groups (a # b # bs) = of_nat (unat a * 256 + unat b) # v6_groups bs"
| "v6_groups bs = []"

definition dns_record :: "nat \<Rightarrow> bytes \<Rightarrow> ip_addr list" where
  "dns_record rtype rdata =
     (if rtype = TYPE_A \<and> length rdata = 4 then [V4 rdata]
      else if rtype = TYPE_AAAA \<and> length rdata = 16 then [V6 (v6_groups rdata)]
      else [])"

text \<open>The loop over the answers; the first argument counts those left.\<close>

fun dns_answers :: "nat \<Rightarrow> bytes \<Rightarrow> nat \<Rightarrow> ip_addr list \<Rightarrow> ip_addr list" where
  "dns_answers 0 buf pos out = out"
| "dns_answers (Suc k) buf pos out =
     (let pos = skip_name buf pos in
      if length buf < pos + 10 then out
      else
        let rtype = be16_at buf pos;
            rdlen = be16_at buf (pos + 8);
            pos = pos + 10
        in if length buf < pos + rdlen then out
           else dns_answers k buf (pos + rdlen) (out @ dns_record rtype (field buf pos rdlen)))"

definition parse_answers :: "bytes \<Rightarrow> ip_addr list" where
  "parse_answers buf =
     (if length buf < 12 then []
      else dns_answers (be16_at buf 6) buf (skip_name buf 12 + 4) [])"

section \<open>Resolving\<close>

definition PUBLIC_DNS :: "str list" where
  "PUBLIC_DNS = [S ''8.8.8.8'', S ''1.1.1.1'', S ''9.9.9.9'']"

definition is_dns_separator :: "nat \<Rightarrow> bool" where
  "is_dns_separator c \<longleftrightarrow> c = ch CHR '','' \<or> c = ch CHR '' '' \<or> c = ch CHR '';'' \<or> c = 10"

definition dns_servers :: "str option \<Rightarrow> ip_addr list" where
  "dns_servers env =
     (case env of
        None \<Rightarrow> []
      | Some v \<Rightarrow> List.map_filter (\<lambda>s. parse_ip (str_trim s)) (split_by is_dns_separator v)) @
     List.map_filter parse_ip PUBLIC_DNS"

text \<open>
  \<open>query\<close>: one datagram to a server and one back, of which at most 1232 bytes are kept. The exchange of
  the two is a parameter; its errors are texts.
\<close>

definition dns_query :: "(ip_addr \<Rightarrow> bytes \<Rightarrow> str + bytes) \<Rightarrow> ip_addr \<Rightarrow> str \<Rightarrow> nat \<Rightarrow> str + ip_addr list" where
  "dns_query exchange server host qtype =
     (case exchange server (build_query host qtype) of
        Inl e \<Rightarrow> Inl e
      | Inr reply \<Rightarrow> Inr (parse_answers (take 1232 reply)))"

fun ask_servers ::
  "(ip_addr \<Rightarrow> bytes \<Rightarrow> str + bytes) \<Rightarrow> str \<Rightarrow> (ip_addr \<times> nat) list \<Rightarrow> str option \<Rightarrow> str option + ip_addr list" where
  "ask_servers exchange host [] last_err = Inl last_err"
| "ask_servers exchange host ((server, qtype) # qs) last_err =
     (case dns_query exchange server host qtype of
        Inr ips \<Rightarrow> if ips \<noteq> [] then Inr ips else ask_servers exchange host qs last_err
      | Inl e \<Rightarrow> ask_servers exchange host qs (Some e))"

definition dns_resolve ::
  "(str \<Rightarrow> ip_addr list option) \<Rightarrow> (ip_addr \<Rightarrow> bytes \<Rightarrow> str + bytes) \<Rightarrow> str option \<Rightarrow> str \<Rightarrow>
   ip_addr list result" where
  "dns_resolve system exchange env host =
     (case parse_ip host of
        Some ip \<Rightarrow> Ok [ip]
      | None \<Rightarrow>
          if system host \<noteq> None \<and> system host \<noteq> Some [] then Ok (the (system host))
          else
            (case ask_servers exchange host
                    (concat (map (\<lambda>s. [(s, TYPE_A), (s, TYPE_AAAA)]) (dns_servers env))) None of
               Inr ips \<Rightarrow> Ok ips
             | Inl last_err \<Rightarrow>
                 Err (HttpError (S ''could not resolve '' @ host @
                   (case last_err of Some e \<Rightarrow> S '' ('' @ e @ S '')'' | None \<Rightarrow> [])))))"

section \<open>The unit tests\<close>

definition ip_literal_passthrough :: bool where
  "ip_literal_passthrough \<longleftrightarrow>
     dns_resolve (\<lambda>_. None) (\<lambda>_ _. Inl []) None (S ''1.2.3.4'') = Ok [V4 [1, 2, 3, 4]]"

lemma ip_literal_passthrough: ip_literal_passthrough
  by code_simp

definition a_record_response :: bytes where
  "a_record_response =
     be_enc 2 0x4242 @ be_enc 2 0x8180 @ be_enc 2 1 @ be_enc 2 1 @ [0, 0, 0, 0] @
     [1, 97, 1, 98, 0] @ be_enc 2 TYPE_A @ be_enc 2 1 @
     [0xc0, 0x0c] @ be_enc 2 TYPE_A @ be_enc 2 1 @ be_enc 4 60 @ be_enc 2 4 @ [93, 184, 216, 34]"

lemma parses_an_a_record_response:
  "parse_answers a_record_response = [V4 [93, 184, 216, 34]] \<and>
   parse_ip (S ''93.184.216.34'') = Some (V4 [93, 184, 216, 34])"
  by code_simp

lemma ip_literals:
  "map parse_ip [S ''::1'', S ''2001:db8::ff00:42:8329'', S ''::ffff:1.2.3.4'', S ''1.2.3'', S ''01.2.3.4'', S '':::'', S ''1::2::3'']
   = [Some (V6 [0, 0, 0, 0, 0, 0, 0, 1]), Some (V6 [0x2001, 0xdb8, 0, 0, 0, 0xff00, 0x42, 0x8329]),
      Some (V6 [0, 0, 0, 0, 0, 0xffff, 0x0102, 0x0304]), None, None, None, None]"
  by code_simp

section \<open>Replies as they lie on the wire\<close>

text \<open>A name is labels of 1 to 63 bytes, ended by the root or by a pointer to the rest of the name.\<close>

definition label_ok :: "bytes \<Rightarrow> bool" where
  "label_ok l \<longleftrightarrow> l \<noteq> [] \<and> length l \<le> 63"

definition name_end_ok :: "bytes \<Rightarrow> bool" where
  "name_end_ok e \<longleftrightarrow> e = [0] \<or> (\<exists>a b. e = [a, b] \<and> a AND 0xc0 = 0xc0)"

definition name_bytes :: "bytes list \<Rightarrow> bytes \<Rightarrow> bytes" where
  "name_bytes labels e = concat (map (\<lambda>l. of_nat (length l) # l) labels) @ e"

lemma label_length_byte:
  assumes "0 < n" and "n \<le> 63"
  shows "(of_nat n :: u8) \<noteq> 0" "(of_nat n :: u8) AND 0xc0 \<noteq> 0xc0" "unat (of_nat n :: u8) = n"
proof -
  have "list_all (\<lambda>n. (of_nat n :: u8) AND 0xc0 = 0) [0..<64]" by code_simp
  then have z: "(of_nat n :: u8) AND 0xc0 = 0" using assms by (simp add: list_all_iff)
  then show "(of_nat n :: u8) AND 0xc0 \<noteq> 0xc0" by simp
  show u: "unat (of_nat n :: u8) = n" using assms by simp
  show "(of_nat n :: u8) \<noteq> 0"
  proof
    assume "(of_nat n :: u8) = 0"
    with u have "n = 0" by (metis unat_0)
    with assms(1) show False by simp
  qed
qed

lemma skip_name_end:
  "name_end_ok e \<Longrightarrow> skip_name (pre @ e @ post) (length pre) = length pre + length e"
  by (subst skip_name.simps) (auto simp: name_end_ok_def nth_append)

lemma skip_name_wire:
  assumes "\<forall>l \<in> set labels. label_ok l" and "name_end_ok e"
  shows "skip_name (pre @ name_bytes labels e @ post) (length pre) =
    length pre + length (name_bytes labels e)"
  using assms(1)
proof (induction labels arbitrary: pre)
  case Nil
  then show ?case by (simp add: name_bytes_def skip_name_end [OF assms(2)])
next
  case (Cons l labels)
  let ?b = "of_nat (length l) :: u8"
  have l: "0 < length l" "length l \<le> 63" using Cons.prems by (auto simp: label_ok_def)
  note b = label_length_byte [OF l]
  let ?buf = "pre @ name_bytes (l # labels) e @ post"
  have split: "?buf = (pre @ ?b # l) @ name_bytes labels e @ post" by (simp add: name_bytes_def)
  have "?buf ! length pre = ?b" by (simp add: name_bytes_def nth_append)
  then have "skip_name ?buf (length pre) = skip_name ?buf (length pre + (1 + length l))"
    using b by (subst skip_name.simps) (simp add: Let_def name_bytes_def)
  also have "\<dots> = skip_name ((pre @ ?b # l) @ name_bytes labels e @ post) (length (pre @ ?b # l))"
    unfolding split by simp
  also have "\<dots> = length (pre @ ?b # l) + length (name_bytes labels e)"
    by (rule Cons.IH) (use Cons.prems in simp)
  finally show ?case by (simp add: name_bytes_def)
qed

record dns_rr =
  rr_labels :: "bytes list"
  rr_end :: bytes
  rr_type :: nat
  rr_class_ttl :: bytes
  rr_data :: bytes

definition rr_ok :: "dns_rr \<Rightarrow> bool" where
  "rr_ok r \<longleftrightarrow> (\<forall>l \<in> set (rr_labels r). label_ok l) \<and> name_end_ok (rr_end r) \<and> rr_type r < 65536 \<and>
     length (rr_class_ttl r) = 6 \<and> length (rr_data r) < 65536"

definition rr_fields :: "dns_rr \<Rightarrow> bytes" where
  "rr_fields r = be_enc 2 (rr_type r) @ rr_class_ttl r @ be_enc 2 (length (rr_data r))"

definition rr_bytes :: "dns_rr \<Rightarrow> bytes" where
  "rr_bytes r = name_bytes (rr_labels r) (rr_end r) @ rr_fields r @ rr_data r"

definition rr_addresses :: "dns_rr \<Rightarrow> ip_addr list" where
  "rr_addresses r = dns_record (rr_type r) (rr_data r)"

lemma be16_at_enc: "n < 65536 \<Longrightarrow> be16_at (pre @ be_enc 2 n @ post) (length pre) = n"
  by (simp add: be16_at_def field_def be_val_enc)

lemma dns_answers_wire:
  "\<forall>r \<in> set rrs. rr_ok r \<Longrightarrow>
   dns_answers (length rrs) (pre @ concat (map rr_bytes rrs) @ post) (length pre) out =
   out @ concat (map rr_addresses rrs)"
proof (induction rrs arbitrary: pre out)
  case (Cons r rrs)
  then have r: "rr_ok r" by simp
  let ?name = "name_bytes (rr_labels r) (rr_end r)"
  let ?rest = "concat (map rr_bytes rrs) @ post"
  let ?buf = "pre @ concat (map rr_bytes (r # rrs)) @ post"
  let ?pos = "length (pre @ ?name)"
  have b1: "?buf = pre @ ?name @ (rr_fields r @ rr_data r @ ?rest)" by (simp add: rr_bytes_def)
  have name: "skip_name ?buf (length pre) = ?pos"
    unfolding b1 using r by (simp add: skip_name_wire rr_ok_def)
  have b2: "?buf = (pre @ ?name) @ be_enc 2 (rr_type r) @ (rr_class_ttl r @ be_enc 2 (length (rr_data r)) @ rr_data r @ ?rest)"
    by (simp add: rr_bytes_def rr_fields_def)
  have type: "be16_at ?buf ?pos = rr_type r" unfolding b2 using r by (intro be16_at_enc) (simp add: rr_ok_def)
  let ?pre3 = "pre @ ?name @ be_enc 2 (rr_type r) @ rr_class_ttl r"
  have b3: "?buf = ?pre3 @ be_enc 2 (length (rr_data r)) @ rr_data r @ ?rest"
    by (simp add: rr_bytes_def rr_fields_def)
  have p3: "length ?pre3 = ?pos + 8" using r by (simp add: rr_ok_def)
  have len: "be16_at ?buf (?pos + 8) = length (rr_data r)"
    unfolding b3 p3 [symmetric] using r by (intro be16_at_enc) (simp add: rr_ok_def)
  let ?pre4 = "pre @ ?name @ rr_fields r"
  have b4: "?buf = ?pre4 @ rr_data r @ ?rest" by (simp add: rr_bytes_def)
  have p4: "length ?pre4 = ?pos + 10" using r by (simp add: rr_ok_def rr_fields_def)
  have data: "field ?buf (?pos + 10) (length (rr_data r)) = rr_data r"
    unfolding b4 p4 [symmetric] by (simp add: field_def)
  have long: "?pos + 10 + length (rr_data r) \<le> length ?buf" unfolding b4 p4 [symmetric] by simp
  let ?pre5 = "pre @ rr_bytes r"
  have p5: "length ?pre5 = ?pos + 10 + length (rr_data r)"
    using p4 by (simp add: rr_bytes_def)
  have "dns_answers (length (r # rrs)) ?buf (length pre) out =
      dns_answers (length rrs) ?buf (length ?pre5) (out @ rr_addresses r)"
    unfolding p5 using long name type len data by (simp add: Let_def rr_addresses_def del: append_assoc)
  also have "?buf = ?pre5 @ ?rest" by simp
  also have "dns_answers (length rrs) (?pre5 @ ?rest) (length ?pre5) (out @ rr_addresses r) =
      (out @ rr_addresses r) @ concat (map rr_addresses rrs)"
    by (rule Cons.IH) (use Cons.prems in simp)
  finally show ?case by simp
qed simp

text \<open>A reply to a query: the id and the question of the query, and the records.\<close>

definition dns_reply :: "bytes \<Rightarrow> bytes \<Rightarrow> bytes \<Rightarrow> dns_rr list \<Rightarrow> bytes \<Rightarrow> bytes" where
  "dns_reply query flags counts rrs extra =
     take 2 query @ flags @ be_enc 2 1 @ be_enc 2 (length rrs) @ counts @ drop 12 query @
     concat (map rr_bytes rrs) @ extra"

text \<open>
  C34: an answer is read as it was sent. Take the reply of any server to the query built for a host: the
  question repeated, any records in any number, with names spelled out or compressed, of any types,
  and whatever follows them. The addresses read from it are those of its A and AAAA records, in
  order, and nothing else.
\<close>

theorem dns_reply_roundtrip:
  assumes "\<forall>l \<in> set (split_on (ch CHR ''.'') host). length (as_bytes l) \<le> 63"
    and "length flags = 2" and "length counts = 4" and "length rrs < 65536" and "\<forall>r \<in> set rrs. rr_ok r"
  shows "parse_answers (dns_reply (build_query host qtype) flags counts rrs extra) =
    concat (map rr_addresses rrs)"
proof -
  let ?labels = "map as_bytes (filter (\<lambda>l. l \<noteq> []) (split_on (ch CHR ''.'') host))"
  let ?tail = "be_enc 2 qtype @ be_enc 2 1 :: bytes"
  have "as_bytes l \<noteq> []" if "l \<noteq> []" for l
    using that utf8_char_Cons [of "hd l"] by (cases l) (auto simp: as_bytes_def)
  then have lok: "\<forall>l \<in> set ?labels. label_ok l" using assms(1) by (auto simp: label_ok_def)
  have "concat (map dns_label (filter (\<lambda>l. l \<noteq> []) (split_on (ch CHR ''.'') host))) =
      concat (map (\<lambda>l. of_nat (length l) # l) ?labels)"
    using assms(1) by (intro arg_cong [of _ _ concat]) (auto simp: dns_label_def min_def)
  then have q: "build_query host qtype = (be_enc 2 0x4242 @ be_enc 2 0x0100 @ be_enc 2 1 @ [0, 0, 0, 0, 0, 0]) @
      name_bytes ?labels [0] @ ?tail"
    by (simp add: build_query_def name_bytes_def)
  let ?head = "be_enc 2 0x4242 @ flags @ be_enc 2 1 @ be_enc 2 (length rrs) @ counts"
  have reply: "dns_reply (build_query host qtype) flags counts rrs extra =
      ?head @ name_bytes ?labels [0] @ ?tail @ concat (map rr_bytes rrs) @ extra" (is "?buf = _")
    unfolding dns_reply_def q by simp
  have h: "length ?head = 12" using assms(2,3) by simp
  have "skip_name ?buf 12 = length ?head + length (name_bytes ?labels [0])"
    unfolding reply h [symmetric] by (rule skip_name_wire [OF lok]) (simp add: name_end_ok_def)
  then have pos: "skip_name ?buf 12 + 4 = length (?head @ name_bytes ?labels [0] @ ?tail)" using h by simp
  let ?h6 = "be_enc 2 0x4242 @ flags @ be_enc 2 1 :: bytes"
  have "be16_at (?h6 @ be_enc 2 (length rrs) @ (counts @ name_bytes ?labels [0] @ ?tail @ concat (map rr_bytes rrs) @ extra))
      (length ?h6) = length rrs"
    using assms(4) by (rule be16_at_enc)
  moreover have "length ?h6 = 6" using assms(2) by simp
  ultimately have count: "be16_at ?buf 6 = length rrs" unfolding reply by simp
  have "dns_answers (length rrs) ((?head @ name_bytes ?labels [0] @ ?tail) @ concat (map rr_bytes rrs) @ extra)
      (length (?head @ name_bytes ?labels [0] @ ?tail)) [] = [] @ concat (map rr_addresses rrs)"
    by (rule dns_answers_wire [OF assms(5)])
  moreover have "12 \<le> length ?buf" unfolding reply using h by simp
  ultimately show ?thesis unfolding parse_answers_def count pos using reply by simp
qed

definition rr_example :: dns_rr where
  "rr_example = \<lparr>rr_labels = [], rr_end = [0xc0, 0x0c], rr_type = 1, rr_class_ttl = [0, 1, 0, 0, 0, 60],
     rr_data = [93, 184, 216, 34]\<rparr>"

lemma dns_reply_roundtrip_witness:
  "parse_answers (dns_reply (build_query (S ''a.b'') 1) [0x81, 0x80] [0, 0, 0, 0] [rr_example] []) =
     [V4 [93, 184, 216, 34]]"
proof -
  have "split_on (ch CHR ''.'') (S ''a.b'') = [S ''a'', S ''b'']" by simp
  moreover have "as_bytes (S ''a'') = [97]" "as_bytes (S ''b'') = [98]"
    by (simp_all add: as_bytes_def utf8_char_def)
  ultimately have "parse_answers (dns_reply (build_query (S ''a.b'') 1) [0x81, 0x80] [0, 0, 0, 0] [rr_example] []) =
      concat (map rr_addresses [rr_example])"
    by (intro dns_reply_roundtrip) (auto simp: rr_ok_def rr_example_def name_end_ok_def)
  then show ?thesis by (simp add: rr_addresses_def rr_example_def dns_record_def TYPE_A_def)
qed

end
