(* ===== verification/Http.thy ===== *)
theory Http
  imports Remote Disk Dns
begin

text \<open>
  src/src/source/http.rs: the HTTP/1.1 client behind the remote reader: URLs, requests with redirects and
  retries, the head of a response, and its body by length, in chunks or to the end.

  A connection, behind its \<open>BufReader\<close>, is the list of what its refills deliver: a piece of bytes, which
  stays until it is consumed, or an error. The end of the list, like an empty piece, is the end of
  the stream. What the network does (dialling, TLS, what a peer sends back) is a parameter that runs
  in a state \<open>'w\<close> of the world. A read that never returns is the value \<open>None\<close>. The debug format of a string in
  two error texts is a parameter; waiting between attempts is not modelled.
\<close>

definition MAX_REDIRECTS :: nat where "MAX_REDIRECTS = 5"
definition MAX_RETRIES :: nat where "MAX_RETRIES = 3"

section \<open>URLs\<close>

record url =
  ul_https :: bool
  ul_host :: str
  ul_port :: nat
  ul_path :: str

definition url_scheme :: "str \<Rightarrow> (bool \<times> str) option" where
  "url_scheme s =
     (case strip_prefix (S ''https://'') s of
        Some r \<Rightarrow> Some (True, r)
      | None \<Rightarrow> map_option (Pair False) (strip_prefix (S ''http://'') s))"

definition is_authority_end :: "nat \<Rightarrow> bool" where
  "is_authority_end c \<longleftrightarrow> c = ch CHR ''/'' \<or> c = ch CHR ''?'' \<or> c = ch CHR ''#''"

definition split_authority :: "str \<Rightarrow> str \<times> str" where
  "split_authority rest =
     (if list_ex is_authority_end rest
      then (takeWhile (\<lambda>c. \<not> is_authority_end c) rest, dropWhile (\<lambda>c. \<not> is_authority_end c) rest)
      else (rest, S ''/''))"

definition host_port :: "str \<Rightarrow> bool \<Rightarrow> str \<Rightarrow> (str \<times> nat) result" where
  "host_port s https authority =
     (case rsplit_once (ch CHR '':'') authority of
        Some (h, p) \<Rightarrow>
          if p \<noteq> [] \<and> list_all is_ascii_digit p
          then (case from_str_radix 16 10 p of
                  Some n \<Rightarrow> Ok (h, n)
                | None \<Rightarrow> Err (HttpError (S ''bad port in '' @ s)))
          else Ok (authority, if https then 443 else 80)
      | None \<Rightarrow> Ok (authority, if https then 443 else 80))"

definition url_parse :: "str \<Rightarrow> url result" where
  "url_parse s =
     (case url_scheme s of
        None \<Rightarrow> Err (HttpError (S ''not an http(s) URL: '' @ s))
      | Some (https, rest) \<Rightarrow>
          let (authority, path) = split_authority rest;
              authority = after_last (ch CHR ''@'') authority
          in rbind (host_port s https authority) (\<lambda>(host, port).
               if host = [] then Err (HttpError (S ''missing host in URL: '' @ s))
               else
                 let path = (case split_once (ch CHR ''#'') path of Some (p, _) \<Rightarrow> p | None \<Rightarrow> path)
                 in Ok \<lparr>ul_https = https, ul_host = host, ul_port = port,
                        ul_path = (if path = [] then S ''/'' else path)\<rparr>))"

definition url_join :: "url \<Rightarrow> str \<Rightarrow> url result" where
  "url_join u location =
     (if is_url location then url_parse location
      else case strip_prefix (S ''/'') location of
             Some stripped \<Rightarrow> Ok (u\<lparr>ul_path := S ''/'' @ stripped\<rparr>)
           | None \<Rightarrow>
               let dir = (case rsplit_once (ch CHR ''/'') (ul_path u) of
                            Some (d, _) \<Rightarrow> d @ S ''/''
                          | None \<Rightarrow> S ''/'')
               in Ok (u\<lparr>ul_path := dir @ location\<rparr>))"

definition url_display :: "url \<Rightarrow> str" where
  "url_display u =
     (if ul_https u then S ''https'' else S ''http'') @ S ''://'' @ ul_host u @ S '':'' @
     show_nat (ul_port u) @ ul_path u"

section \<open>Connections\<close>

type_synonym conn = "(str + bytes) list"

definition conn_read :: "nat \<Rightarrow> conn \<Rightarrow> (str + bytes) \<times> conn" where
  "conn_read n c =
     (case c of
        [] \<Rightarrow> (Inr [], [])
      | Inl e # c' \<Rightarrow> (Inl e, c')
      | Inr p # c' \<Rightarrow> (Inr (take n p), if length p \<le> n then c' else Inr (drop n p) # c'))"

text \<open>\<open>read_until(b'\n')\<close>: up to and with the next newline, or what there is before the end.\<close>

fun conn_until :: "bytes \<Rightarrow> conn \<Rightarrow> (str + bytes) \<times> conn" where
  "conn_until acc [] = (Inr acc, [])"
| "conn_until acc (Inl e # c) = (Inl e, c)"
| "conn_until acc (Inr p # c) =
     (if p = [] then (Inr acc, c)
      else case split_once 10 p of
             Some (a, b) \<Rightarrow> (Inr (acc @ a @ [10]), if b = [] then c else Inr b # c)
           | None \<Rightarrow> conn_until (acc @ p) c)"

definition is_newline_byte :: "u8 \<Rightarrow> bool" where
  "is_newline_byte b \<longleftrightarrow> b = 10 \<or> b = 13"

definition read_line :: "conn \<Rightarrow> str result \<times> conn" where
  "read_line c =
     (case conn_until [] c of
        (Inl e, c) \<Rightarrow> (Err (HttpError (S ''read header: '' @ e)), c)
      | (Inr line, c) \<Rightarrow>
          if line = [] then (Err (HttpError (S ''connection closed mid-header'')), c)
          else (Ok (from_utf8_lossy (trim_end_by is_newline_byte line)), c))"

text \<open>The bytes and errors still to come; every header line takes one of them at least.\<close>

definition conn_size :: "conn \<Rightarrow> nat" where
  "conn_size c = sum_list (map (\<lambda>x. case x of Inl _ \<Rightarrow> 1 | Inr p \<Rightarrow> 1 + length p) c)"

lemma conn_until_size: "conn_until acc c = (r, c') \<Longrightarrow> c \<noteq> [] \<Longrightarrow> conn_size c' < conn_size c"
proof (induction acc c rule: conn_until.induct)
  case (3 acc p c)
  show ?case
  proof (cases "p = [] \<or> split_once 10 p = None")
    case False
    then obtain a b where ab: "split_once 10 p = Some (a, b)" by auto
    then have "length b < length p" by (auto simp: split_once_Some)
    with 3 False ab show ?thesis by (auto simp: conn_size_def split: if_splits)
  next
    case True
    show ?thesis
    proof (cases "p = []")
      case False
      with True 3 have "conn_until (acc @ p) c = (r, c')" by auto
      with 3 True False show ?thesis by (cases "c = []") (auto simp: conn_size_def)
    qed (use 3 in \<open>auto simp: conn_size_def\<close>)
  qed
qed (auto simp: conn_size_def)

lemma read_line_size: "read_line c = (Ok l, c') \<Longrightarrow> conn_size c' < conn_size c"
  using conn_until_size [of "[]" c] by (cases "c = []") (auto simp: read_line_def split: prod.splits sum.splits if_splits)

section \<open>The head of a response\<close>

type_synonym headers = "(str \<times> str) list"

function read_headers :: "conn \<Rightarrow> headers \<Rightarrow> headers result \<times> conn" where
  "read_headers c headers =
     (case read_line c of
        (Inl e, c') \<Rightarrow> (Err e, c')
      | (Inr line, c') \<Rightarrow>
          if line = [] then (Ok headers, c')
          else read_headers c'
                 (case split_once (ch CHR '':'') line of
                    Some (k, v) \<Rightarrow> headers @ [(str_trim k, str_trim v)]
                  | None \<Rightarrow> headers))"
  by pat_completeness auto
termination
  by (relation "measure (conn_size \<circ> fst)") (auto intro: read_line_size [OF sym])

declare read_headers.simps [simp del]

definition read_head :: "(str \<Rightarrow> str) \<Rightarrow> conn \<Rightarrow> (nat \<times> headers) result \<times> conn" where
  "read_head debug c =
     (case read_line c of
        (Inl e, c) \<Rightarrow> (Err e, c)
      | (Inr line, c) \<Rightarrow>
          (case Option.bind (get (split_whitespace line) 1) (from_str_radix 16 10) of
             None \<Rightarrow> (Err (HttpError (S ''bad status line: '' @ debug line)), c)
           | Some status \<Rightarrow>
               (case read_headers c [] of
                  (Inl e, c) \<Rightarrow> (Err e, c)
                | (Inr hs, c) \<Rightarrow> (Ok (status, hs), c))))"

definition header_of :: "headers \<Rightarrow> str \<Rightarrow> str option" where
  "header_of hs name = map_option snd (find (\<lambda>(k, _). eq_ignore_ascii_case k name) hs)"

datatype framing = FLength nat | FChunked | FToEnd

definition framing_of :: "headers \<Rightarrow> nat \<Rightarrow> framing" where
  "framing_of hs status =
     (if (case header_of hs (S ''transfer-encoding'') of
            Some v \<Rightarrow> eq_ignore_ascii_case v (S ''chunked'')
          | None \<Rightarrow> False)
      then FChunked
      else case Option.bind (header_of hs (S ''content-length'')) (\<lambda>v. parse_usize (str_trim v)) of
             Some len \<Rightarrow> FLength len
           | None \<Rightarrow> if status = 204 \<or> status = 304 then FLength 0 else FToEnd)"

definition parse_content_range_total :: "str \<Rightarrow> nat option" where
  "parse_content_range_total v = parse_usize (str_trim (after_last (ch CHR ''/'') v))"

section \<open>Requests\<close>

type_synonym byte_range = "nat \<times> nat option"

definition request_text :: "str \<Rightarrow> url \<Rightarrow> byte_range option \<Rightarrow> str" where
  "request_text version u rng =
     S ''GET '' @ ul_path u @ S '' HTTP/1.1'' @ [13, 10] @ S ''Host: '' @ ul_host u @ [13, 10] @
     S ''User-Agent: lbx/'' @ version @ [13, 10] @ S ''Accept: */*'' @ [13, 10] @
     S ''Connection: close'' @ [13, 10] @
     (case rng of
        None \<Rightarrow> []
      | Some (start, Some e) \<Rightarrow>
          S ''Range: bytes='' @ show_nat start @ S ''-'' @ show_nat e @ [13, 10]
      | Some (start, None) \<Rightarrow> S ''Range: bytes='' @ show_nat start @ S ''-'' @ [13, 10]) @
     [13, 10]"

text \<open>
  The network: the addresses of a host, dialling one of them on a port, TLS over a socket for a host
  name, and sending bytes, after which the connection delivers what the peer answers.
\<close>

record ('k, 'w) network =
  nw_resolve :: "str \<Rightarrow> 'w \<Rightarrow> ip_addr list result \<times> 'w"
  nw_dial :: "ip_addr \<Rightarrow> nat \<Rightarrow> 'w \<Rightarrow> (str + 'k) \<times> 'w"
  nw_tls :: "'k \<Rightarrow> str \<Rightarrow> 'w \<Rightarrow> 'k result \<times> 'w"
  nw_send :: "'k \<Rightarrow> bytes \<Rightarrow> 'w \<Rightarrow> (str + conn) \<times> 'w"

fun dial_any ::
  "('k, 'w) network \<Rightarrow> nat \<Rightarrow> ip_addr list \<Rightarrow> str option \<Rightarrow> 'w \<Rightarrow> (str option + 'k) \<times> 'w" where
  "dial_any nw port [] last_err w = (Inl last_err, w)"
| "dial_any nw port (ip # ips) last_err w =
     (case nw_dial nw ip port w of
        (Inr k, w) \<Rightarrow> (Inr k, w)
      | (Inl e, w) \<Rightarrow> dial_any nw port ips (Some e) w)"

definition http_connect :: "('k, 'w) network \<Rightarrow> url \<Rightarrow> 'w \<Rightarrow> 'k result \<times> 'w" where
  "http_connect nw u w =
     (case nw_resolve nw (ul_host u) w of
        (Inl e, w) \<Rightarrow> (Err e, w)
      | (Inr ips, w) \<Rightarrow>
          (case dial_any nw (ul_port u) ips None w of
             (Inl last_err, w) \<Rightarrow>
               (Err (HttpError (S ''connect '' @ ul_host u @ S '':'' @ show_nat (ul_port u) @
                  (case last_err of Some e \<Rightarrow> S '': '' @ e | None \<Rightarrow> []))), w)
           | (Inr k, w) \<Rightarrow> if ul_https u then nw_tls nw k (ul_host u) w else (Ok k, w)))"

definition send_request ::
  "('k, 'w) network \<Rightarrow> str \<Rightarrow> 'k \<Rightarrow> url \<Rightarrow> byte_range option \<Rightarrow> 'w \<Rightarrow> conn result \<times> 'w" where
  "send_request nw version k u rng w =
     (case nw_send nw k (as_bytes (request_text version u rng)) w of
        (Inl e, w) \<Rightarrow> (Err (HttpError (S ''send: '' @ e)), w)
      | (Inr c, w) \<Rightarrow> (Ok c, w))"

record resp =
  rs_status :: nat
  rs_headers :: headers
  rs_final_url :: url
  rs_conn :: conn
  rs_framing :: framing

definition is_redirect :: "nat \<Rightarrow> bool" where
  "is_redirect status \<longleftrightarrow> status \<in> {301, 302, 303, 307, 308}"

text \<open>The loop over redirects; the first argument counts the connections left.\<close>

fun request_hops ::
  "('k, 'w) network \<Rightarrow> str \<Rightarrow> (str \<Rightarrow> str) \<Rightarrow> url \<Rightarrow> byte_range option \<Rightarrow> nat \<Rightarrow> url \<Rightarrow> 'w \<Rightarrow>
   resp result \<times> 'w" where
  "request_hops nw version debug u rng 0 current w =
     (Err (HttpError (S ''too many redirects from '' @ url_display u)), w)"
| "request_hops nw version debug u rng (Suc k) current w =
     (case http_connect nw current w of
        (Inl e, w) \<Rightarrow> (Err e, w)
      | (Inr sock, w) \<Rightarrow>
          (case send_request nw version sock current rng w of
             (Inl e, w) \<Rightarrow> (Err e, w)
           | (Inr c, w) \<Rightarrow>
               (case read_head debug c of
                  (Inl e, c) \<Rightarrow> (Err e, w)
                | (Inr (status, hs), c) \<Rightarrow>
                    (case (if is_redirect status then header_of hs (S ''location'') else None) of
                       Some loc \<Rightarrow>
                         (case url_join current loc of
                            Inl e \<Rightarrow> (Err e, w)
                          | Inr next \<Rightarrow> request_hops nw version debug u rng k next w)
                     | None \<Rightarrow>
                         (Ok \<lparr>rs_status = status, rs_headers = hs, rs_final_url = current, rs_conn = c,
                              rs_framing = framing_of hs status\<rparr>, w)))))"

definition request_once ::
  "('k, 'w) network \<Rightarrow> str \<Rightarrow> (str \<Rightarrow> str) \<Rightarrow> url \<Rightarrow> byte_range option \<Rightarrow> 'w \<Rightarrow> resp result \<times> 'w" where
  "request_once nw version debug u rng w =
     request_hops nw version debug u rng (Suc MAX_REDIRECTS) u w"

text \<open>The attempts; the first argument counts the retries left.\<close>

fun request_tries ::
  "('k, 'w) network \<Rightarrow> str \<Rightarrow> (str \<Rightarrow> str) \<Rightarrow> nat \<Rightarrow> url \<Rightarrow> byte_range option \<Rightarrow> 'w \<Rightarrow>
   resp result \<times> 'w" where
  "request_tries nw version debug k u rng w =
     (case request_once nw version debug u rng w of
        (Inr r, w) \<Rightarrow> (Ok r, w)
      | (Inl e, w) \<Rightarrow>
          (case k of
             0 \<Rightarrow> (Err e, w)
           | Suc k \<Rightarrow> request_tries nw version debug k u rng w))"

definition http_request ::
  "('k, 'w) network \<Rightarrow> str \<Rightarrow> (str \<Rightarrow> str) \<Rightarrow> url \<Rightarrow> byte_range option \<Rightarrow> 'w \<Rightarrow> resp result \<times> 'w" where
  "http_request nw version debug u rng w = request_tries nw version debug MAX_RETRIES u rng w"

section \<open>Bodies\<close>

record body =
  bd_conn :: conn
  bd_framing :: framing
  bd_left :: nat
  bd_chunk_left :: nat
  bd_done :: bool

definition into_body :: "resp \<Rightarrow> body" where
  "into_body r =
     \<lparr>bd_conn = rs_conn r, bd_framing = rs_framing r,
      bd_left = (case rs_framing r of FLength n \<Rightarrow> n | _ \<Rightarrow> 0), bd_chunk_left = 0, bd_done = False\<rparr>"

text \<open>\<open>read_crlf_line\<close>: an empty line is also what the end of the stream gives.\<close>

definition read_crlf_line :: "conn \<Rightarrow> (str + str) \<times> conn" where
  "read_crlf_line c =
     (case conn_until [] c of
        (Inl e, c) \<Rightarrow> (Inl e, c)
      | (Inr raw, c) \<Rightarrow> (Inr (from_utf8_lossy (trim_end_by is_newline_byte raw)), c))"

text \<open>The loop that skips empty lines before a chunk size.\<close>

partial_function (option) chunk_line :: "conn \<Rightarrow> ((str + str) \<times> conn) option" where
  "chunk_line c =
     (case read_crlf_line c of
        (Inl e, c') \<Rightarrow> Some (Inl e, c')
      | (Inr line, c') \<Rightarrow> if line \<noteq> [] then Some (Inr line, c') else chunk_line c')"

definition take_chunk :: "nat \<Rightarrow> body \<Rightarrow> (str + bytes) \<times> body" where
  "take_chunk n b =
     (case conn_read (min n (bd_chunk_left b)) (bd_conn b) of
        (Inl e, c) \<Rightarrow> (Inl e, b\<lparr>bd_conn := c\<rparr>)
      | (Inr bs, c) \<Rightarrow> (Inr bs, b\<lparr>bd_conn := c, bd_chunk_left := bd_chunk_left b - length bs\<rparr>))"

definition read_chunked :: "(str \<Rightarrow> str) \<Rightarrow> nat \<Rightarrow> body \<Rightarrow> ((str + bytes) \<times> body) option" where
  "read_chunked debug n b =
     (if bd_chunk_left b \<noteq> 0 then Some (take_chunk n b)
      else case chunk_line (bd_conn b) of
        None \<Rightarrow> None
      | Some (Inl e, c) \<Rightarrow> Some (Inl e, b\<lparr>bd_conn := c\<rparr>)
      | Some (Inr line, c) \<Rightarrow>
          let size_hex = str_trim (hd (split_on (ch CHR '';'') line))
          in case from_str_radix 64 16 size_hex of
               None \<Rightarrow> Some (Inl (S ''bad chunk size '' @ debug size_hex), b\<lparr>bd_conn := c\<rparr>)
             | Some sz \<Rightarrow>
                 if sz = 0 then Some (Inr [], b\<lparr>bd_conn := c, bd_done := True\<rparr>)
                 else Some (take_chunk n (b\<lparr>bd_conn := c, bd_chunk_left := sz\<rparr>)))"

definition read_length :: "nat \<Rightarrow> body \<Rightarrow> (str + bytes) \<times> body" where
  "read_length n b =
     (if bd_left b = 0 then (Inr [], b\<lparr>bd_done := True\<rparr>)
      else case conn_read (min n (bd_left b)) (bd_conn b) of
             (Inl e, c) \<Rightarrow> (Inl e, b\<lparr>bd_conn := c\<rparr>)
           | (Inr bs, c) \<Rightarrow>
               (Inr bs, b\<lparr>bd_conn := c, bd_done := (bs = []), bd_left := bd_left b - length bs\<rparr>))"

definition read_to_end :: "nat \<Rightarrow> body \<Rightarrow> (str + bytes) \<times> body" where
  "read_to_end n b =
     (case conn_read n (bd_conn b) of
        (Inl e, c) \<Rightarrow> (Inl e, b\<lparr>bd_conn := c\<rparr>)
      | (Inr bs, c) \<Rightarrow> (Inr bs, b\<lparr>bd_conn := c, bd_done := (bs = [])\<rparr>))"

definition body_read :: "(str \<Rightarrow> str) \<Rightarrow> nat \<Rightarrow> body \<Rightarrow> ((str + bytes) \<times> body) option" where
  "body_read debug n b =
     (if bd_done b \<or> n = 0 then Some (Inr [], b)
      else case bd_framing b of
             FLength _ \<Rightarrow> Some (read_length n b)
           | FToEnd \<Rightarrow> Some (read_to_end n b)
           | FChunked \<Rightarrow> read_chunked debug n b)"

function body_full :: "(str \<Rightarrow> str) \<Rightarrow> nat \<Rightarrow> bytes \<Rightarrow> body \<Rightarrow> (bytes result \<times> body) option" where
  "body_full debug n buf b =
     (if \<not> length buf < n then Some (Ok buf, b)
      else case body_read debug (n - length buf) b of
             None \<Rightarrow> None
           | Some (Inl e, b') \<Rightarrow> Some (Err (HttpError (S ''read body: '' @ e)), b')
           | Some (Inr bs, b') \<Rightarrow>
               if bs = [] then Some (Err (HttpError (S ''body ended before expected length'')), b')
               else if n - length buf < length bs then Some (Err Panic, b')
               else body_full debug n (buf @ bs) b')"
  by pat_completeness auto
termination
proof (relation "measure (\<lambda>(debug, n, buf, b). n - length buf)")
  fix debug :: "str \<Rightarrow> str" and n :: nat and buf bs :: bytes and b b' :: body and x y z
  assume "\<not> \<not> length buf < n" and "bs \<noteq> []"
  then have "n - (length buf + length bs) < n - length buf" by (cases bs) auto
  then show "((debug, n, buf @ bs, b'), debug, n, buf, b) \<in> measure (\<lambda>(debug, n, buf, b). n - length buf)"
    by simp
qed simp

declare body_full.simps [simp del]

section \<open>The fetcher\<close>

record http_fetcher =
  hf_start :: url
  hf_resolved :: url

definition http_new :: "str \<Rightarrow> http_fetcher result" where
  "http_new s = rbind (url_parse s) (\<lambda>u. Ok \<lparr>hf_start = u, hf_resolved = u\<rparr>)"

definition probe_answer :: "http_fetcher \<Rightarrow> resp \<Rightarrow> probe result" where
  "probe_answer hf r =
     (if rs_status r = 206 then
        (case Option.bind (header_of (rs_headers r) (S ''content-range'')) parse_content_range_total of
           Some whole \<Rightarrow> Ok \<lparr>pr_size = of_nat whole, pr_supports_range = True\<rparr>
         | None \<Rightarrow> Err (HttpError (S ''206 without a usable Content-Range'')))
      else if rs_status r = 200 then
        (case Option.bind (header_of (rs_headers r) (S ''content-length'')) (\<lambda>v. parse_usize (str_trim v)) of
           Some sz \<Rightarrow> Ok \<lparr>pr_size = of_nat sz, pr_supports_range = False\<rparr>
         | None \<Rightarrow> Err (HttpError (S ''200 without a Content-Length'')))
      else Err (HttpError (S ''unexpected status '' @ show_nat (rs_status r) @ S '' probing '' @
                  url_display (hf_start hf))))"

definition http_probe ::
  "('k, 'w) network \<Rightarrow> str \<Rightarrow> (str \<Rightarrow> str) \<Rightarrow> http_fetcher \<Rightarrow> 'w \<Rightarrow>
   probe result \<times> http_fetcher \<times> 'w" where
  "http_probe nw version debug hf w =
     (case http_request nw version debug (hf_start hf) (Some (0, Some 0)) w of
        (Inl e, w) \<Rightarrow> (Err e, hf, w)
      | (Inr r, w) \<Rightarrow> (probe_answer hf r, hf\<lparr>hf_resolved := rs_final_url r\<rparr>, w))"

definition http_fetch_range ::
  "('k, 'w) network \<Rightarrow> str \<Rightarrow> (str \<Rightarrow> str) \<Rightarrow> http_fetcher \<Rightarrow> u64 \<Rightarrow> u64 \<Rightarrow> 'w \<Rightarrow>
   bytes result option \<times> 'w" where
  "http_fetch_range nw version debug hf a b w =
     (case http_request nw version debug (hf_resolved hf) (Some (unat a, Some (unat (b - 1)))) w of
        (Inl e, w) \<Rightarrow> (Some (Err e), w)
      | (Inr r, w) \<Rightarrow>
          if rs_status r \<noteq> 206
          then (Some (Err (HttpError (S ''expected 206 for range '' @ show_nat (unat a) @ S ''-'' @
                  show_nat (unat (b - 1)) @ S '', got '' @ show_nat (rs_status r)))), w)
          else (map_option fst (body_full debug (unat (b - a)) [] (into_body r)), w))"

definition http_fetch_all ::
  "('k, 'w) network \<Rightarrow> str \<Rightarrow> (str \<Rightarrow> str) \<Rightarrow> http_fetcher \<Rightarrow> 'w \<Rightarrow> body result \<times> 'w" where
  "http_fetch_all nw version debug hf w =
     (case http_request nw version debug (hf_resolved hf) None w of
        (Inl e, w) \<Rightarrow> (Err e, w)
      | (Inr r, w) \<Rightarrow>
          if rs_status r \<noteq> 200
          then (Err (HttpError (S ''expected 200 streaming body, got '' @ show_nat (rs_status r))), w)
          else (Ok (into_body r), w))"

section \<open>Connections that deliver\<close>

text \<open>A connection without errors and without empty pieces, and the bytes it delivers.\<close>

definition delivers :: "conn \<Rightarrow> bytes \<Rightarrow> bool" where
  "delivers c bs \<longleftrightarrow> (\<exists>ps. c = map Inr ps \<and> [] \<notin> set ps \<and> bs = concat ps)"

lemma delivers_Nil [simp]: "delivers [] bs \<longleftrightarrow> bs = []"
  by (auto simp: delivers_def)

lemma delivers_Cons:
  "delivers (x # c) bs \<longleftrightarrow> (\<exists>p bs'. x = Inr p \<and> p \<noteq> [] \<and> bs = p @ bs' \<and> delivers c bs')"
  by (auto simp: delivers_def Cons_eq_map_conv)

lemma conn_read_delivers:
  assumes "delivers c bs" and "0 < n"
  shows "\<exists>k c'. conn_read n c = (Inr (take k bs), c') \<and> delivers c' (drop k bs) \<and> k \<le> n \<and> (bs \<noteq> [] \<longrightarrow> 0 < k)"
proof (cases c)
  case Nil
  with assms show ?thesis by (auto simp: conn_read_def)
next
  case (Cons x c')
  with assms(1) obtain p bs' where p: "x = Inr p" "p \<noteq> []" "bs = p @ bs'" "delivers c' bs'"
    by (auto simp: delivers_Cons)
  show ?thesis
  proof (cases "length p \<le> n")
    case True
    then have "conn_read n c = (Inr (take (length p) bs), c')" "delivers c' (drop (length p) bs)"
      using Cons p by (simp_all add: conn_read_def)
    with True p(2) show ?thesis by (intro exI [of _ "length p"] exI [of _ c']) simp
  next
    case False
    then have "conn_read n c = (Inr (take n bs), Inr (drop n p) # c')" "delivers (Inr (drop n p) # c') (drop n bs)"
      using Cons p by (simp_all add: conn_read_def delivers_Cons)
    with assms(2) show ?thesis by (intro exI [of _ n] exI [of _ "Inr (drop n p) # c'"]) simp
  qed
qed

lemma conn_until_delivers:
  "delivers c (a @ 10 # b) \<Longrightarrow> 10 \<notin> set a \<Longrightarrow>
   \<exists>c'. conn_until acc c = (Inr (acc @ a @ [10]), c') \<and> delivers c' b"
proof (induction c arbitrary: a acc)
  case (Cons x c)
  from Cons.prems(1) obtain p bs where p: "x = Inr p" "p \<noteq> []" "a @ 10 # b = p @ bs" "delivers c bs"
    by (auto simp: delivers_Cons)
  show ?case
  proof (cases "length p \<le> length a")
    case True
    with p(3) obtain a' where a: "a = p @ a'" by (metis append_eq_append_conv_if append_take_drop_id)
    with Cons.prems(2) have "split_once 10 p = None" by (auto simp: split_once_None)
    moreover have "delivers c (a' @ 10 # b)" using p a by simp
    from Cons.IH [OF this, of "acc @ p"] Cons.prems(2) a obtain c' where
      "conn_until (acc @ p) c = (Inr ((acc @ p) @ a' @ [10]), c')" "delivers c' b" by auto
    ultimately show ?thesis using p(1,2) a by simp
  next
    case False
    from p(3) False obtain d where d: "p = a @ 10 # d" "b = d @ bs"
      by (auto simp: append_eq_append_conv2 Cons_eq_append_conv)
    have "split_once 10 p = Some (a, d)"
      unfolding d(1) using Cons.prems(2) by (intro split_once_append) auto
    with p(1,2) d(2) p(4) show ?thesis by (auto simp: delivers_Cons)
  qed
qed simp

section \<open>A chunked body\<close>

definition crlf :: bytes where
  "crlf = [13, 10]"

definition ascii_bytes :: "str \<Rightarrow> bytes" where
  "ascii_bytes s = map of_nat s"

definition size_line :: "nat \<Rightarrow> bytes" where
  "size_line n = ascii_bytes (show_hex n) @ crlf"

text \<open>The chunks of a body as they are sent, with the last chunk of size 0 if the body is \<open>whole\<close>.\<close>

definition chunked_bytes :: "bool \<Rightarrow> bytes list \<Rightarrow> bytes" where
  "chunked_bytes whole cs =
     concat (map (\<lambda>c. size_line (length c) @ c @ crlf) cs) @ (if whole then size_line 0 @ crlf else [])"

lemma chunked_bytes_simps:
  "chunked_bytes True [] = size_line 0 @ crlf"
  "chunked_bytes False [] = []"
  "chunked_bytes whole (c # cs) = size_line (length c) @ c @ crlf @ chunked_bytes whole cs"
  by (simp_all add: chunked_bytes_def)

lemma show_hex_char: "c \<in> set (show_hex n) \<Longrightarrow> 48 \<le> c \<and> c \<le> 102 \<and> c \<noteq> 59"
  using show_base_chars [of 16 c n] by (auto simp: digit_char_def split: if_splits)

lemma size_line_text:
  "from_utf8_lossy (ascii_bytes (show_hex n)) = show_hex n"
  "10 \<notin> set (ascii_bytes (show_hex n))" "13 \<notin> set (ascii_bytes (show_hex n))"
proof -
  have u: "unat (of_nat c :: u8) = c" if "c \<in> set (show_hex n)" for c
    using show_hex_char [OF that] by simp
  have m: "map unat (ascii_bytes (show_hex n)) = show_hex n"
    unfolding ascii_bytes_def list.map_comp by (rule map_idI) (simp only: comp_apply u)
  have "\<forall>b \<in> set (ascii_bytes (show_hex n)). unat b < 128"
    using show_hex_char by (fastforce simp: ascii_bytes_def u)
  then have "from_utf8_lossy (ascii_bytes (show_hex n)) = map unat (ascii_bytes (show_hex n))"
    by (intro from_utf8_lossy_ascii) (simp add: word_less_nat_alt)
  with m show "from_utf8_lossy (ascii_bytes (show_hex n)) = show_hex n" by simp
  have "unat b \<noteq> 10 \<and> unat b \<noteq> 13" if "b \<in> set (ascii_bytes (show_hex n))" for b
    using that show_hex_char by (fastforce simp: ascii_bytes_def u)
  then show "10 \<notin> set (ascii_bytes (show_hex n))" "13 \<notin> set (ascii_bytes (show_hex n))" by fastforce+
qed

lemma crlf_line:
  assumes "delivers c (a @ crlf @ b)" and "10 \<notin> set a" and "13 \<notin> set a"
  shows "\<exists>c'. read_crlf_line c = (Inr (from_utf8_lossy a), c') \<and> delivers c' b"
proof -
  have "delivers c ((a @ [13]) @ 10 # b)" using assms(1) by (simp add: crlf_def)
  from conn_until_delivers [OF this, of "[]"] assms(2) obtain c' where
    "conn_until [] c = (Inr (a @ [13, 10]), c')" "delivers c' b" by auto
  moreover have "trim_end_by is_newline_byte (a @ [13, 10]) = a"
    using assms(2,3) by (cases a rule: rev_cases) (auto simp: trim_end_by_def is_newline_byte_def)
  ultimately show ?thesis by (simp add: read_crlf_line_def)
qed

lemma size_chunk_line:
  assumes "delivers c (size_line n @ b)"
  shows "\<exists>c'. chunk_line c = Some (Inr (show_hex n), c') \<and> delivers c' b"
proof -
  have "delivers c (ascii_bytes (show_hex n) @ crlf @ b)" using assms by (simp add: size_line_def)
  from crlf_line [OF this size_line_text(2,3)] obtain c' where
    "read_crlf_line c = (Inr (show_hex n), c')" "delivers c' b" by (auto simp: size_line_text(1))
  then show ?thesis by (subst chunk_line.simps) simp
qed

lemma skip_crlf:
  assumes "delivers c (crlf @ b)"
  shows "\<exists>c'. chunk_line c = chunk_line c' \<and> delivers c' b"
proof -
  from crlf_line [of c "[]" b] assms obtain c' where "read_crlf_line c = (Inr [], c')" "delivers c' b" by auto
  then show ?thesis by (subst chunk_line.simps) auto
qed

lemma hex_size: "n < 2 ^ 64 \<Longrightarrow> from_str_radix 64 16 (str_trim (hd (split_on (ch CHR '';'') (show_hex n)))) = Some n"
proof -
  assume n: "n < 2 ^ 64"
  have "split_on (ch CHR '';'') (show_hex n) = [show_hex n]"
    by (rule split_on_plain) (use show_hex_char in force)
  moreover have "\<not> is_whitespace c" if "c \<in> set (show_hex n)" for c
    using show_hex_char [OF that] by (simp add: not_whitespace_ascii)
  then have "str_trim (show_hex n) = show_hex n" by (intro str_trim_id) auto
  ultimately show ?thesis using n by (simp add: from_str_radix_show)
qed

text \<open>
  Where a chunked body stands: \<open>p\<close> is left of the chunk it is in, \<open>cs\<close> are the chunks after it. Between
  chunks the line end of the one before may still be ahead.
\<close>

definition chunked_at :: "bool \<Rightarrow> body \<Rightarrow> bytes \<Rightarrow> bytes list \<Rightarrow> bool" where
  "chunked_at whole b p cs \<longleftrightarrow>
     bd_framing b = FChunked \<and> \<not> bd_done b \<and> bd_chunk_left b = length p \<and>
     (delivers (bd_conn b) (p @ crlf @ chunked_bytes whole cs) \<or> p = [] \<and> delivers (bd_conn b) (chunked_bytes whole cs))"

definition chunks_fit :: "bytes list \<Rightarrow> bool" where
  "chunks_fit cs \<longleftrightarrow> (\<forall>c \<in> set cs. c \<noteq> [] \<and> length c < 2 ^ 64)"

lemma take_chunk_at:
  assumes "bd_framing b = FChunked" and "\<not> bd_done b" and "bd_chunk_left b = length p"
    and "delivers (bd_conn b) (p @ crlf @ chunked_bytes whole cs)" and "0 < n" and "p \<noteq> []"
  shows "\<exists>k b'. take_chunk n b = (Inr (take k p), b') \<and> chunked_at whole b' (drop k p) cs \<and> 0 < k \<and> k \<le> n"
proof -
  let ?rest = "crlf @ chunked_bytes whole cs"
  have m: "0 < min n (length p)" using assms(5,6) by simp
  from conn_read_delivers [OF assms(4) m] assms(6) obtain k c' where
    k: "conn_read (min n (length p)) (bd_conn b) = (Inr (take k (p @ ?rest)), c')"
      "delivers c' (drop k (p @ ?rest))" "k \<le> min n (length p)" "0 < k" by auto
  let ?b = "b\<lparr>bd_conn := c', bd_chunk_left := length p - k\<rparr>"
  have "take_chunk n b = (Inr (take k p), ?b)" using k(1,3) assms(3) by (simp add: take_chunk_def)
  moreover have "chunked_at whole ?b (drop k p) cs" using k(2,3) assms(1,2) by (simp add: chunked_at_def)
  ultimately show ?thesis using k(3,4) by auto
qed

lemma chunk_line_end: "chunk_line [] = None"
proof -
  have "chunk_line c = Some y \<Longrightarrow> c \<noteq> []" for c y
  proof (induction rule: chunk_line.raw_induct [rotated, consumes 1])
    case (1 cl c y)
    then show ?case by (cases y; cases c) (auto simp: read_crlf_line_def trim_end_by_def from_utf8_lossy_def)
  qed
  then show ?thesis by (cases "chunk_line []") auto
qed

lemma chunked_at_between:
  assumes "chunked_at whole b [] cs"
  obtains c where "chunk_line (bd_conn b) = chunk_line c" and "delivers c (chunked_bytes whole cs)"
  using assms skip_crlf unfolding chunked_at_def by (metis append_Nil)

lemma body_read_chunk_line:
  assumes "chunked_at whole b [] cs" and "0 < n"
  shows "body_read debug n b = read_chunked debug n b" and "bd_chunk_left b = 0"
  using assms by (auto simp: body_read_def chunked_at_def)

lemma body_read_chunked:
  assumes "chunked_at whole b p cs" and "chunks_fit cs" and "0 < n" and "p @ concat cs \<noteq> []"
  shows "\<exists>k b' p' cs'. body_read debug n b = Some (Inr (take k (p @ concat cs)), b') \<and> k \<le> n \<and> 0 < k \<and>
    chunked_at whole b' p' cs' \<and> chunks_fit cs' \<and> p' @ concat cs' = drop k (p @ concat cs)"
proof (cases "p = []")
  case False
  with assms(1) have "delivers (bd_conn b) (p @ crlf @ chunked_bytes whole cs)" by (simp add: chunked_at_def)
  from take_chunk_at [OF _ _ _ this assms(3) False] assms(1) obtain k b' where
    k: "take_chunk n b = (Inr (take k p), b')" "chunked_at whole b' (drop k p) cs" "0 < k" "k \<le> n"
    by (auto simp: chunked_at_def)
  have "body_read debug n b = Some (take_chunk n b)"
    using assms(1,3) False by (simp add: body_read_def read_chunked_def chunked_at_def)
  moreover have "take (min k (length p)) (p @ concat cs) = take k p"
    "drop k p @ concat cs = drop (min k (length p)) (p @ concat cs)" by (simp_all add: min_def)
  ultimately show ?thesis using k False assms(2)
    by (intro exI [of _ "min k (length p)"] exI [of _ b'] exI [of _ "drop k p"] exI [of _ cs]) auto
next
  case True
  with assms(4) obtain d ds where Cons: "cs = d # ds" by (cases cs) auto
  from assms(1) True have at: "chunked_at whole b [] cs" by simp
  from at obtain c where c: "chunk_line (bd_conn b) = chunk_line c" "delivers c (chunked_bytes whole cs)"
    by (rule chunked_at_between)
  with Cons have "delivers c (size_line (length d) @ d @ crlf @ chunked_bytes whole ds)" by (simp add: chunked_bytes_simps)
  from size_chunk_line [OF this] c(1) obtain c' where
    c': "chunk_line (bd_conn b) = Some (Inr (show_hex (length d)), c')" "delivers c' (d @ crlf @ chunked_bytes whole ds)" by auto
  have fit: "d \<noteq> []" "length d < 2 ^ 64" "chunks_fit ds" using assms(2) Cons by (auto simp: chunks_fit_def)
  let ?b = "b\<lparr>bd_conn := c', bd_chunk_left := length d\<rparr>"
  have "body_read debug n b = Some (take_chunk n ?b)"
    using body_read_chunk_line [OF at assms(3)] c'(1) hex_size [OF fit(2)] fit(1) by (simp add: read_chunked_def)
  moreover from take_chunk_at [of ?b d whole ds n] at c'(2) assms(3) fit(1) obtain k b' where
    k: "take_chunk n ?b = (Inr (take k d), b')" "chunked_at whole b' (drop k d) ds" "0 < k" "k \<le> n"
    by (auto simp: chunked_at_def)
  moreover have "take (min k (length d)) (concat cs) = take k d"
    "drop k d @ concat ds = drop (min k (length d)) (concat cs)" using Cons by (simp_all add: min_def)
  ultimately show ?thesis using True fit
    by (intro exI [of _ "min k (length d)"] exI [of _ b'] exI [of _ "drop k d"] exI [of _ ds]) auto
qed

text \<open>
  At the last chunk the read returns nothing. Where the connection closed instead, the loop that skips
  empty lines reads an empty line for ever.
\<close>

lemma body_read_end:
  assumes "chunked_at whole b [] []" and "0 < n"
  shows "if whole then \<exists>b'. body_read debug n b = Some (Inr [], b') else body_read debug n b = None"
proof -
  from assms(1) obtain c where c: "chunk_line (bd_conn b) = chunk_line c" "delivers c (chunked_bytes whole [])"
    by (rule chunked_at_between)
  show ?thesis
  proof (cases whole)
    case True
    with c(2) have "delivers c (size_line 0 @ crlf)" by (simp add: chunked_bytes_simps)
    from size_chunk_line [OF this] c(1) obtain c' where "chunk_line (bd_conn b) = Some (Inr (show_hex 0), c')" by auto
    then show ?thesis using body_read_chunk_line [OF assms] hex_size [of 0] True by (simp add: read_chunked_def)
  next
    case False
    with c(2) have "c = []" by (cases c) (auto simp: chunked_bytes_simps delivers_Cons)
    with c(1) show ?thesis using body_read_chunk_line [OF assms] False by (simp add: read_chunked_def chunk_line_end)
  qed
qed

definition full_outcome :: "bool \<Rightarrow> nat \<Rightarrow> bytes \<Rightarrow> bytes result option" where
  "full_outcome whole n content =
     (if n \<le> length content then Some (Ok (take n content))
      else if whole then Some (Err (HttpError (S ''body ended before expected length'')))
      else None)"

lemma body_full_step:
  assumes "length buf < n" and "body_read debug (n - length buf) b = Some (Inr bs, b')"
    and "bs \<noteq> []" and "length bs \<le> n - length buf"
  shows "body_full debug n buf b = body_full debug n (buf @ bs) b'"
  using assms by (subst body_full.simps) simp

lemma full_outcome_more:
  "k \<le> length rest \<Longrightarrow> full_outcome whole n ((buf @ take k rest) @ drop k rest) = full_outcome whole n (buf @ rest)"
  by simp

lemma body_full_chunked:
  "chunked_at whole b p cs \<Longrightarrow> chunks_fit cs \<Longrightarrow> length buf \<le> n \<Longrightarrow>
   map_option fst (body_full debug n buf b) = full_outcome whole n (buf @ p @ concat cs)"
proof (induction "n - length buf" arbitrary: buf b p cs rule: less_induct)
  case less
  let ?rest = "p @ concat cs"
  consider "length buf = n" | "length buf < n" "?rest = []" | "length buf < n" "?rest \<noteq> []"
    using less.prems(3) by linarith
  then show ?case
  proof cases
    case 1
    then show ?thesis by (subst body_full.simps) (simp add: full_outcome_def)
  next
    case 2
    with less.prems(2) have none: "p = []" "cs = []" by (cases cs; auto simp: chunks_fit_def)+
    with less.prems(1) have "chunked_at whole b [] []" by simp
    from body_read_end [OF this, of "n - length buf" debug] 2(1) none show ?thesis
      by (subst body_full.simps) (auto simp: full_outcome_def split: if_splits)
  next
    case 3
    obtain k b' p' cs' where k: "body_read debug (n - length buf) b = Some (Inr (take k ?rest), b')"
      "k \<le> n - length buf" "0 < k" "chunked_at whole b' p' cs'" "chunks_fit cs'" "p' @ concat cs' = drop k ?rest"
      using body_read_chunked [OF less.prems(1,2), of "n - length buf" debug] 3 by auto
    let ?buf = "buf @ take k ?rest"
    have le: "length (take k ?rest) \<le> n - length buf" using k(2) unfolding length_take by linarith
    have pos: "0 < length (take k ?rest)" using 3(2) k(3) unfolding length_take by simp
    have "body_full debug n buf b = body_full debug n ?buf b'"
      by (rule body_full_step [OF 3(1) k(1) _ le]) (use pos in \<open>unfold length_greater_0_conv\<close>)
    moreover have "map_option fst (body_full debug n ?buf b') = full_outcome whole n (?buf @ p' @ concat cs')"
      by (rule less.hyps [OF _ k(4,5)]) (use le pos 3(1) in \<open>unfold length_append, linarith+\<close>)
    ultimately show ?thesis unfolding k(6) by (simp only: append_assoc append_take_drop_id)
  qed
qed

text \<open>
  C35: a chunked answer to a range request: with chunks for the whole range the fetch returns their bytes; with a
  last chunk before that it is an error; and when the server closes the connection between two chunks the
  fetch never returns, since the loop that skips empty lines takes the end of the stream for one.
\<close>

theorem chunked_range:
  assumes "http_request nw version debug (hf_resolved hf) (Some (unat a, Some (unat (b - 1)))) w = (Ok r, w')"
    and "rs_status r = 206" and "rs_framing r = FChunked"
    and "delivers (rs_conn r) (chunked_bytes whole cs)" and "chunks_fit cs"
  shows "http_fetch_range nw version debug hf a b w =
     ((if unat (b - a) \<le> length (concat cs) then Some (Ok (take (unat (b - a)) (concat cs)))
       else if whole then Some (Err (HttpError (S ''body ended before expected length'')))
       else None), w')"
proof -
  have "chunked_at whole (into_body r) [] cs" using assms(3,4) by (simp add: chunked_at_def into_body_def)
  from body_full_chunked [OF this assms(5), of "[]" "unat (b - a)" debug]
  show ?thesis using assms(1,2) by (simp add: http_fetch_range_def full_outcome_def)
qed

text \<open>A server that sends two chunks of a file and closes.\<close>

definition demo_net :: "(unit, unit) network" where
  "demo_net =
     \<lparr>nw_resolve = (\<lambda>_ w. (Ok [V4 [127, 0, 0, 1]], w)), nw_dial = (\<lambda>_ _ w. (Inr (), w)),
      nw_tls = (\<lambda>k _ w. (Ok k, w)),
      nw_send = (\<lambda>_ _ w. (Inr [Inr (as_bytes (S ''HTTP/1.1 206 Partial'' @ [13, 10] @
        S ''Transfer-Encoding: chunked'' @ [13, 10, 13, 10])), Inr (chunked_bytes False [[1, 2], [3]])], w))\<rparr>"

definition demo_url :: url where
  "demo_url = \<lparr>ul_https = False, ul_host = S ''h'', ul_port = 80, ul_path = S ''/''\<rparr>"

definition demo_fetcher :: http_fetcher where
  "demo_fetcher = \<lparr>hf_start = demo_url, hf_resolved = demo_url\<rparr>"

definition demo_resp :: resp where
  "demo_resp =
     \<lparr>rs_status = 206, rs_headers = [(S ''Transfer-Encoding'', S ''chunked'')], rs_final_url = demo_url,
      rs_conn = [Inr (chunked_bytes False [[1, 2], [3]])], rs_framing = FChunked\<rparr>"

lemma demo_request:
  "http_request demo_net (S ''0'') (\<lambda>s. s) (hf_resolved demo_fetcher) (Some (0, Some n)) () = (Ok demo_resp, ())"
  by code_simp

lemma demo_resp:
  "rs_status demo_resp = 206" "rs_framing demo_resp = FChunked"
  "delivers (rs_conn demo_resp) (chunked_bytes False [[1, 2], [3]])" "chunks_fit [[1, 2], [3]]"
  by (simp_all add: demo_resp_def delivers_Cons chunked_bytes_simps size_line_def crlf_def chunks_fit_def)

lemma chunked_range_witness:
  "http_fetch_range demo_net (S ''0'') (\<lambda>s. s) demo_fetcher 0 2 () = (Some (Ok [1, 2]), ()) \<and>
   http_fetch_range demo_net (S ''0'') (\<lambda>s. s) demo_fetcher 0 4 () = (None, ())"
proof
  have "unat (0 :: u64) = 0" by simp
  note closed = chunked_range [OF demo_request [folded this] demo_resp]
  show "http_fetch_range demo_net (S ''0'') (\<lambda>s. s) demo_fetcher 0 2 () = (Some (Ok [1, 2]), ())"
    unfolding closed by simp
  show "http_fetch_range demo_net (S ''0'') (\<lambda>s. s) demo_fetcher 0 4 () = (None, ())"
    unfolding closed by simp
qed

end
