(* ===== verification/Http_Source.thy ===== *)
theory Http_Source
  imports Http
begin

text \<open>
  The HTTP client as the fetcher behind the remote reader (\<open>impl RangeFetcher for HttpFetcher\<close>,
  src/src/source/http.rs). The theory composes \<open>Http\<close> and \<open>Remote\<close>: over a network whose servers answer
  honestly, the client keeps the contract \<open>remote_source\<close>, so that an image opened by its URL reads as
  the file behind it. A connection may fail or end at any point of an answer, and deliver anything
  after that; only a chunked answer has to come whole, since one that breaks off between chunks is
  waited for for ever (\<open>Http.chunked_range\<close>).
\<close>

section \<open>The fetcher\<close>

text \<open>
  The state is the fetcher's \<open>resolved\<close> URL and the world. A call that never returns is \<open>None\<close>, here as
  there.
\<close>

definition http_source ::
  "('k, 'w) network \<Rightarrow> str \<Rightarrow> (str \<Rightarrow> str) \<Rightarrow> (body, http_fetcher \<times> 'w) fetcher" where
  "http_source nw version debug =
     \<lparr>ft_probe = (\<lambda>(hf, w). case http_probe nw version debug hf w of (r, hf, w) \<Rightarrow> (r, (hf, w))),
      ft_range = (\<lambda>a b (hf, w). case http_fetch_range nw version debug hf a b w of
        (r, w) \<Rightarrow> (r, (hf, w))),
      ft_all = (\<lambda>(hf, w). case http_fetch_all nw version debug hf w of (r, w) \<Rightarrow> (r, (hf, w))),
      ft_read = (\<lambda>b n w. case body_read debug n b of
        Some (x, b') \<Rightarrow> (Some x, b', w)
      | None \<Rightarrow> (None, b, w))\<rparr>"

section \<open>Honest servers\<close>

text \<open>
  A connection that delivers the content \<open>f\<close> from \<open>p\<close> on, in pieces, until it ends or a read of it fails;
  what it does after that is open.
\<close>

fun cut_conn :: "(nat \<Rightarrow> u8) \<Rightarrow> nat \<Rightarrow> conn \<Rightarrow> bool" where
  "cut_conn f p [] = True"
| "cut_conn f p (Inl e # c) = True"
| "cut_conn f p (Inr bs # c) = (bs = [] \<or> bs = segment f p (length bs) \<and> cut_conn f (p + length bs) c)"

text \<open>A body with the content from \<open>p\<close> on: cut anywhere, or in chunks that come whole.\<close>

definition body_answer :: "(nat \<Rightarrow> u8) \<Rightarrow> nat \<Rightarrow> framing \<Rightarrow> conn \<Rightarrow> bool" where
  "body_answer f p fr c \<longleftrightarrow>
     (if fr \<noteq> FChunked then cut_conn f p c
      else \<exists>cs. delivers c (chunked_bytes True cs) \<and> chunks_fit cs \<and>
        concat cs = segment f p (length (concat cs)))"

text \<open>
  What an answer to a request says, if its head can be read: a 206 belongs to the range asked for and has
  its bytes; a 200 to a request of everything has the content from its start; and sizes are those of
  the content.
\<close>

definition honest_answer ::
  "(nat \<Rightarrow> u8) \<Rightarrow> u64 \<Rightarrow> byte_range option \<Rightarrow> nat \<Rightarrow> headers \<Rightarrow> conn \<Rightarrow> bool" where
  "honest_answer f sz rng status hs c \<longleftrightarrow>
     (status = 206 \<longrightarrow> (\<exists>a b. rng = Some (a, Some b) \<and> body_answer f a (framing_of hs status) c) \<and>
        Option.bind (header_of hs (S ''content-range'')) parse_content_range_total \<in> {None, Some (unat sz)}) \<and>
     (status = 200 \<longrightarrow> (rng = None \<longrightarrow> body_answer f 0 (framing_of hs status) c) \<and>
        Option.bind (header_of hs (S ''content-length'')) (\<lambda>v. parse_usize (str_trim v)) \<in> {None, Some (unat sz)})"

definition honest ::
  "('k, 'w) network \<Rightarrow> str \<Rightarrow> (str \<Rightarrow> str) \<Rightarrow> (nat \<Rightarrow> u8) \<Rightarrow> u64 \<Rightarrow> bool" where
  "honest nw version debug f sz \<longleftrightarrow>
     (\<forall>host w. fst (nw_resolve nw host w) \<noteq> Err Panic) \<and> (\<forall>k host w. fst (nw_tls nw k host w) \<noteq> Err Panic) \<and>
     (\<forall>k u rng w c w' status hs c'.
        nw_send nw k (as_bytes (request_text version u rng)) w = (Inr c, w') \<longrightarrow>
        read_head debug c = (Ok (status, hs), c') \<longrightarrow> honest_answer f sz rng status hs c')"

section \<open>Requests do not panic and pass honest answers on\<close>

lemma read_line_no_panic: "read_line c = (Inl e, c') \<Longrightarrow> e \<noteq> Panic"
  by (auto simp: read_line_def split: prod.splits sum.splits if_splits)

lemma read_headers_no_panic: "read_headers c hs = (Inl e, c') \<Longrightarrow> e \<noteq> Panic"
proof (induction c hs rule: read_headers.induct)
  case (1 c hs)
  obtain x c1 where x: "read_line c = (x, c1)" by fastforce
  show ?case
  proof (cases x)
    case (Inl e')
    with 1(2) x show ?thesis by (subst (asm) read_headers.simps) (auto dest: read_line_no_panic)
  next
    case (Inr line)
    show ?thesis
    proof (cases "line = []")
      case True
      with 1(2) x Inr show ?thesis by (subst (asm) read_headers.simps) simp
    next
      case False
      with 1(2) x Inr have "read_headers c1 (case split_once (ch CHR '':'') line of
          Some (k, v) \<Rightarrow> hs @ [(str_trim k, str_trim v)] | None \<Rightarrow> hs) = (Inl e, c')"
        by (subst (asm) read_headers.simps) simp
      with 1(1) [OF x [symmetric] Inr False] show ?thesis .
    qed
  qed
qed

lemma read_head_no_panic: "read_head debug c = (Inl e, c') \<Longrightarrow> e \<noteq> Panic"
  by (auto simp: read_head_def dest: read_line_no_panic read_headers_no_panic split: prod.splits sum.splits option.splits)

lemma url_no_panic: "url_parse s = Inl e \<Longrightarrow> e \<noteq> Panic" "url_join u loc = Inl e' \<Longrightarrow> e' \<noteq> Panic"
proof -
  show parse: "url_parse s = Inl e \<Longrightarrow> e \<noteq> Panic" for s e
    by (auto simp: url_parse_def host_port_def rbind_def Let_def split: option.splits sum.splits if_splits prod.splits)
  show "url_join u loc = Inl e' \<Longrightarrow> e' \<noteq> Panic"
    by (auto simp: url_join_def Let_def dest: parse split: option.splits if_splits)
qed

lemma http_connect_no_panic:
  assumes "honest nw version debug f sz" and "http_connect nw u w = (Inl e, w')"
  shows "e \<noteq> Panic"
proof -
  have resolve: "nw_resolve nw host w \<noteq> (Inl Panic, w')" and tls: "nw_tls nw k host w \<noteq> (Inl Panic, w')" for host w w' k
    using assms(1) unfolding honest_def by (metis fst_conv)+
  show ?thesis using assms(2)
    by (auto simp: http_connect_def resolve tls split: prod.splits sum.splits if_splits)
qed

definition honest_resp :: "(nat \<Rightarrow> u8) \<Rightarrow> u64 \<Rightarrow> byte_range option \<Rightarrow> resp result \<Rightarrow> bool" where
  "honest_resp f sz rng x \<longleftrightarrow>
     (case x of
        Inl e \<Rightarrow> e \<noteq> Panic
      | Inr r \<Rightarrow> honest_answer f sz rng (rs_status r) (rs_headers r) (rs_conn r) \<and>
          rs_framing r = framing_of (rs_headers r) (rs_status r))"

lemma request_hops_honest:
  assumes "honest nw version debug f sz"
  shows "request_hops nw version debug u rng k current w = (x, w') \<Longrightarrow> honest_resp f sz rng x"
proof (induction k arbitrary: current w)
  case 0
  then show ?case by (auto simp: honest_resp_def)
next
  case (Suc k)
  obtain y w1 where y: "http_connect nw current w = (y, w1)" by fastforce
  show ?case
  proof (cases y)
    case (Inl e)
    with Suc.prems y http_connect_no_panic [OF assms, of current w e w1] show ?thesis
      by (auto simp: honest_resp_def)
  next
    case sock: (Inr sock)
    obtain z w2 where z: "nw_send nw sock (as_bytes (request_text version current rng)) w1 = (z, w2)" by fastforce
    show ?thesis
    proof (cases z)
      case (Inl e)
      with Suc.prems y sock z show ?thesis by (auto simp: honest_resp_def send_request_def)
    next
      case c: (Inr c)
      obtain h c1 where h: "read_head debug c = (h, c1)" by fastforce
      show ?thesis
      proof (cases h)
        case (Inl e)
        with Suc.prems y sock z c h read_head_no_panic [of debug c e c1] show ?thesis
          by (auto simp: honest_resp_def send_request_def)
      next
        case (Inr sh)
        obtain status hs where sh: "sh = (status, hs)" by fastforce
        have ans: "honest_answer f sz rng status hs c1"
          using assms z [unfolded c] h [unfolded Inr sh] unfolding honest_def by blast
        note facts = Suc.prems y sock z c h Inr sh
        show ?thesis
        proof (cases "if is_redirect status then header_of hs (S ''location'') else None")
          case None
          with facts ans show ?thesis by (auto simp: honest_resp_def send_request_def)
        next
          case (Some loc)
          show ?thesis
          proof (cases "url_join current loc")
            case (Inl e)
            with facts Some url_no_panic(2) [of current loc e] show ?thesis
              by (auto simp: honest_resp_def send_request_def)
          next
            case (Inr u')
            with facts Some have "request_hops nw version debug u rng k u' w2 = (x, w')"
              by (simp add: send_request_def)
            then show ?thesis by (rule Suc.IH)
          qed
        qed
      qed
    qed
  qed
qed

lemma request_tries_honest:
  assumes "honest nw version debug f sz"
  shows "request_tries nw version debug k u rng w = (x, w') \<Longrightarrow> honest_resp f sz rng x"
proof (induction k arbitrary: w)
  case 0
  obtain y w1 where y: "request_once nw version debug u rng w = (y, w1)" by fastforce
  then have "honest_resp f sz rng y" unfolding request_once_def by (rule request_hops_honest [OF assms])
  with 0 y show ?case by (cases y) auto
next
  case (Suc k)
  obtain y w1 where y: "request_once nw version debug u rng w = (y, w1)" by fastforce
  then have "honest_resp f sz rng y" unfolding request_once_def by (rule request_hops_honest [OF assms])
  with Suc y show ?case by (cases y) auto
qed

lemma http_request_honest:
  "honest nw version debug f sz \<Longrightarrow> http_request nw version debug u rng w = (x, w') \<Longrightarrow> honest_resp f sz rng x"
  unfolding http_request_def by (rule request_tries_honest)


section \<open>Bodies of honest answers\<close>

lemma conn_read_cut:
  assumes "cut_conn f p c" and "0 < n" and "conn_read n c = (Inr bs, c')"
  shows "length bs \<le> n \<and> bs = segment f p (length bs) \<and> (bs \<noteq> [] \<longrightarrow> cut_conn f (p + length bs) c')"
proof (cases "bs = []")
  case False
  with assms(2,3) obtain ps d where c: "c = Inr ps # d" "ps \<noteq> []"
    by (cases c) (auto simp: conn_read_def split: sum.splits)
  with assms(1) have ps: "ps = segment f p (length ps)" "cut_conn f (p + length ps) d" by auto
  show ?thesis
  proof (cases "length ps \<le> n")
    case True
    with c assms(3) ps show ?thesis by (auto simp: conn_read_def)
  next
    case False
    have "take n ps = segment f p n" using ps(1) False take_segment [of n "length ps" f p] by simp
    moreover have "drop n ps = segment f (p + n) (length (drop n ps))"
      using ps(1) drop_segment [of n f p "length ps"] by simp
    ultimately show ?thesis using c assms(2,3) ps(2) False by (auto simp: conn_read_def)
  qed
qed simp

text \<open>Where the body of an honest answer stands.\<close>

definition body_stands :: "(nat \<Rightarrow> u8) \<Rightarrow> body \<Rightarrow> nat \<Rightarrow> bool" where
  "body_stands f b p \<longleftrightarrow> \<not> bd_done b \<and>
     (if bd_framing b \<noteq> FChunked then cut_conn f p (bd_conn b)
      else \<exists>left cs. chunked_at True b left cs \<and> chunks_fit cs \<and>
        left @ concat cs = segment f p (length (left @ concat cs)))"

definition read_stands :: "(nat \<Rightarrow> u8) \<Rightarrow> nat \<Rightarrow> nat \<Rightarrow> (str + bytes) \<Rightarrow> body \<Rightarrow> bool" where
  "read_stands f p n x b' \<longleftrightarrow>
     (\<forall>bs. x = Inr bs \<longrightarrow> length bs \<le> n \<and> bs = segment f p (length bs) \<and>
        (bs \<noteq> [] \<longrightarrow> body_stands f b' (p + length bs)))"

lemma body_read_plain:
  assumes "body_stands f b p" and "0 < n" and "bd_framing b \<noteq> FChunked"
  shows "\<exists>x b'. body_read debug n b = Some (x, b') \<and> read_stands f p n x b'"
proof -
  obtain x c' where m: "conn_read n (bd_conn b) = (x, c')" by fastforce
  obtain y d' where k: "conn_read (min n (bd_left b)) (bd_conn b) = (y, d')" by fastforce
  have cut: "cut_conn f p (bd_conn b)" and live: "\<not> bd_done b" using assms(1,3) by (simp_all add: body_stands_def)
  show ?thesis
  proof (cases "bd_framing b")
    case (FLength l)
    show ?thesis
    proof (cases "bd_left b = 0")
      case True
      with FLength assms live show ?thesis by (simp add: body_read_def read_length_def read_stands_def)
    next
      case False
      obtain b' where b': "body_read debug n b = Some (y, b')" "bd_conn b' = d'" "bd_framing b' = bd_framing b"
        "bd_done b' = (y = Inr [])"
        using FLength False assms k live by (cases y) (auto simp: body_read_def read_length_def)
      have "read_stands f p n y b'"
        unfolding read_stands_def
      proof (intro allI impI)
        fix bs assume y: "y = Inr bs"
        with conn_read_cut [OF cut _ k [unfolded y]] False assms(2) b' FLength
        show "length bs \<le> n \<and> bs = segment f p (length bs) \<and> (bs \<noteq> [] \<longrightarrow> body_stands f b' (p + length bs))"
          by (simp add: body_stands_def)
      qed
      with b'(1) show ?thesis by blast
    qed
  next
    case FToEnd
    obtain b' where b': "body_read debug n b = Some (x, b')" "bd_conn b' = c'" "bd_framing b' = bd_framing b"
      "bd_done b' = (x = Inr [])"
      using FToEnd assms m live by (cases x) (auto simp: body_read_def read_to_end_def)
    have "read_stands f p n x b'"
      unfolding read_stands_def
    proof (intro allI impI)
      fix bs assume x: "x = Inr bs"
      with conn_read_cut [OF cut _ m [unfolded x]] assms(2) b' FToEnd
      show "length bs \<le> n \<and> bs = segment f p (length bs) \<and> (bs \<noteq> [] \<longrightarrow> body_stands f b' (p + length bs))"
        by (simp add: body_stands_def)
    qed
    with b'(1) show ?thesis by blast
  next
    case FChunked
    with assms(3) show ?thesis by simp
  qed
qed

lemma body_read_chunks:
  assumes "body_stands f b p" and "0 < n" and "bd_framing b = FChunked"
  shows "\<exists>x b'. body_read debug n b = Some (x, b') \<and> read_stands f p n x b'"
proof -
  from assms(1,3) obtain left cs where at: "chunked_at True b left cs" "chunks_fit cs"
    and seg: "left @ concat cs = segment f p (length (left @ concat cs))" by (auto simp: body_stands_def)
  show ?thesis
  proof (cases "left @ concat cs = []")
    case True
    with at(2) have "left = []" "cs = []" by (cases cs; auto simp: chunks_fit_def)+
    with at(1) have "chunked_at True b [] []" by simp
    from body_read_end [OF this assms(2), of debug] show ?thesis by (auto simp: read_stands_def)
  next
    case False
    obtain k b' left' cs' where
      r: "body_read debug n b = Some (Inr (take k (left @ concat cs)), b')" "k \<le> n" "0 < k" and
      at': "chunked_at True b' left' cs'" "chunks_fit cs'" "left' @ concat cs' = drop k (left @ concat cs)"
      using body_read_chunked [OF at assms(2) False, of debug] by blast
    define whole where "whole = left @ concat cs"
    let ?m = "length (take k whole)"
    have whole: "whole = segment f p (length whole)" unfolding whole_def by (rule seg)
    have piece: "take k whole = segment f p ?m"
    proof (cases "k \<le> length whole")
      case True
      with whole take_segment [OF True, of f p] show ?thesis by (metis length_segment)
    next
      case False
      then have "take k whole = whole" by simp
      with whole show ?thesis by metis
    qed
    have "drop k whole = segment f (p + ?m) (length (drop k whole))"
    proof (cases "k \<le> length whole")
      case True
      then have "?m = k" by simp
      moreover have "drop k whole = segment f (p + k) (length whole - k)"
        using whole drop_segment [of k f p "length whole"] by metis
      ultimately show ?thesis by simp
    qed simp
    then have "left' @ concat cs' = segment f (p + ?m) (length (left' @ concat cs'))"
      using at'(3) unfolding whole_def by metis
    moreover have "bd_framing b' = FChunked" "\<not> bd_done b'" using at'(1) by (simp_all add: chunked_at_def)
    ultimately have "body_stands f b' (p + ?m)" using at'(1,2) unfolding body_stands_def by auto
    moreover have "?m \<le> n" using r(2) by simp
    ultimately have "read_stands f p n (Inr (take k whole)) b'"
      using piece by (simp add: read_stands_def)
    with r(1) show ?thesis unfolding whole_def by blast
  qed
qed

lemma body_read_stands:
  assumes "body_stands f b p" and "0 < n"
  shows "\<exists>x b'. body_read debug n b = Some (x, b') \<and> read_stands f p n x b'"
  using body_read_plain [OF assms] body_read_chunks [OF assms] by blast

lemma body_full_honest:
  "body_stands f b (p + length buf) \<Longrightarrow> buf = segment f p (length buf) \<Longrightarrow> length buf \<le> n \<Longrightarrow>
   \<exists>r b'. body_full debug n buf b = Some (r, b') \<and> r \<noteq> Err Panic \<and> (\<forall>bs. r = Ok bs \<longrightarrow> bs = segment f p n)"
proof (induction "n - length buf" arbitrary: buf b rule: less_induct)
  case less
  show ?case
  proof (cases "length buf < n")
    case False
    with less.prems(2,3) show ?thesis by (subst body_full.simps) auto
  next
    case True
    then have "0 < n - length buf" by simp
    from body_read_stands [OF less.prems(1) this, of debug] obtain x b' where
      x: "body_read debug (n - length buf) b = Some (x, b')" and
      c: "read_stands f (p + length buf) (n - length buf) x b'" by blast
    show ?thesis
    proof (cases "\<exists>bs. x = Inr bs \<and> bs \<noteq> []")
      case False
      with x True show ?thesis by (subst body_full.simps) (auto split: sum.splits)
    next
      case more: True
      then obtain bs where bs: "x = Inr bs" "bs \<noteq> []" by blast
      with c have b: "length bs \<le> n - length buf" "bs = segment f (p + length buf) (length bs)"
        "body_stands f b' (p + length (buf @ bs))" by (simp_all add: read_stands_def add.assoc)
      have seg: "buf @ bs = segment f p (length (buf @ bs))"
        using less.prems(2) b(2) by (metis length_append segment_append)
      have le: "length (buf @ bs) \<le> n" using b(1) True by simp
      have "n - length (buf @ bs) < n - length buf" using bs(2) True by (cases bs) auto
      from less.hyps [OF this b(3) seg le] x True bs b(1) show ?thesis by (subst body_full.simps) simp
    qed
  qed
qed

lemma into_body_stands:
  "rs_framing r = fr \<Longrightarrow> body_answer f p fr (rs_conn r) \<Longrightarrow> body_stands f (into_body r) p"
  by (force simp: body_answer_def body_stands_def into_body_def chunked_at_def)

section \<open>The client as a source\<close>

locale honest_server =
  fixes nw :: "('k, 'w) network" and version :: str and debug :: "str \<Rightarrow> str"
    and f :: "nat \<Rightarrow> u8" and sz :: u64
  assumes answers: "honest nw version debug f sz"
begin

lemma request_ok:
  assumes "http_request nw version debug u rng w = (Ok r, w')"
  shows "honest_answer f sz rng (rs_status r) (rs_headers r) (rs_conn r)"
    and "rs_framing r = framing_of (rs_headers r) (rs_status r)"
  using http_request_honest [OF answers assms] by (simp_all add: honest_resp_def)

lemma request_failed: "http_request nw version debug u rng w = (Err e, w') \<Longrightarrow> e \<noteq> Panic"
  using http_request_honest [OF answers] by (fastforce simp: honest_resp_def)

lemma probe_size: "http_probe nw version debug hf w = (Ok p, hf', w') \<Longrightarrow> pr_size p = sz"
  by (auto simp: http_probe_def probe_answer_def honest_answer_def dest!: request_ok(1)
      split: prod.splits sum.splits if_splits option.splits)

lemma fetch_range_sound:
  assumes "http_fetch_range nw version debug hf a b w = (x, w')"
  shows "\<exists>r. x = Some r \<and> r \<noteq> Err Panic \<and> (\<forall>bs. r = Ok bs \<longrightarrow> bs = segment f (unat a) (unat (b - a)))"
proof -
  let ?rng = "Some (unat a, Some (unat (b - 1)))"
  obtain q w1 where q: "http_request nw version debug (hf_resolved hf) ?rng w = (q, w1)" by fastforce
  show ?thesis
  proof (cases "\<exists>r. q = Ok r \<and> rs_status r = 206")
    case False
    with assms q request_failed [of "hf_resolved hf" ?rng w _ w1] show ?thesis
      by (auto simp: http_fetch_range_def split: sum.splits)
  next
    case True
    then obtain r where r: "q = Ok r" "rs_status r = 206" by blast
    note ok = request_ok [OF q [unfolded r(1)]]
    from ok(1) r(2) have "body_answer f (unat a) (framing_of (rs_headers r) (rs_status r)) (rs_conn r)"
      by (simp add: honest_answer_def)
    then have "body_stands f (into_body r) (unat a + length ([] :: bytes))"
      using into_body_stands [OF ok(2)] by simp
    from body_full_honest [OF this, of "unat (b - a)" debug] assms q r show ?thesis
      by (auto simp: http_fetch_range_def)
  qed
qed

lemma fetch_all_sound:
  assumes "http_fetch_all nw version debug hf w = (q, w')"
  shows "q \<noteq> Err Panic \<and> (\<forall>b. q = Ok b \<longrightarrow> body_stands f b 0)"
proof -
  obtain x w1 where x: "http_request nw version debug (hf_resolved hf) None w = (x, w1)" by fastforce
  show ?thesis
  proof (cases "\<exists>r. x = Ok r \<and> rs_status r = 200")
    case False
    with assms x request_failed [of "hf_resolved hf" None w _ w1] show ?thesis
      by (auto simp: http_fetch_all_def split: sum.splits)
  next
    case True
    then obtain r where r: "x = Ok r" "rs_status r = 200" by blast
    note ok = request_ok [OF x [unfolded r(1)]]
    from ok(1) r(2) have "body_answer f 0 (framing_of (rs_headers r) (rs_status r)) (rs_conn r)"
      by (simp add: honest_answer_def)
    with assms x r into_body_stands [OF ok(2)] show ?thesis by (auto simp: http_fetch_all_def)
  qed
qed

end

sublocale honest_server \<subseteq> client: remote_source "http_source nw version debug" f sz True "body_stands f"
proof
  fix a b :: u64 and w w' :: "http_fetcher \<times> 'w" and r
  assume "unat a \<le> unat b" and "ft_range (http_source nw version debug) a b w = (r, w')"
  then obtain hf v v' where w: "w = (hf, v)" "http_fetch_range nw version debug hf a b v = (r, v')"
    by (cases w) (auto simp: http_source_def split: prod.splits)
  from fetch_range_sound [OF w(2)] obtain z where
    z: "r = Some z" "z \<noteq> Err Panic" "\<forall>bs. z = Ok bs \<longrightarrow> bs = segment f (unat a) (unat (b - a))" by blast
  have "bs = segment f (unat a) (length bs)" if "z = Ok bs" for bs
    using z(3) that by (metis length_segment)
  with z show "r \<noteq> None \<and> r \<noteq> Some (Err Panic) \<and> (\<forall>bs. r = Some (Ok bs) \<longrightarrow> bs = segment f (unat a) (length bs))"
    by blast
next
  fix w w' :: "http_fetcher \<times> 'w" and q
  assume "ft_all (http_source nw version debug) w = (q, w')"
  then show "q \<noteq> Err Panic \<and> (\<forall>s. q = Ok s \<longrightarrow> body_stands f s 0)"
    by (cases w) (auto simp: http_source_def dest: fetch_all_sound split: prod.splits)
next
  fix s s' :: body and p n :: nat and w w' :: "http_fetcher \<times> 'w" and x
  assume s: "body_stands f s p" and n: "0 < n" and r: "ft_read (http_source nw version debug) s n w = (x, s', w')"
  from body_read_stands [OF s n, of debug] obtain y b' where
    y: "body_read debug n s = Some (y, b')" "read_stands f p n y b'" by blast
  with r have "x = Some y" "s' = b'" by (simp_all add: http_source_def)
  with y(2) show "x \<noteq> None \<and> (\<forall>bs. x = Some (Inr bs) \<longrightarrow> length bs \<le> n \<and> bs = segment f p (length bs) \<and>
      (bs \<noteq> [] \<longrightarrow> body_stands f s' (p + length bs)))"
    by (simp add: read_stands_def)
qed

context honest_server
begin

lemma build_size:
  "remote_build (http_source nw version debug) cache (hf, w) os = Ok (rd, st) \<Longrightarrow> rr_size rd = sz"
  by (auto simp: remote_build_def http_source_def dest: probe_size split: prod.splits sum.splits if_splits)

lemma opened_reads:
  assumes "remote_build (http_source nw version debug) cache (hf, w) os = Ok (rd, st)" and "Remote.cache_ok f rd os"
  shows "rr_size rd = sz \<and>
    answers_ok f sz (rr_supports_range rd) reqs (fst (remote_run (http_source nw version debug) flt rd reqs st))"
  using client.run_sound [OF build_inv [OF assms, of "body_stands f"] build_size [OF assms(1)]] build_size [OF assms(1)]
  by simp

end

section \<open>A file server\<close>

text \<open>A server that answers every request with the whole of a file, its length first.\<close>

definition served_head :: "nat \<Rightarrow> conn" where
  "served_head n =
     map (\<lambda>line. Inr (as_bytes line @ crlf)) [S ''HTTP/1.1 200 OK'', S ''Content-Length: '' @ show_nat n, []]"

definition served :: "(nat \<Rightarrow> u8) \<Rightarrow> u64 \<Rightarrow> conn" where
  "served f sz = (if sz = 0 then [] else [Inr (segment f 0 (unat sz))])"

definition file_server :: "(nat \<Rightarrow> u8) \<Rightarrow> u64 \<Rightarrow> (unit, unit) network" where
  "file_server f sz =
     \<lparr>nw_resolve = (\<lambda>_ w. (Ok [V4 [127, 0, 0, 1]], w)), nw_dial = (\<lambda>_ _ w. (Inr (), w)),
      nw_tls = (\<lambda>k _ w. (Ok k, w)), nw_send = (\<lambda>_ _ w. (Inr (served_head (unat sz) @ served f sz), w))\<rparr>"

definition plain_line :: "str \<Rightarrow> bool" where
  "plain_line s \<longleftrightarrow> list_all (\<lambda>c. c < 128 \<and> c \<noteq> 10 \<and> c \<noteq> 13) s"

lemma read_line_plain:
  assumes "plain_line s"
  shows "read_line (Inr (as_bytes s @ crlf) # c) = (Ok s, c)"
proof -
  have u: "unat (of_nat x :: u8) = x \<and> x < 128 \<and> x \<noteq> 10 \<and> x \<noteq> 13" if "x \<in> set s" for x
    using that assms by (auto simp: plain_line_def list_all_iff unat_of_nat)
  let ?a = "map of_nat s :: bytes"
  have a: "as_bytes s = ?a" using u by (intro as_bytes_ascii) blast
  have "from_utf8_lossy ?a = map unat ?a"
    using u by (intro from_utf8_lossy_ascii) auto
  also have "\<dots> = s" unfolding list.map_comp by (rule map_idI) (use u in simp)
  finally have decoded: "from_utf8_lossy ?a = s" .
  have ne: "b \<noteq> 10 \<and> b \<noteq> 13" if "b \<in> set ?a" for b
  proof -
    from that obtain x where "x \<in> set s" "b = of_nat x" by auto
    with u [of x] have "unat b \<noteq> 10 \<and> unat b \<noteq> 13" by simp
    then show ?thesis by auto
  qed
  have "split_once 10 ((?a @ [13]) @ 10 # []) = Some (?a @ [13], [])"
    using ne by (intro split_once_append) auto
  then have "conn_until [] (Inr (?a @ crlf) # c) = (Inr (?a @ [13, 10]), c)" by (simp add: crlf_def)
  moreover have "trim_end_by is_newline_byte (?a @ [13, 10]) = ?a"
    using ne by (cases ?a rule: rev_cases) (auto simp: trim_end_by_def is_newline_byte_def)
  ultimately show ?thesis by (simp add: read_line_def a decoded)
qed

lemma show_nat_char: "c \<in> set (show_nat n) \<Longrightarrow> 48 \<le> c \<and> c \<le> 57"
  using show_nat_digits by (fastforce simp: is_ascii_digit_def)

lemma trim_number: "str_trim (show_nat n) = show_nat n" "str_trim (32 # show_nat n) = show_nat n"
proof -
  have w: "\<not> is_whitespace c" if "c \<in> set (show_nat n)" for c
    using show_nat_char [OF that] by (simp add: not_whitespace_ascii)
  then show t: "str_trim (show_nat n) = show_nat n" by (intro str_trim_id) auto
  have "is_whitespace 32" by code_simp
  with t show "str_trim (32 # show_nat n) = show_nat n" by (simp add: str_trim_def trim_start_by_def)
qed

definition served_headers :: "nat \<Rightarrow> headers" where
  "served_headers n = [(S ''Content-Length'', show_nat n)]"

lemma read_head_served: "read_head debug (served_head n @ c) = (Ok (200, served_headers n), c)"
proof -
  have p: "plain_line (S ''HTTP/1.1 200 OK'')" "plain_line []" by code_simp+
  have "plain_line (S ''Content-Length: '')" by code_simp
  then have l: "plain_line (S ''Content-Length: '' @ show_nat n)"
    using show_nat_char [of _ n] by (fastforce simp: plain_line_def list_all_iff)
  have s: "Option.bind (get (split_whitespace (S ''HTTP/1.1 200 OK'')) 1) (from_str_radix 16 10) = Some 200"
    by code_simp
  have eq: "S ''Content-Length: '' @ show_nat n = S ''Content-Length'' @ ch CHR '':'' # 32 # show_nat n"
    by simp
  have k: "split_once (ch CHR '':'') (S ''Content-Length'' @ ch CHR '':'' # 32 # show_nat n) =
      Some (S ''Content-Length'', 32 # show_nat n)"
    by (rule split_once_append) auto
  have t: "str_trim (S ''Content-Length'') = S ''Content-Length''" by code_simp
  have h: "read_headers (Inr (as_bytes (S ''Content-Length: '' @ show_nat n) @ crlf) # Inr (as_bytes [] @ crlf) # c) [] =
      (Ok (served_headers n), c)"
    by (subst read_headers.simps, simp only: eq read_line_plain [OF l [unfolded eq]] k prod.case sum.case option.case trim_number t,
        simp only: append_is_Nil_conv list.distinct if_False simp_thms)
      (subst read_headers.simps, simp only: read_line_plain [OF p(2)] prod.case sum.case, simp add: served_headers_def)
  have "served_head n @ c = Inr (as_bytes (S ''HTTP/1.1 200 OK'') @ crlf) #
      Inr (as_bytes (S ''Content-Length: '' @ show_nat n) @ crlf) # Inr (as_bytes [] @ crlf) # c"
    unfolding served_head_def by simp
  then show ?thesis
    by (simp only: read_head_def read_line_plain [OF p(1)] prod.case sum.case s option.case h)
qed

lemma served_header:
  "header_of (served_headers n) (S ''transfer-encoding'') = None"
  "header_of (served_headers n) (S ''content-length'') = Some (show_nat n)"
  "header_of (served_headers n) (S ''location'') = None"
proof -
  have "\<not> eq_ignore_ascii_case (S ''Content-Length'') (S ''transfer-encoding'')"
    "eq_ignore_ascii_case (S ''Content-Length'') (S ''content-length'')"
    "\<not> eq_ignore_ascii_case (S ''Content-Length'') (S ''location'')" by code_simp+
  then show "header_of (served_headers n) (S ''transfer-encoding'') = None"
    "header_of (served_headers n) (S ''content-length'') = Some (show_nat n)"
    "header_of (served_headers n) (S ''location'') = None"
    unfolding header_of_def served_headers_def find.simps prod.case
    by (simp_all only: if_True if_False option.map snd_conv)
qed

lemma served_length: "parse_usize (str_trim (show_nat (unat (sz :: u64)))) = Some (unat sz)"
  using unat_u64_lt [of sz] by (simp add: trim_number parse_usize_show)

lemma served_framing: "framing_of (served_headers (unat (sz :: u64))) 200 = FLength (unat sz)"
  by (simp only: framing_of_def served_header served_length option.case bind.bind_lunit if_False)

lemma served_answer: "honest_answer f sz rng 200 (served_headers (unat sz)) (served f sz)"
proof -
  have "cut_conn f 0 (served f sz)" by (simp add: served_def)
  then show ?thesis
    by (simp only: honest_answer_def body_answer_def served_framing served_header served_length bind.bind_lunit) simp
qed

interpretation served: honest_server "file_server f sz" version debug f sz for f sz version debug
  by unfold_locales (auto simp: honest_def file_server_def read_head_served served_answer)

section \<open>Properties\<close>

text \<open>
  C36: an image opened by its URL reads as the file behind it. Over servers that answer honestly, whatever
  redirects they send, and with connections that fail or break off at any point and deliver anything
  after that (only a chunked answer has to come whole: C35 shows that one that breaks off between chunks
  hangs the read), the size of the opened image is that of the file, and every run of reads gives the
  bytes of the file, an out-of-bounds error outside of it, or the error of a failed request: every read,
  if the server honours ranges; else up to and with the first that fails, after which the stream may
  stand anywhere. None of these reads panics or hangs.
\<close>

theorem http_image_reads:
  assumes "honest nw version debug f sz"
    and "remote_build (http_source nw version debug) cache (hf, w) os = Ok (rd, st)"
    and "Remote.cache_ok f rd os"
  shows "rr_size rd = sz \<and>
    answers_ok f sz (rr_supports_range rd) reqs (fst (remote_run (http_source nw version debug) flt rd reqs st))"
  by (rule honest_server.opened_reads [OF honest_server.intro [OF assms(1)] assms(2,3)])

definition served_resp :: "(nat \<Rightarrow> u8) \<Rightarrow> u64 \<Rightarrow> url \<Rightarrow> resp" where
  "served_resp f sz u =
     \<lparr>rs_status = 200, rs_headers = served_headers (unat sz), rs_final_url = u, rs_conn = served f sz,
      rs_framing = FLength (unat sz)\<rparr>"

lemma served_request: "http_request (file_server f sz) version debug u rng w = (Ok (served_resp f sz u), w)"
proof -
  have "request_hops (file_server f sz) version debug u rng (Suc k) v w = (Ok (served_resp f sz v), w)" for k v
    by (simp add: file_server_def http_connect_def send_request_def read_head_served is_redirect_def
        served_resp_def served_framing)
  then show ?thesis
    by (simp add: http_request_def request_once_def MAX_RETRIES_def eval_nat_numeral)
qed

definition served_reader :: "u64 \<Rightarrow> remote_reader" where
  "served_reader sz = \<lparr>rr_size = sz, rr_supports_range = False, rr_cache = None\<rparr>"

definition served_state :: "url \<Rightarrow> u64 \<Rightarrow> os \<Rightarrow> (body, http_fetcher \<times> unit) remote" where
  "served_state u sz os =
     \<lparr>rm_chunks = replicate (unat (div_ceil sz CHUNK)) None, rm_stream = None, rm_streamed = 0,
      rm_downloaded = 0, rm_net = (\<lparr>hf_start = u, hf_resolved = u\<rparr>, ()), rm_os = os\<rparr>"

lemma served_probe: "probe_answer hf (served_resp f sz u) = Ok \<lparr>pr_size = sz, pr_supports_range = False\<rparr>"
proof -
  have "rs_status (served_resp f sz u) = 200" "rs_headers (served_resp f sz u) = served_headers (unat sz)"
    by (simp_all add: served_resp_def)
  then show ?thesis by (simp only: probe_answer_def served_header served_length bind.bind_lunit) simp
qed

lemma served_url [simp]: "rs_final_url (served_resp f sz u) = u"
  by (simp add: served_resp_def)

lemma served_build:
  "sz \<noteq> 0 \<Longrightarrow> remote_build (http_source (file_server f sz) version debug) None (\<lparr>hf_start = u, hf_resolved = u\<rparr>, ()) os =
     Ok (served_reader sz, served_state u sz os)"
  by (simp add: remote_build_def http_source_def http_probe_def served_request served_probe
      served_reader_def served_state_def)

lemma http_image_reads_witness:
  "answers_ok ((!) [1, 2, 3]) 3 False [(1, 2), (0, 1)]
     (fst (remote_run (http_source (file_server ((!) [1, 2, 3]) 3) (S ''0'') (\<lambda>s. s)) (\<lambda>_. None) (served_reader 3)
        [(1, 2), (0, 1)] (served_state demo_url 3 \<lparr>os_files = Map.empty, os_ops = 0\<rparr>)))"
proof -
  let ?f = "(!) [1, 2, 3 :: u8]"
  let ?os = "\<lparr>os_files = Map.empty, os_ops = 0\<rparr>"
  have cache: "Remote.cache_ok ?f (served_reader 3) ?os" by (simp add: Remote.cache_ok_def)
  have no_ranges: "rr_supports_range (served_reader 3) = False" by (simp add: served_reader_def)
  have build: "remote_build (http_source (file_server ?f 3) (S ''0'') (\<lambda>s. s)) None
      (\<lparr>hf_start = demo_url, hf_resolved = demo_url\<rparr>, ()) ?os = Ok (served_reader 3, served_state demo_url 3 ?os)"
    by (rule served_build) simp
  show ?thesis
    using http_image_reads [OF served.answers build cache, of "[(1, 2), (0, 1)]" "\<lambda>_. None"]
    unfolding no_ranges by blast
qed

end
