(* ===== verification/Remote_Tests.thy ===== *)
theory Remote_Tests
  imports Remote
begin

text \<open>
  The unit tests of src/src/source/remote.rs, proved on the model: their images have several chunks of
  4 MiB, so they follow from lemmas that count what a read downloads. Each definition is one \<open>#[test]\<close>
  function: the conjunction of its assertions. The digest of the cache directory is a parameter.
\<close>

section \<open>The fixtures\<close>

definition blob :: "nat \<Rightarrow> bytes" where
  "blob n = map (\<lambda>i. of_nat (i mod 251)) [0..<n]"

definition no_faults :: faults where
  "no_faults = (\<lambda>_. None)"

definition empty_os :: os where
  "empty_os = \<lparr>os_files = Map.empty, os_ops = 0\<rparr>"

definition test_reader ::
  "bytes \<Rightarrow> bool \<Rightarrow> str option \<Rightarrow> os \<Rightarrow> (remote_reader \<times> (nat, nat) remote) result" where
  "test_reader data sr cache os = remote_build (fake_fetcher data sr) cache 0 os"

text \<open>\<open>r.read_at(off, &mut buf)\<close>: what the buffer holds then, how much was fetched, and the state.\<close>

definition test_read ::
  "bytes \<Rightarrow> bool \<Rightarrow> remote_reader \<Rightarrow> u64 \<Rightarrow> nat \<Rightarrow> (nat, nat) remote \<Rightarrow>
   bytes option \<times> nat \<times> (nat, nat) remote" where
  "test_read data sr rd off n st =
     (case remote_read_at (fake_fetcher data sr) no_faults rd off n st of
        (r, st') \<Rightarrow> (Option.bind r res_ok, rm_net st', st'))"

definition slice_of :: "bytes \<Rightarrow> u64 \<Rightarrow> nat \<Rightarrow> bytes" where
  "slice_of data off n = take n (drop (unat off) data)"

definition range_fetches_only_touched_chunks :: bool where
  "range_fetches_only_touched_chunks \<longleftrightarrow>
     (let data = blob (3 * unat CHUNK + 1000); off = 2 * CHUNK + 5
      in case test_reader data True None empty_os of
           Inl _ \<Rightarrow> False
         | Inr (rd, st) \<Rightarrow>
             (case test_read data True rd off 10 st of
                (buf, fetched, _) \<Rightarrow> buf = Some (slice_of data off 10) \<and> fetched = unat CHUNK))"

definition range_spanning_two_chunks :: bool where
  "range_spanning_two_chunks \<longleftrightarrow>
     (let data = blob (2 * unat CHUNK + 50); off = CHUNK - 5
      in case test_reader data True None empty_os of
           Inl _ \<Rightarrow> False
         | Inr (rd, st) \<Rightarrow>
             (case test_read data True rd off 10 st of
                (buf, fetched, _) \<Rightarrow> buf = Some (slice_of data off 10) \<and> fetched = 2 * unat CHUNK))"

definition no_range_streams_up_to_target :: bool where
  "no_range_streams_up_to_target \<longleftrightarrow>
     (let data = blob (3 * unat CHUNK + 7); off = 2 * CHUNK + 1
      in case test_reader data False None empty_os of
           Inl _ \<Rightarrow> False
         | Inr (rd, st) \<Rightarrow>
             (case test_read data False rd off 4 st of
                (buf, fetched, st) \<Rightarrow>
                  buf = Some (slice_of data off 4) \<and> fetched = 3 * unat CHUNK \<and>
                  (case test_read data False rd 0 4 st of
                     (buf, fetched, _) \<Rightarrow> buf = Some (take 4 data) \<and> fetched = 3 * unat CHUNK)))"

definition disk_cache_persists_and_reuses :: "(bytes \<Rightarrow> str) \<Rightarrow> str \<Rightarrow> bool" where
  "disk_cache_persists_and_reuses md5_hex tmp \<longleftrightarrow>
     (let data = blob (2 * unat CHUNK + 3); off = CHUNK + 10; dir = cache_new md5_hex tmp (S ''http://x/y'')
      in case test_reader data True (Some dir) empty_os of
           Inl _ \<Rightarrow> False
         | Inr (rd, st) \<Rightarrow>
             (case test_read data True rd off 8 st of
                (_, fetched, st) \<Rightarrow>
                  fetched = unat CHUNK \<and>
                  os_files (rm_os st) (tmp @ S ''/'' @ md5_hex (as_bytes (S ''http://x/y'')) @ S ''/1'') \<noteq> None \<and>
                  (case test_reader data True (Some dir) (rm_os st) of
                     Inl _ \<Rightarrow> False
                   | Inr (rd, st) \<Rightarrow>
                       (case test_read data True rd off 8 st of
                          (buf, fetched, _) \<Rightarrow> buf = Some (slice_of data off 8) \<and> fetched = 0))))"

section \<open>What a read downloads\<close>

lemma length_blob [simp]: "length (blob n) = n"
  by (simp add: blob_def)

text \<open>A reader over the fetcher of the tests.\<close>

definition reads_data :: "bytes \<Rightarrow> remote_reader \<Rightarrow> bool" where
  "reads_data data rd \<longleftrightarrow> length data < 2 ^ 64 \<and> rr_size rd = file_len data"

abbreviation fake_inv :: "bytes \<Rightarrow> remote_reader \<Rightarrow> (nat, nat) remote \<Rightarrow> bool" where
  "fake_inv data rd st \<equiv>
     remote_inv (\<lambda>s p. s = p \<and> p \<le> length data) ((!) data) rd st"

lemma reads_data_size: "reads_data data rd \<Longrightarrow> unat (rr_size rd) = length data"
  by (simp add: reads_data_def file_len_def unat_of_nat)

lemma fetch_chunk_fake:
  assumes "reads_data data rd" and i: "i < nchunks rd"
  shows "fetch_chunk (fake_fetcher data True) flt rd i st =
    (Some (Ok ()), remote_store flt rd i (chunk_content ((!) data) rd i) (st\<lparr>rm_net := rm_net st + chunk_len rd i\<rparr>))"
proof -
  let ?a = "of_nat i * CHUNK :: u64"
  have a: "unat ?a = i * 4194304" by (rule unat_chunk_start [OF i])
  have fits: "i * 4194304 + chunk_len rd i \<le> length data"
    using chunk_len_bound [OF i] reads_data_size [OF assms(1)] by simp
  have b: "unat (?a + of_nat (chunk_len rd i)) = i * 4194304 + chunk_len rd i"
    using fits assms(1) a by (subst unat_add_nat) (auto simp: reads_data_def)
  have "unat (of_nat (chunk_len rd i) :: u64) = chunk_len rd i"
    using fits assms(1) by (simp add: unat_of_nat reads_data_def)
  with a b fits show ?thesis
    by (simp add: fetch_chunk_def fake_fetcher_def Let_def chunk_content_def segment_list)
qed

text \<open>With ranges and no cache, a chunk is downloaded if it is not in memory.\<close>

definition missing :: "remote_reader \<Rightarrow> (nat, nat) remote \<Rightarrow> nat \<Rightarrow> nat" where
  "missing rd st i = (if rm_chunks st ! i = None then chunk_len rd i else 0)"

lemma remote_store_net [simp]: "rm_net (remote_store flt rd i data st) = rm_net st"
  by (simp add: remote_store_def)

lemma ensure_fake:
  assumes "reads_data data rd" and "fake_inv data rd st" and "rr_supports_range rd" and "rr_cache rd = None"
    and i: "i < nchunks rd" and run: "ensure (fake_fetcher data True) flt rd i st = (r, st')"
  shows "r = Some (Ok ()) \<and> rm_net st' = rm_net st + missing rd st i"
proof -
  have "length (rm_chunks st) = nchunks rd" using assms(2) by (simp add: remote_inv_def chunks_ok_def)
  with assms(3,4) i run show ?thesis
    by (auto simp: ensure_def get_def cache_hit_def missing_def fetch_chunk_fake [OF assms(1) i] split: option.splits)
qed

lemma ensure_all_fake:
  assumes "reads_data data rd" and "rr_supports_range rd" and "rr_cache rd = None"
  shows "fake_inv data rd st \<Longrightarrow> \<forall>i \<in> set is. i < nchunks rd \<Longrightarrow> distinct is \<Longrightarrow>
    ensure_all (fake_fetcher data True) flt rd is st = (r, st') \<Longrightarrow>
    r = Some (Ok ()) \<and> rm_net st' = rm_net st + sum_list (map (missing rd st) is)"
proof (induction "is" arbitrary: st)
  case (Cons i "is")
  obtain x st1 where x: "ensure (fake_fetcher data True) flt rd i st = (x, st1)" by fastforce
  from Cons.prems(2) have i: "i < nchunks rd" by simp
  note one = ensure_fake [OF assms(1) Cons.prems(1) assms(2,3) i x]
  note keeps = fake.ensure_sound [OF x Cons.prems(1) _ _ i] 
  have sz: "rr_size rd = file_len data" using assms(1) by (simp add: reads_data_def)
  from keeps sz assms(2) have inv: "fake_inv data rd st1"
    and same: "\<forall>j. j \<noteq> i \<longrightarrow> rm_chunks st1 ! j = rm_chunks st ! j" by simp_all
  have eq: "map (missing rd st1) is = map (missing rd st) is"
    using same Cons.prems(3) by (auto simp: missing_def)
  have "ensure_all (fake_fetcher data True) flt rd is st1 = (r, st')" using Cons.prems(4) x one by simp
  from Cons.IH [OF inv _ _ this] Cons.prems(2,3) have "r = Some (Ok ()) \<and> rm_net st' = rm_net st1 + sum_list (map (missing rd st) is)"
    unfolding eq by simp
  with one show ?case by simp
qed simp

lemma read_downloads:
  assumes "reads_data data rd" and "fake_inv data rd st" and "rr_supports_range rd" and "rr_cache rd = None"
    and n: "0 < n" "unat off + n \<le> length data"
  shows "\<exists>st'. remote_read_at (fake_fetcher data True) flt rd off n st = (Some (Ok (slice_of data off n)), st') \<and>
    rm_net st' = rm_net st + sum_list (map (missing rd st) [unat off div 4194304..<Suc ((unat off + n - 1) div 4194304)])"
proof -
  have sz: "rr_size rd = file_len data" using assms(1) by (simp add: reads_data_def)
  have fits: "unat off + n \<le> unat (file_len data)" using n(2) reads_data_size [OF assms(1)] sz by simp
  obtain r st' where r: "remote_read_at (fake_fetcher data True) flt rd off n st = (r, st')" by fastforce
  obtain "is" x where i: "is = [unat off div 4194304..<Suc ((unat off + n - 1) div 4194304)]"
    and bound: "\<forall>i \<in> set is. i < nchunks rd" and x: "ensure_all (fake_fetcher data True) flt rd is st = (Some x, st')"
    and ans: "r = Some (case x of Inl e \<Rightarrow> Err e | Inr _ \<Rightarrow> Ok (segment ((!) data) (unat off) n))"
    by (rule fake.read_at_inside [OF r assms(2) sz _ n(1) fits]) simp
  have "distinct is" unfolding i by (rule distinct_upt)
  from ensure_all_fake [OF assms(1,3,4,2) bound this x] ans r n(2) show ?thesis
    by (auto simp: slice_of_def segment_list i simp del: upt_Suc)
qed


section \<open>The tests\<close>

definition test_rd :: "nat \<Rightarrow> bool \<Rightarrow> str option \<Rightarrow> remote_reader" where
  "test_rd n sr cache = \<lparr>rr_size = of_nat n, rr_supports_range = sr, rr_cache = cache\<rparr>"

definition test_st :: "nat \<Rightarrow> os \<Rightarrow> (nat, nat) remote" where
  "test_st n os =
     \<lparr>rm_chunks = replicate (unat (div_ceil (of_nat n) CHUNK)) None, rm_stream = None, rm_streamed = 0,
      rm_downloaded = 0, rm_net = 0, rm_os = os\<rparr>"

lemma test_reader_ok:
  assumes "0 < n" and "n < 2 ^ 64"
  shows "test_reader (blob n) sr cache os = Ok (test_rd n sr cache, test_st n os)"
proof -
  have "unat (of_nat n :: u64) = n" using assms(2) by (simp add: unat_of_nat)
  then have "(of_nat n :: u64) \<noteq> 0" using assms(1) by (metis neq0_conv unat_0)
  then show ?thesis
    by (simp add: test_reader_def remote_build_def fake_fetcher_def file_len_def test_rd_def test_st_def)
qed

lemma test_rd_reads: "n < 2 ^ 64 \<Longrightarrow> reads_data (blob n) (test_rd n sr cache)"
  by (simp add: reads_data_def test_rd_def file_len_def)

lemma test_inv:
  assumes "0 < n" and "n < 2 ^ 64" and "Remote.cache_ok ((!) (blob n)) (test_rd n sr cache) os"
  shows "fake_inv (blob n) (test_rd n sr cache) (test_st n os)"
  by (rule build_inv [OF test_reader_ok [OF assms(1,2), unfolded test_reader_def] assms(3)])

lemma test_nchunks: "n < 2 ^ 64 \<Longrightarrow> i < nchunks (test_rd n sr cache) \<longleftrightarrow> i * 4194304 < n"
  by (simp add: nchunks_iff test_rd_def unat_of_nat)

lemma test_chunk_len:
  "n < 2 ^ 64 \<Longrightarrow> i * 4194304 < n \<Longrightarrow> chunk_len (test_rd n sr cache) i = min (n - i * 4194304) 4194304"
  by (subst chunk_len_eq) (simp_all add: test_nchunks, simp add: test_rd_def unat_of_nat)

lemma test_missing:
  assumes "n < 2 ^ 64" and "i * 4194304 < n"
  shows "missing (test_rd n sr cache) (test_st n os) i = min (n - i * 4194304) 4194304"
proof -
  have "i < unat (div_ceil (of_nat n) CHUNK)" using assms by (simp add: div_ceil_less unat_of_nat)
  then show ?thesis by (simp add: missing_def test_st_def test_chunk_len [OF assms])
qed

lemma test_read_ranges:
  assumes "0 < n" and "n < 2 ^ 64" and "0 < k" and "unat off + k \<le> n"
  shows "\<exists>st. test_read (blob n) True (test_rd n True None) off k (test_st n empty_os) =
    (Some (slice_of (blob n) off k),
     sum_list (map (\<lambda>i. min (n - i * 4194304) 4194304) [unat off div 4194304..<Suc ((unat off + k - 1) div 4194304)]), st)"
proof -
  have inv: "fake_inv (blob n) (test_rd n True None) (test_st n empty_os)"
    by (rule test_inv [OF assms(1,2)]) (simp add: Remote.cache_ok_def test_rd_def)
  have "i * 4194304 < n" if "i \<le> (unat off + k - 1) div 4194304" for i
  proof -
    have "i * 4194304 \<le> unat off + k - 1" using that by (metis div_times_less_eq_dividend mult_le_mono1 order_trans)
    with assms(3,4) show ?thesis by simp
  qed
  then have eq: "map (missing (test_rd n True None) (test_st n empty_os)) [unat off div 4194304..<Suc ((unat off + k - 1) div 4194304)] =
      map (\<lambda>i. min (n - i * 4194304) 4194304) [unat off div 4194304..<Suc ((unat off + k - 1) div 4194304)]"
    by (intro map_cong refl test_missing [OF assms(2)]) (auto simp del: upt_Suc)
  have "rr_supports_range (test_rd n True None)" "rr_cache (test_rd n True None) = None" "rm_net (test_st n empty_os) = 0"
    by (simp_all add: test_rd_def test_st_def)
  with read_downloads [OF test_rd_reads [OF assms(2)] inv, where flt = no_faults and n = k and off = off] assms(3,4)
  obtain st where "remote_read_at (fake_fetcher (blob n) True) no_faults (test_rd n True None) off k (test_st n empty_os) =
      (Some (Ok (slice_of (blob n) off k)), st)"
    and "rm_net st = sum_list (map (missing (test_rd n True None) (test_st n empty_os))
      [unat off div 4194304..<Suc ((unat off + k - 1) div 4194304)])" by auto
  then show ?thesis unfolding eq by (simp add: test_read_def)
qed

lemma range_fetches_only_touched_chunks: range_fetches_only_touched_chunks
proof -
  have u: "unat (2 * CHUNK + 5 :: u64) = 8388613" by (simp add: CHUNK_def)
  obtain st where "test_read (blob 12583912) True (test_rd 12583912 True None) (2 * CHUNK + 5) 10 (test_st 12583912 empty_os) =
      (Some (slice_of (blob 12583912) (2 * CHUNK + 5) 10), 4194304, st)"
    using test_read_ranges [of 12583912 10 "2 * CHUNK + 5"] unfolding u by auto
  then show ?thesis
    by (simp add: range_fetches_only_touched_chunks_def test_reader_ok Let_def)
qed

lemma range_spanning_two_chunks: range_spanning_two_chunks
proof -
  have u: "unat (CHUNK - 5 :: u64) = 4194299" by (simp add: CHUNK_def)
  obtain st where "test_read (blob 8388658) True (test_rd 8388658 True None) (CHUNK - 5) 10 (test_st 8388658 empty_os) =
      (Some (slice_of (blob 8388658) (CHUNK - 5) 10), 8388608, st)"
    using test_read_ranges [of 8388658 10 "CHUNK - 5"] unfolding u by (auto simp: upt_rec)
  then show ?thesis
    by (simp add: range_spanning_two_chunks_def test_reader_ok Let_def)
qed


text \<open>A read inside one chunk does what fetching that chunk does.\<close>

lemma test_read_one:
  assumes "n < 2 ^ 64" and "fake_inv (blob n) (test_rd n sr cache) st" and "0 < k" and "unat off + k \<le> n"
    and "unat off div 4194304 = i" and "(unat off + k - 1) div 4194304 = i"
    and "ensure (fake_fetcher (blob n) sr) no_faults (test_rd n sr cache) i st = (Some (Ok ()), st1)"
  shows "test_read (blob n) sr (test_rd n sr cache) off k st = (Some (slice_of (blob n) off k), rm_net st1, st1)"
proof -
  have sz: "rr_size (test_rd n sr cache) = file_len (blob n)" by (simp add: test_rd_def file_len_def)
  have fits: "unat off + k \<le> unat (file_len (blob n))" using assms(1,4) by (simp add: file_len_def unat_of_nat)
  have sr: "rr_supports_range (test_rd n sr cache) \<longrightarrow> sr" by (simp add: test_rd_def)
  obtain r st' where r: "remote_read_at (fake_fetcher (blob n) sr) no_faults (test_rd n sr cache) off k st = (r, st')" by fastforce
  obtain "is" x where i: "is = [unat off div 4194304..<Suc ((unat off + k - 1) div 4194304)]"
    and x: "ensure_all (fake_fetcher (blob n) sr) no_faults (test_rd n sr cache) is st = (Some x, st')"
    and ans: "r = Some (case x of Inl e \<Rightarrow> Err e | Inr _ \<Rightarrow> Ok (segment ((!) (blob n)) (unat off) k))"
    by (rule fake.read_at_inside [OF r assms(2) sz sr assms(3) fits])
  have "is = [i]" unfolding i assms(5,6) by simp
  with x assms(7) have "x = Ok ()" "st' = st1" by simp_all
  with r ans assms(4) show ?thesis by (simp add: test_read_def slice_of_def segment_list)
qed

section \<open>Streaming\<close>

lemma read_full_fake:
  assumes "p + n \<le> length data" and "0 < n"
  shows "read_full (fake_fetcher data sr) p n [] w = (Some (Ok (segment ((!) data) p n)), p + n, w + n)"
proof -
  let ?bs = "take n (drop p data)"
  have bs: "ft_read (fake_fetcher data sr) p n w = (Some (Inr ?bs), p + n, w + n)" "?bs = segment ((!) data) p n"
    using assms(1) by (simp_all add: fake_fetcher_def Let_def segment_list)
  have "segment ((!) data) p n \<noteq> []" using assms(2) by (metis length_segment length_greater_0_conv)
  then show ?thesis using assms(2) bs
    by (subst read_full.simps, simp) (subst read_full.simps, simp)
qed

lemma stream_loop_fake:
  assumes "reads_data data rd"
  shows "rm_streamed st \<le> Suc idx \<Longrightarrow> idx < nchunks rd \<Longrightarrow> rm_stream st \<noteq> None \<Longrightarrow>
    (rm_streamed st \<le> idx \<longrightarrow> rm_stream st = Some (rm_streamed st * 4194304)) \<Longrightarrow>
    \<exists>st'. stream_loop (fake_fetcher data False) flt rd idx st = (Some (Ok ()), st') \<and>
      rm_net st' = rm_net st + sum_list (map (chunk_len rd) [rm_streamed st..<Suc idx])"
proof (induction "Suc idx - rm_streamed st" arbitrary: st rule: less_induct)
  case less
  let ?n = "rm_streamed st"
  show ?case
  proof (cases "?n \<le> idx")
    case False
    with less.prems(1) show ?thesis by (subst stream_loop.simps) simp
  next
    case True
    let ?len = "chunk_len rd ?n"
    let ?st1 = "st\<lparr>rm_stream := Some (?n * 4194304 + ?len), rm_net := rm_net st + ?len\<rparr>"
    let ?st2 = "(remote_store flt rd ?n (segment ((!) data) (?n * 4194304) ?len) ?st1)\<lparr>rm_streamed := ?n + 1\<rparr>"
    have n: "?n < nchunks rd" using True less.prems(2) by simp
    have fits: "?n * 4194304 + ?len \<le> length data"
      using chunk_len_bound [OF n] reads_data_size [OF assms] by simp
    have step: "stream_loop (fake_fetcher data False) flt rd idx st = stream_loop (fake_fetcher data False) flt rd idx ?st2"
      using True less.prems(4) read_full_fake [OF fits chunk_len_pos [OF n], of False "rm_net st"]
      by (subst stream_loop.simps) (simp add: Let_def)
    have "?len = 4194304" if "?n + 1 \<le> idx"
      using that less.prems(2) n by (simp add: chunk_len_eq nchunks_iff)
    then have at: "rm_streamed ?st2 \<le> idx \<longrightarrow> rm_stream ?st2 = Some (rm_streamed ?st2 * 4194304)" by simp
    have "Suc idx - rm_streamed ?st2 < Suc idx - ?n" "rm_streamed ?st2 \<le> Suc idx" "rm_stream ?st2 \<noteq> None"
      using True by simp_all
    from less.hyps [OF this(1,2) less.prems(2) this(3) at] obtain st' where
      st': "stream_loop (fake_fetcher data False) flt rd idx ?st2 = (Some (Ok ()), st')"
      "rm_net st' = rm_net ?st2 + sum_list (map (chunk_len rd) [rm_streamed ?st2..<Suc idx])" by blast
    have "rm_net st' = rm_net st + (?len + sum_list (map (chunk_len rd) [Suc ?n..<Suc idx]))"
      using st'(2) by simp
    also have "\<dots> = rm_net st + sum_list (map (chunk_len rd) [?n..<Suc idx])"
      using True by (simp add: upt_conv_Cons del: upt_Suc)
    finally show ?thesis using step st'(1) by simp
  qed
qed

lemma ensure_streams:
  assumes "reads_data data rd" and "fake_inv data rd st" and "\<not> rr_supports_range rd" and "rr_cache rd = None"
    and i: "i < nchunks rd" and "rm_chunks st ! i = None" and "rm_stream st = None"
  shows "\<exists>st'. ensure (fake_fetcher data False) flt rd i st = (Some (Ok ()), st') \<and>
    rm_net st' = rm_net st + sum_list (map (chunk_len rd) [0..<Suc i]) \<and> fake_inv data rd st' \<and> i < rm_streamed st'"
proof -
  let ?st1 = "st\<lparr>rm_stream := Some 0, rm_streamed := 0\<rparr>"
  have len: "length (rm_chunks st) = nchunks rd" using assms(2) by (simp add: remote_inv_def chunks_ok_def)
  have sz: "rr_size rd = file_len data" using assms(1) by (simp add: reads_data_def)
  have inv: "fake_inv data rd ?st1" using assms(2) by (simp add: remote_inv_def stream_ok_def)
  obtain st' where st': "stream_loop (fake_fetcher data False) flt rd i ?st1 = (Some (Ok ()), st')"
      "rm_net st' = rm_net ?st1 + sum_list (map (chunk_len rd) [rm_streamed ?st1..<Suc i])"
    using stream_loop_fake [OF assms(1), of ?st1 i flt] i by auto
  from fake.stream_loop_sound [OF st'(1) inv assms(3) sz i] have "fake_inv data rd st'" "i < rm_streamed st'" by simp_all
  moreover have "stream_chunk (fake_fetcher data False) flt rd i st = (Some (Ok ()), st')"
    using st'(1) assms(7) by (simp add: stream_chunk_def) (simp add: fake_fetcher_def)
  then have "ensure (fake_fetcher data False) flt rd i st = (Some (Ok ()), st')"
    using assms(3,4,6) i len by (simp add: ensure_def get_def cache_hit_def)
  ultimately show ?thesis using st'(2) by auto
qed

lemma no_range_streams_up_to_target: no_range_streams_up_to_target
proof -
  let ?n = "12582919 :: nat"
  let ?rd = "test_rd ?n False None"
  let ?st = "test_st ?n empty_os"
  have u: "unat (2 * CHUNK + 1 :: u64) = 8388609" by (simp add: CHUNK_def)
  have inv: "fake_inv (blob ?n) ?rd ?st"
    by (rule test_inv) (simp_all add: Remote.cache_ok_def test_rd_def)
  have rd: "reads_data (blob ?n) ?rd" by (rule test_rd_reads) simp
  have i: "2 < nchunks ?rd" "0 < nchunks ?rd" by (simp_all add: test_nchunks)
  have c: "chunk_len ?rd 0 = 4194304" "chunk_len ?rd (Suc 0) = 4194304" "chunk_len ?rd 2 = 4194304"
    by (simp_all add: test_chunk_len)
  have "[0..<Suc 2] = [0, Suc 0, 2 :: nat]" by (simp add: upt_rec numeral_2_eq_2)
  then have total_len: "sum_list (map (chunk_len ?rd) [0..<Suc 2]) = 12582912" using c by (simp del: upt_Suc)
  have flags: "\<not> rr_supports_range ?rd" "rr_cache ?rd = None" "rm_stream ?st = None" "rm_net ?st = 0"
    by (simp_all add: test_rd_def test_st_def)
  have "2 < unat (div_ceil (of_nat ?n) CHUNK)" by (simp only: div_ceil_less) simp
  then have none: "rm_chunks ?st ! 2 = None" by (simp add: test_st_def)
  obtain st1 where st1: "ensure (fake_fetcher (blob ?n) False) no_faults ?rd 2 ?st = (Some (Ok ()), st1)"
      "rm_net st1 = 12582912" "fake_inv (blob ?n) ?rd st1" "2 < rm_streamed st1"
    using ensure_streams [OF rd inv flags(1,2) i(1) none flags(3), of no_faults] flags(4) total_len by auto
  have one: "test_read (blob ?n) False ?rd (2 * CHUNK + 1) 4 ?st =
      (Some (slice_of (blob ?n) (2 * CHUNK + 1) 4), 12582912, st1)"
    using test_read_one [OF _ inv _ _ _ _ st1(1), of 4 "2 * CHUNK + 1"] u st1(2) by simp
  have "rm_chunks st1 ! 0 \<noteq> None" "length (rm_chunks st1) = nchunks ?rd"
    using st1(3,4) flags(1) by (auto simp: remote_inv_def stream_ok_def chunks_ok_def)
  then have "ensure (fake_fetcher (blob ?n) False) no_faults ?rd 0 st1 = (Some (Ok ()), st1)"
    using i(2) by (auto simp: ensure_def get_def)
  with test_read_one [OF _ st1(3) _ _ _ _ this, of 4 0] st1(2)
  have "test_read (blob ?n) False ?rd 0 4 st1 = (Some (slice_of (blob ?n) 0 4), 12582912, st1)" by simp
  with one show ?thesis
    by (simp add: no_range_streams_up_to_target_def test_reader_ok slice_of_def Let_def)
qed

section \<open>The cache on disk\<close>

lemma no_faults_None [simp]: "no_faults k = None"
  by (simp add: no_faults_def)

lemma cache_store_no_faults:
  "os_files (cache_store no_faults dir i data os) = (os_files os)(part_path dir i := None, chunk_path dir i \<mapsto> data)"
  using part_path_chunk [of dir i i]
  by (auto simp: cache_store_def os_create_dir_def os_write_def os_rename_def fun_eq_iff)

lemma ensure_stores:
  assumes "reads_data data rd" and "rr_supports_range rd" and "rr_cache rd = Some dir" and i: "i < nchunks rd"
    and "length (rm_chunks st) = nchunks rd" and "rm_chunks st ! i = None" and "os_files (rm_os st) (chunk_path dir i) = None"
  shows "\<exists>st'. ensure (fake_fetcher data True) no_faults rd i st = (Some (Ok ()), st') \<and> rm_net st' = rm_net st + chunk_len rd i \<and>
    os_files (rm_os st') (chunk_path dir i) = Some (chunk_content ((!) data) rd i)"
proof -
  let ?st1 = "st\<lparr>rm_os := os_tick (rm_os st)\<rparr>"
  let ?st2 = "remote_store no_faults rd i (chunk_content ((!) data) rd i) (?st1\<lparr>rm_net := rm_net ?st1 + chunk_len rd i\<rparr>)"
  have "get (rm_chunks st) i = Some None" using i assms(5,6) by (simp add: get_def)
  moreover have "cache_hit no_faults rd i st = (None, ?st1)"
    using assms(3,7) by (simp add: cache_hit_def cache_load_def os_read_def)
  ultimately have "ensure (fake_fetcher data True) no_faults rd i st = (Some (Ok ()), ?st2)"
    using assms(2) by (simp add: ensure_def fetch_chunk_fake [OF assms(1) i] del: get_Some)
  moreover have "os_files (rm_os ?st2) (chunk_path dir i) = Some (chunk_content ((!) data) rd i)"
    using assms(3) by (simp add: remote_store_def cache_store_no_faults)
  ultimately show ?thesis by auto
qed

lemma ensure_loads:
  assumes "rr_cache rd = Some dir" and i: "i < nchunks rd" and "length (rm_chunks st) = nchunks rd"
    and "rm_chunks st ! i = None" and "os_files (rm_os st) (chunk_path dir i) = Some (chunk_content ((!) data) rd i)"
  shows "\<exists>st'. ensure fe no_faults rd i st = (Some (Ok ()), st') \<and> rm_net st' = rm_net st"
proof -
  let ?st1 = "st\<lparr>rm_os := os_tick (rm_os st)\<rparr>"
  have "get (rm_chunks st) i = Some None" using i assms(3,4) by (simp add: get_def)
  moreover have "cache_hit no_faults rd i st = (Some (chunk_content ((!) data) rd i), ?st1)"
    using assms(1,5) by (simp add: cache_hit_def cache_load_def os_read_def)
  ultimately show ?thesis by (simp add: ensure_def del: get_Some)
qed

lemma disk_cache_persists_and_reuses: "disk_cache_persists_and_reuses md5_hex tmp"
proof -
  let ?n = "8388611 :: nat"
  let ?dir = "cache_new md5_hex tmp (S ''http://x/y'')"
  let ?rd = "test_rd ?n True (Some ?dir)"
  let ?st = "test_st ?n"
  let ?fe = "fake_fetcher (blob ?n) True"
  have u: "unat (CHUNK + 10 :: u64) = 4194314" by (simp add: CHUNK_def)
  have rd: "reads_data (blob ?n) ?rd" by (rule test_rd_reads) simp
  have i: "1 < nchunks ?rd" by (simp add: test_nchunks)
  have flags: "rr_supports_range ?rd" "rr_cache ?rd = Some ?dir" by (simp_all add: test_rd_def)
  have c: "chunk_len ?rd 1 = 4194304" by (simp add: test_chunk_len)
  have "1 < unat (div_ceil (of_nat ?n) CHUNK)" by (simp only: div_ceil_less) simp
  then have none: "rm_chunks (?st os) ! 1 = None" for os by (simp add: test_st_def)
  have inv: "fake_inv (blob ?n) ?rd (?st empty_os)"
    by (rule test_inv) (simp_all add: Remote.cache_ok_def empty_os_def)
  have len: "length (rm_chunks (?st os)) = nchunks ?rd" for os
    by (simp add: test_st_def nchunks_def test_rd_def)
  obtain st1 where st1: "ensure ?fe no_faults ?rd 1 (?st empty_os) = (Some (Ok ()), st1)" "rm_net st1 = 4194304"
      "os_files (rm_os st1) (chunk_path ?dir 1) = Some (chunk_content ((!) (blob ?n)) ?rd 1)"
    using ensure_stores [OF rd flags i len none, of empty_os] c by (auto simp: test_st_def empty_os_def)
  have one: "test_read (blob ?n) True ?rd (CHUNK + 10) 8 (?st empty_os) =
      (Some (slice_of (blob ?n) (CHUNK + 10) 8), 4194304, st1)"
    using test_read_one [OF _ inv _ _ _ _ st1(1), of 8 "CHUNK + 10"] u st1(2) by simp
  have "fake_inv (blob ?n) ?rd st1"
    using fake.ensure_sound [OF st1(1) inv _ _ i] by (simp add: test_rd_def file_len_def)
  then have "Remote.cache_ok ((!) (blob ?n)) ?rd (rm_os st1)" by (simp add: remote_inv_def)
  then have inv2: "fake_inv (blob ?n) ?rd (?st (rm_os st1))" by (intro test_inv) simp_all
  obtain st2 where st2: "ensure ?fe no_faults ?rd 1 (?st (rm_os st1)) = (Some (Ok ()), st2)" "rm_net st2 = 0"
    using ensure_loads [OF flags(2) i len none, of "rm_os st1" "blob ?n" ?fe] st1(3) by (auto simp: test_st_def)
  have two: "test_read (blob ?n) True ?rd (CHUNK + 10) 8 (?st (rm_os st1)) =
      (Some (slice_of (blob ?n) (CHUNK + 10) 8), 0, st2)"
    using test_read_one [OF _ inv2 _ _ _ _ st2(1), of 8 "CHUNK + 10"] u st2(2) by simp
  have "tmp @ S ''/'' @ md5_hex (as_bytes (S ''http://x/y'')) @ S ''/1'' = chunk_path ?dir 1"
  proof -
    have "show_nat 1 = S ''1''" by code_simp
    then show ?thesis by (simp add: chunk_path_def cache_new_def)
  qed
  then have stored: "os_files (rm_os st1) (tmp @ S ''/'' @ md5_hex (as_bytes (S ''http://x/y'')) @ S ''/1'') \<noteq> None"
    using st1(3) by (simp only:) simp
  show ?thesis
    unfolding disk_cache_persists_and_reuses_def Let_def
    using one two stored by (simp add: test_reader_ok)
qed

end
