(* ===== verification/Tls.thy ===== *)
theory Tls
  imports Http
begin

text \<open>
  src/src/source/tls.rs: the TLS client. The protocol and the check of certificate chains are rustls's: a
  record of the calls that the code makes, over its types of server names, client sessions, sockets,
  certificates and verified handshakes. Warnings are the lines written to standard error.
\<close>

record ('n, 'c, 'k, 's) rustls =
  tls_server_name :: "str \<Rightarrow> 'n option"
  tls_client_new :: "'n \<Rightarrow> str + 'c"
  tls_stream :: "'c \<Rightarrow> 'k \<Rightarrow> 's"

definition tls_connect :: "('n, 'c, 'k, 's) rustls \<Rightarrow> 'k \<Rightarrow> str \<Rightarrow> 's result" where
  "tls_connect lib tcp host =
     (case tls_server_name lib host of
        None \<Rightarrow> Err (HttpError (S ''invalid TLS server name: '' @ host))
      | Some server \<Rightarrow>
          (case tls_client_new lib server of
             Inl e \<Rightarrow> Err (HttpError (S ''TLS init: '' @ e))
           | Inr c \<Rightarrow> Ok (tls_stream lib c tcp)))"

text \<open>\<open>WebPkiServerVerifier\<close>, which \<open>WarnVerifier\<close> wraps; \<open>vf_assertion\<close> is \<open>ServerCertVerified::assertion()\<close>.\<close>

record ('n, 'cert, 'v, 'm, 'd, 'h) verifier =
  vf_server_cert :: "'cert \<Rightarrow> 'cert list \<Rightarrow> 'n \<Rightarrow> bytes \<Rightarrow> nat \<Rightarrow> str + 'v"
  vf_assertion :: 'v
  vf_name_debug :: "'n \<Rightarrow> str"
  vf_tls12 :: "'m \<Rightarrow> 'cert \<Rightarrow> 'd \<Rightarrow> str + 'h"
  vf_tls13 :: "'m \<Rightarrow> 'cert \<Rightarrow> 'd \<Rightarrow> str + 'h"

definition cert_warning :: "str \<Rightarrow> str \<Rightarrow> str" where
  "cert_warning name e =
     S ''lbx: warning: TLS certificate not trusted for '' @ name @ S '': '' @ e @
     S '' (proceeding without verification)''"

definition verify_server_cert ::
  "('n, 'cert, 'v, 'm, 'd, 'h) verifier \<Rightarrow> 'cert \<Rightarrow> 'cert list \<Rightarrow> 'n \<Rightarrow> bytes \<Rightarrow> nat \<Rightarrow>
   (str + 'v) \<times> str list" where
  "verify_server_cert vf end_entity intermediates server_name ocsp now =
     (case vf_server_cert vf end_entity intermediates server_name ocsp now of
        Inr v \<Rightarrow> (Inr v, [])
      | Inl e \<Rightarrow> (Inr (vf_assertion vf), [cert_warning (vf_name_debug vf server_name) e]))"

definition verify_tls12_signature ::
  "('n, 'cert, 'v, 'm, 'd, 'h) verifier \<Rightarrow> 'm \<Rightarrow> 'cert \<Rightarrow> 'd \<Rightarrow> str + 'h" where
  "verify_tls12_signature vf message cert dss = vf_tls12 vf message cert dss"

definition verify_tls13_signature ::
  "('n, 'cert, 'v, 'm, 'd, 'h) verifier \<Rightarrow> 'm \<Rightarrow> 'cert \<Rightarrow> 'd \<Rightarrow> str + 'h" where
  "verify_tls13_signature vf message cert dss = vf_tls13 vf message cert dss"

text \<open>A certificate is never a reason to refuse a connection; one that does not verify is warned of, and only that.\<close>

lemma verify_server_cert_accepts:
  "\<exists>v. fst (verify_server_cert vf c cs name ocsp now) = Inr v"
  by (simp add: verify_server_cert_def split: sum.split)

lemma verify_server_cert_warns:
  "snd (verify_server_cert vf c cs name ocsp now) = [] \<longleftrightarrow> (\<exists>v. vf_server_cert vf c cs name ocsp now = Inr v)"
  by (simp add: verify_server_cert_def split: sum.split)

text \<open>Over TLS, \<open>connect\<close> of the client is \<open>tls_connect\<close> on the socket that was dialled.\<close>

definition with_tls :: "('n, 'c, 'k, 'k) rustls \<Rightarrow> ('k, 'w) network \<Rightarrow> ('k, 'w) network" where
  "with_tls lib nw = nw\<lparr>nw_tls := (\<lambda>k host w. (tls_connect lib k host, w))\<rparr>"

lemma http_connect_tls:
  assumes "nw_resolve nw (ul_host u) w = (Ok ips, w1)" and "dial_any nw (ul_port u) ips None w1 = (Inr k, w2)"
    and "ul_https u"
  shows "http_connect (with_tls lib nw) u w = (tls_connect lib k (ul_host u), w2)"
proof -
  have "dial_any (with_tls lib nw) p ips e w1 = dial_any nw p ips e w1" for p e
    by (induction ips arbitrary: e w1) (simp_all add: with_tls_def split: prod.split sum.split)
  then show ?thesis using assms by (simp add: http_connect_def with_tls_def)
qed

end
