(* ===== verification/Json.thy ===== *)
theory Json
  imports Guest Kernel Vdafix
begin

text \<open>
  The JSON output of src/src/main.rs (\<open>jstr\<close>, \<open>entry_json\<close>, \<open>boot_info_json\<close>), and a reader of JSON
  (RFC 8259, for the values that the program writes) against which it is proved.
\<close>

section \<open>Writing\<close>

definition json_char :: "nat \<Rightarrow> str" where
  "json_char c =
     (if c = 34 then [92, 34]
      else if c = 92 then [92, 92]
      else if c = 10 then [92, 110]
      else if c = 13 then [92, 114]
      else if c = 9 then [92, 116]
      else if c < 0x20 then [92, 117] @ pad_zeros 4 (show_hex c)
      else [c])"

definition jstr :: "str \<Rightarrow> str" where
  "jstr s = [34] @ concat (map json_char s) @ [34]"

definition jopt :: "str option \<Rightarrow> str" where
  "jopt s = (case s of Some s \<Rightarrow> jstr s | None \<Rightarrow> S ''null'')"

definition jsize :: "u64 option \<Rightarrow> str" where
  "jsize n = (case n of Some n \<Rightarrow> show_nat (unat n) | None \<Rightarrow> S ''null'')"

text \<open>\<open>kernel_compression\<close>, which \<open>entry_json\<close> reports.\<close>

definition kernel_compression :: "decoders \<Rightarrow> filesystem \<Rightarrow> boot_entry \<Rightarrow> compression_kind option" where
  "kernel_compression dec fs e =
     Option.bind (be_kernel e) (\<lambda>kern.
     Option.bind (res_ok (fs_read_prefix fs kern SNIFF_LEN)) (compression dec))"

text \<open>The per-entry probes: only with a filesystem, and only when not \<open>quick\<close>.\<close>

definition probed :: "bool \<Rightarrow> filesystem option \<Rightarrow> filesystem option" where
  "probed quick fs = (if quick then None else fs)"

definition file_size_json :: "filesystem option \<Rightarrow> str option \<Rightarrow> str" where
  "file_size_json fs path =
     (case fs of
        Some fs \<Rightarrow> jsize (Option.bind path (\<lambda>k. res_ok (fs_file_size fs k)))
      | None \<Rightarrow> S ''null'')"

definition bool_json :: "bool option \<Rightarrow> str" where
  "bool_json b = (case b of Some b \<Rightarrow> show_bool b | None \<Rightarrow> S ''null'')"

definition compression_json :: "decoders \<Rightarrow> filesystem option \<Rightarrow> boot_entry \<Rightarrow> str" where
  "compression_json dec fs e =
     (case fs of
        Some fs \<Rightarrow> jopt (map_option compression_label (kernel_compression dec fs e))
      | None \<Rightarrow> S ''null'')"

definition windows_json :: "windows_boot option \<Rightarrow> str \<times> str \<times> str" where
  "windows_json w =
     (case w of
        Some w \<Rightarrow> (jstr (firmware_display (wb_firmware w)), jopt (wb_arch w), jopt (wb_loader w))
      | None \<Rightarrow> (S ''null'', S ''null'', S ''null''))"

text \<open>A field of the object that \<open>format!\<close> writes: the key in quotes, a colon, the text of the value.\<close>

definition field_text :: "string \<Rightarrow> str \<Rightarrow> str" where
  "field_text k v = [34] @ S k @ [34, 58] @ v"

definition entry_json ::
  "decoders \<Rightarrow> nat \<Rightarrow> bool \<Rightarrow> boot_entry \<Rightarrow> str option \<Rightarrow> filesystem option \<Rightarrow> bool option \<Rightarrow> bool \<Rightarrow> str" where
  "entry_json dec part is_default e fixed fs dma quick =
     (case windows_json (be_windows e) of
        (firmware, arch, loader) \<Rightarrow>
          S ''{'' @ field_text ''partition'' (show_nat part)
          @ S '','' @ field_text ''default'' (show_bool is_default)
          @ S '','' @ field_text ''type'' (jstr (entry_kind_display (entry_kind_of e)))
          @ S '','' @ field_text ''source'' (jstr (source_display (be_source e)))
          @ S '','' @ field_text ''title'' (jopt (be_title e))
          @ S '','' @ field_text ''version'' (jopt (be_version e))
          @ S '','' @ field_text ''id'' (jopt (be_id e))
          @ S '','' @ field_text ''kernel'' (jopt (map_option (uri part) (be_kernel e)))
          @ S '','' @ field_text ''kernel_size'' (file_size_json (probed quick fs) (be_kernel e))
          @ S '','' @ field_text ''initrd''
              (S ''['' @ str_join (S '','') (map (\<lambda>i. jstr (uri part i)) (be_initrd e)) @ S '']'')
          @ S '','' @ field_text ''initrd_size''
              (S ''['' @ str_join (S '','') (map (\<lambda>i. file_size_json (probed quick fs) (Some i)) (be_initrd e)) @ S '']'')
          @ S '','' @ field_text ''cmdline'' (jopt (be_cmdline e))
          @ S '','' @ field_text ''cmdline_fixed'' (jopt fixed)
          @ S '','' @ field_text ''dma_restricted_pool'' (bool_json dma)
          @ S '','' @ field_text ''kernel_compression'' (compression_json dec (probed quick fs) e)
          @ S '','' @ field_text ''firmware'' firmware
          @ S '','' @ field_text ''arch'' arch
          @ S '','' @ field_text ''loader'' loader @ S ''}'')"

definition boot_info_json ::
  "decoders \<Rightarrow> nat \<Rightarrow> boot_entry \<Rightarrow> str option \<Rightarrow> str list \<Rightarrow> filesystem option \<Rightarrow> str" where
  "boot_info_json dec part e fixed configs fs =
     S ''{'' @ field_text ''entry''
       (entry_json dec part True e fixed fs (Option.bind fs (\<lambda>fs. dma_restricted_pool fs e)) False)
     @ S '','' @ field_text ''configs''
         (S ''['' @ str_join (S '','') (map (\<lambda>c. jstr (uri part c)) configs) @ S '']'') @ S ''}''"

section \<open>JSON values and their text\<close>

datatype json =
    JNull
  | JBool bool
  | JNum nat
  | JStr str
  | JArr "json list"
  | JObj "(str \<times> json) list"

fun json_text :: "json \<Rightarrow> str" where
  "json_text JNull = S ''null''"
| "json_text (JBool b) = show_bool b"
| "json_text (JNum n) = show_nat n"
| "json_text (JStr s) = jstr s"
| "json_text (JArr vs) = S ''['' @ str_join (S '','') (map json_text vs) @ S '']''"
| "json_text (JObj fs) =
     S ''{'' @ str_join (S '','') (map (\<lambda>(k, v). jstr k @ S '':'' @ json_text v) fs) @ S ''}''"

definition json_opt :: "('a \<Rightarrow> json) \<Rightarrow> 'a option \<Rightarrow> json" where
  "json_opt f x = (case x of Some x \<Rightarrow> f x | None \<Rightarrow> JNull)"

text \<open>What an entry should be as JSON.\<close>

definition size_value :: "filesystem option \<Rightarrow> str option \<Rightarrow> json" where
  "size_value fs path =
     json_opt (\<lambda>n. JNum (unat n)) (Option.bind fs (\<lambda>fs. Option.bind path (\<lambda>k. res_ok (fs_file_size fs k))))"

definition entry_value ::
  "decoders \<Rightarrow> nat \<Rightarrow> bool \<Rightarrow> boot_entry \<Rightarrow> str option \<Rightarrow> filesystem option \<Rightarrow> bool option \<Rightarrow> json" where
  "entry_value dec part is_default e fixed fs dma =
     (let w = be_windows e in JObj
       [(S ''partition'', JNum part), (S ''default'', JBool is_default),
        (S ''type'', JStr (entry_kind_display (entry_kind_of e))),
        (S ''source'', JStr (source_display (be_source e))),
        (S ''title'', json_opt JStr (be_title e)), (S ''version'', json_opt JStr (be_version e)),
        (S ''id'', json_opt JStr (be_id e)),
        (S ''kernel'', json_opt JStr (map_option (uri part) (be_kernel e))),
        (S ''kernel_size'', size_value fs (be_kernel e)),
        (S ''initrd'', JArr (map (\<lambda>i. JStr (uri part i)) (be_initrd e))),
        (S ''initrd_size'', JArr (map (\<lambda>i. size_value fs (Some i)) (be_initrd e))),
        (S ''cmdline'', json_opt JStr (be_cmdline e)), (S ''cmdline_fixed'', json_opt JStr fixed),
        (S ''dma_restricted_pool'', json_opt JBool dma),
        (S ''kernel_compression'',
           json_opt (JStr \<circ> compression_label) (Option.bind fs (\<lambda>fs. kernel_compression dec fs e))),
        (S ''firmware'', json_opt (JStr \<circ> firmware_display \<circ> wb_firmware) w),
        (S ''arch'', json_opt JStr (Option.bind w wb_arch)),
        (S ''loader'', json_opt JStr (Option.bind w wb_loader))])"

definition boot_info_value ::
  "decoders \<Rightarrow> nat \<Rightarrow> boot_entry \<Rightarrow> str option \<Rightarrow> str list \<Rightarrow> filesystem option \<Rightarrow> json" where
  "boot_info_value dec part e fixed configs fs = JObj
     [(S ''entry'', entry_value dec part True e fixed fs (Option.bind fs (\<lambda>fs. dma_restricted_pool fs e))),
      (S ''configs'', JArr (map (\<lambda>c. JStr (uri part c)) configs))]"

section \<open>Reading\<close>

definition json_escape :: "nat \<Rightarrow> nat option" where
  "json_escape d =
     (if d = 34 \<or> d = 92 \<or> d = 47 then Some d
      else if d = 98 then Some 8 else if d = 102 then Some 12
      else if d = 110 then Some 10 else if d = 114 then Some 13 else if d = 116 then Some 9
      else None)"

definition json_hex4 :: "str \<Rightarrow> nat option" where
  "json_hex4 s =
     (if length s < 4 then None
      else Option.bind (digits_value 16 0 (take 4 s)) (\<lambda>v. if is_scalar v then Some v else None))"

definition json_more :: "nat \<Rightarrow> (str \<times> str) option \<Rightarrow> (str \<times> str) option" where
  "json_more c = map_option (\<lambda>(s, rest). (c # s, rest))"

text \<open>The characters of a string, after its opening quote, and what follows the closing one.\<close>

function json_string :: "str \<Rightarrow> (str \<times> str) option" where
  "json_string [] = None"
| "json_string (c # cs) =
     (if c = 34 then Some ([], cs)
      else if c = 92 then
        (case cs of
           [] \<Rightarrow> None
         | d # ds \<Rightarrow>
             if d = 117
             then Option.bind (json_hex4 ds) (\<lambda>v. json_more v (json_string (drop 4 ds)))
             else Option.bind (json_escape d) (\<lambda>v. json_more v (json_string ds)))
      else if c < 32 then None
      else json_more c (json_string cs))"
  by pat_completeness auto
termination by (relation "measure length") auto

definition json_number :: "str \<Rightarrow> (json \<times> str) option" where
  "json_number s =
     (let ds = takeWhile is_ascii_digit s
      in if ds = [] then None
         else map_option (\<lambda>n. (JNum n, dropWhile is_ascii_digit s)) (digits_value 10 0 ds))"

definition json_word :: "str \<Rightarrow> (json \<times> str) option" where
  "json_word s =
     (case strip_prefix (S ''null'') s of Some r \<Rightarrow> Some (JNull, r) | None \<Rightarrow>
     (case strip_prefix (S ''true'') s of Some r \<Rightarrow> Some (JBool True, r) | None \<Rightarrow>
     (case strip_prefix (S ''false'') s of Some r \<Rightarrow> Some (JBool False, r) | None \<Rightarrow> json_number s)))"

text \<open>Values, items of an array and members of an object; the first argument bounds the nesting.\<close>

fun json_value :: "nat \<Rightarrow> str \<Rightarrow> (json \<times> str) option"
  and json_items :: "nat \<Rightarrow> str \<Rightarrow> (json list \<times> str) option"
  and json_members :: "nat \<Rightarrow> str \<Rightarrow> ((str \<times> json) list \<times> str) option" where
  "json_value 0 s = None"
| "json_value (Suc n) s =
     (case s of
        [] \<Rightarrow> None
      | c # cs \<Rightarrow>
          if c = 34 then map_option (map_prod JStr id) (json_string cs)
          else if c = 91 then
            (case strip_prefix [93] cs of
               Some r \<Rightarrow> Some (JArr [], r)
             | None \<Rightarrow> map_option (map_prod JArr id) (json_items n cs))
          else if c = 123 then
            (case strip_prefix [125] cs of
               Some r \<Rightarrow> Some (JObj [], r)
             | None \<Rightarrow> map_option (map_prod JObj id) (json_members n cs))
          else json_word s)"
| "json_items 0 s = None"
| "json_items (Suc n) s =
     (case json_value n s of
        Some (v, c # r) \<Rightarrow>
          if c = 93 then Some ([v], r)
          else if c = 44 then map_option (map_prod (Cons v) id) (json_items n r)
          else None
      | _ \<Rightarrow> None)"
| "json_members 0 s = None"
| "json_members (Suc n) s =
     Option.bind (strip_prefix [34] s) (\<lambda>cs.
     Option.bind (json_string cs) (\<lambda>(k, r).
     Option.bind (strip_prefix [58] r) (\<lambda>r.
     case json_value n r of
       Some (v, c # r) \<Rightarrow>
         if c = 125 then Some ([(k, v)], r)
         else if c = 44 then map_option (map_prod (Cons (k, v)) id) (json_members n r)
         else None
     | _ \<Rightarrow> None)))"

definition json_parse :: "str \<Rightarrow> json option" where
  "json_parse s =
     (case json_value (Suc (length s)) s of Some (v, []) \<Rightarrow> Some v | _ \<Rightarrow> None)"

section \<open>What is written is read back\<close>

lemma json_hex_control:
  assumes "c < 32"
  shows "json_hex4 (pad_zeros 4 (show_hex c) @ s) = Some c" and "drop 4 (pad_zeros 4 (show_hex c) @ s) = s"
proof -
  have "list_all (\<lambda>c. length (pad_zeros 4 (show_hex c)) = 4 \<and>
      digits_value 16 0 (pad_zeros 4 (show_hex c)) = Some c) [0..<32]" by code_simp
  then have "length (pad_zeros 4 (show_hex c)) = 4" "digits_value 16 0 (pad_zeros 4 (show_hex c)) = Some c"
    using assms by (simp_all add: list_all_iff)
  with assms show "json_hex4 (pad_zeros 4 (show_hex c) @ s) = Some c" "drop 4 (pad_zeros 4 (show_hex c) @ s) = s"
    by (simp_all add: json_hex4_def is_scalar_def)
qed

lemma json_string_char: "json_string (json_char c @ s) = json_more c (json_string s)"
proof -
  consider "c = 34" | "c = 92" | "c = 10" | "c = 13" | "c = 9"
    | "c < 32" "c \<noteq> 10" "c \<noteq> 13" "c \<noteq> 9" | "32 \<le> c" "c \<noteq> 34" "c \<noteq> 92" by linarith
  then show ?thesis
    by cases (simp_all add: json_char_def json_escape_def json_hex_control del: drop_append)
qed

lemma json_string_body: "json_string (concat (map json_char s) @ 34 # rest) = Some (s, rest)"
  by (induction s) (simp_all add: json_string_char json_more_def)

lemma json_string_jstr: "\<exists>cs. jstr s @ rest = 34 # cs \<and> json_string cs = Some (s, rest)"
  by (simp add: jstr_def json_string_body)

text \<open>What may follow a value: anything but a digit, which a number would take.\<close>

definition ends_value :: "str \<Rightarrow> bool" where
  "ends_value rest \<longleftrightarrow> (case rest of [] \<Rightarrow> True | c # _ \<Rightarrow> \<not> is_ascii_digit c)"

lemma json_number_show:
  assumes "ends_value rest"
  shows "json_number (show_nat n @ rest) = Some (JNum n, rest)"
proof -
  have d: "\<forall>c \<in> set (show_nat n). is_ascii_digit c" using show_nat_digits by blast
  have "takeWhile is_ascii_digit (show_nat n @ rest) = show_nat n" "dropWhile is_ascii_digit (show_nat n @ rest) = rest"
    using d assms by (cases rest; simp add: ends_value_def takeWhile_append dropWhile_append)+
  then show ?thesis by (simp add: json_number_def digits_value_show)
qed

lemma json_word_show: "ends_value rest \<Longrightarrow> json_word (show_nat n @ rest) = Some (JNum n, rest)"
proof -
  assume e: "ends_value rest"
  obtain c cs where c: "show_nat n = c # cs" using show_base_not_Nil by (metis neq_Nil_conv)
  then have "is_ascii_digit c" using show_nat_digits [of c n] by simp
  then have "strip_prefix (S ''null'') (show_nat n @ rest) = None"
    "strip_prefix (S ''true'') (show_nat n @ rest) = None"
    "strip_prefix (S ''false'') (show_nat n @ rest) = None"
    unfolding c by (auto simp: is_ascii_digit_def)
  then show ?thesis unfolding json_word_def using json_number_show [OF e] by simp
qed

lemma json_text_head: "\<exists>c cs. json_text v = c # cs \<and> c \<noteq> 93"
proof (cases v)
  case (JNum n)
  obtain c cs where c: "show_nat n = c # cs" using show_base_not_Nil by (metis neq_Nil_conv)
  then have "is_ascii_digit c" using show_nat_digits [of c n] by simp
  then have "c \<noteq> 93" by (auto simp: is_ascii_digit_def)
  with JNum c show ?thesis by simp
qed (auto simp: show_bool_def jstr_def)

lemma json_text_length: "0 < length (json_text v)"
  using json_text_head [of v] by auto

lemma json_value_scalar:
  assumes "ends_value rest"
  shows "json_value (Suc n) (show_nat k @ rest) = Some (JNum k, rest)"
    and "json_value (Suc n) (show_bool b @ rest) = Some (JBool b, rest)"
    and "json_value (Suc n) (S ''null'' @ rest) = Some (JNull, rest)"
    and "json_value (Suc n) (jstr s @ rest) = Some (JStr s, rest)"
proof -
  obtain c cs where c: "show_nat k = c # cs" using show_base_not_Nil by (metis neq_Nil_conv)
  then have "is_ascii_digit c" using show_nat_digits [of c k] by simp
  then have "c \<noteq> 34" "c \<noteq> 91" "c \<noteq> 123" by (auto simp: is_ascii_digit_def)
  with json_word_show [OF assms, of k] show "json_value (Suc n) (show_nat k @ rest) = Some (JNum k, rest)"
    by (simp add: c)
  show "json_value (Suc n) (show_bool b @ rest) = Some (JBool b, rest)"
    by (simp add: show_bool_def json_word_def)
  show "json_value (Suc n) (S ''null'' @ rest) = Some (JNull, rest)" by (simp add: json_word_def)
  show "json_value (Suc n) (jstr s @ rest) = Some (JStr s, rest)"
    by (simp add: jstr_def json_string_body)
qed

lemma str_join_Cons: "vs \<noteq> [] \<Longrightarrow> str_join sep (v # vs) = v @ sep @ str_join sep vs"
  by (cases vs) auto

definition reads_back :: "json \<Rightarrow> bool" where
  "reads_back v \<longleftrightarrow>
     (\<forall>n rest. length (json_text v) < n \<longrightarrow> ends_value rest \<longrightarrow> json_value n (json_text v @ rest) = Some (v, rest))"

lemma json_items_back:
  "vs \<noteq> [] \<Longrightarrow> \<forall>v \<in> set vs. reads_back v \<Longrightarrow> length (str_join [44] (map json_text vs)) + 1 < n \<Longrightarrow>
   json_items n (str_join [44] (map json_text vs) @ 93 # rest) = Some (vs, rest)"
proof (induction vs arbitrary: n)
  case (Cons v vs)
  then obtain m where n: "n = Suc m" by (cases n) auto
  have v: "json_value m (json_text v @ r) = Some (v, r)" if "length (json_text v) < m" "ends_value r" for r
    using Cons.prems(2) that by (simp add: reads_back_def)
  show ?case
  proof (cases "vs = []")
    case True
    have "json_value m (json_text v @ 93 # rest) = Some (v, 93 # rest)"
      using Cons.prems(3) True n by (intro v) (auto simp: ends_value_def is_ascii_digit_def)
    then show ?thesis using True n by simp
  next
    case False
    let ?r = "str_join [44] (map json_text vs) @ 93 # rest"
    have "json_value m (json_text v @ 44 # ?r) = Some (v, 44 # ?r)"
      using Cons.prems(3) False n by (intro v) (auto simp: ends_value_def is_ascii_digit_def str_join_Cons)
    moreover have "json_items m ?r = Some (vs, rest)"
      by (rule Cons.IH) (use Cons.prems False n json_text_length [of v] in \<open>auto simp: str_join_Cons\<close>)
    ultimately show ?thesis using False n by (simp add: str_join_Cons)
  qed
qed simp

definition member_text :: "str \<times> json \<Rightarrow> str" where
  "member_text kv = jstr (fst kv) @ 58 # json_text (snd kv)"

lemma member_text_pair: "member_text (k, v) = jstr k @ 58 # json_text v"
  by (simp add: member_text_def)

lemma json_text_object: "json_text (JObj fs) = 123 # str_join [44] (map member_text fs) @ [125]"
proof -
  have "(\<lambda>(k, v). jstr k @ S '':'' @ json_text v) = member_text" by (auto simp: member_text_def fun_eq_iff)
  then show ?thesis by simp
qed

lemma json_members_back:
  "fs \<noteq> [] \<Longrightarrow> \<forall>kv \<in> set fs. reads_back (snd kv) \<Longrightarrow> length (str_join [44] (map member_text fs)) + 1 < n \<Longrightarrow>
   json_members n (str_join [44] (map member_text fs) @ 125 # rest) = Some (fs, rest)"
proof (induction fs arbitrary: n)
  case (Cons kv fs)
  then obtain m where n: "n = Suc m" by (cases n) auto
  obtain k v where kv: "kv = (k, v)" by (cases kv)
  have v: "json_value m (json_text v @ r) = Some (v, r)" if "length (json_text v) < m" "ends_value r" for r
    using Cons.prems(2) that by (simp add: reads_back_def kv)
  have key: "jstr k @ r = 34 # concat (map json_char k) @ 34 # r" for r by (simp add: jstr_def)
  show ?case
  proof (cases "fs = []")
    case True
    have "json_value m (json_text v @ 125 # rest) = Some (v, 125 # rest)"
      using Cons.prems(3) True n by (intro v) (auto simp: ends_value_def is_ascii_digit_def member_text_pair kv)
    then show ?thesis using True n by (simp add: member_text_pair kv key json_string_body)
  next
    case False
    let ?r = "str_join [44] (map member_text fs) @ 125 # rest"
    have "json_value m (json_text v @ 44 # ?r) = Some (v, 44 # ?r)"
      using Cons.prems(3) False n
      by (intro v) (auto simp: ends_value_def is_ascii_digit_def str_join_Cons member_text_pair kv)
    moreover have "json_members m ?r = Some (fs, rest)"
      by (rule Cons.IH) (use Cons.prems False n in \<open>auto simp: str_join_Cons member_text_def\<close>)
    ultimately show ?thesis using False n by (simp add: str_join_Cons member_text_pair kv key json_string_body)
  qed
qed simp

lemma reads_back_scalar:
  assumes "\<And>m rest. ends_value rest \<Longrightarrow> json_value (Suc m) (json_text v @ rest) = Some (v, rest)"
  shows "reads_back v"
  unfolding reads_back_def
proof (intro allI impI)
  fix n rest
  assume "length (json_text v) < n" and e: "ends_value rest"
  then obtain m where "n = Suc m" by (cases n) auto
  with assms [OF e] show "json_value n (json_text v @ rest) = Some (v, rest)" by simp
qed

lemma reads_back: "reads_back v"
proof (induction v)
  case (JArr vs)
  show ?case unfolding reads_back_def
  proof (intro allI impI)
    fix n rest
    assume n: "length (json_text (JArr vs)) < n" and e: "ends_value rest"
    then obtain m where m: "n = Suc m" by (cases n) auto
    show "json_value n (json_text (JArr vs) @ rest) = Some (JArr vs, rest)"
    proof (cases vs)
      case Nil
      then show ?thesis using m by simp
    next
      case (Cons v ws)
      obtain c cs where "json_text v = c # cs" "c \<noteq> 93" using json_text_head by blast
      then have "strip_prefix [93] (str_join [44] (map json_text vs) @ 93 # rest) = None"
        using Cons by (cases ws) simp_all
      moreover have "json_items m (str_join [44] (map json_text vs) @ 93 # rest) = Some (vs, rest)"
        by (rule json_items_back) (use JArr Cons n m in auto)
      ultimately show ?thesis using m by simp
    qed
  qed
next
  case (JObj fs)
  show ?case unfolding reads_back_def
  proof (intro allI impI)
    fix n rest
    assume n: "length (json_text (JObj fs)) < n" and e: "ends_value rest"
    then obtain m where m: "n = Suc m" by (cases n) auto
    show "json_value n (json_text (JObj fs) @ rest) = Some (JObj fs, rest)"
    proof (cases fs)
      case Nil
      then show ?thesis using m by simp
    next
      case (Cons kv gs)
      have "strip_prefix [125] (str_join [44] (map member_text fs) @ 125 # rest) = None"
        using Cons by (cases gs) (simp_all add: member_text_def jstr_def)
      moreover have mem: "\<forall>kv \<in> set fs. reads_back (snd kv)"
      proof
        fix kv assume "kv \<in> set fs"
        then show "reads_back (snd kv)" by (rule JObj) (cases kv, simp)
      qed
      moreover have "json_members m (str_join [44] (map member_text fs) @ 125 # rest) = Some (fs, rest)"
        by (rule json_members_back) (use mem Cons n m in \<open>simp_all add: json_text_object del: json_text.simps list.map\<close>)
      ultimately show ?thesis using m unfolding json_text_object by simp
    qed
  qed
next
  case JNull
  show ?case by (rule reads_back_scalar, unfold json_text.simps, rule json_value_scalar)
next
  case (JBool b)
  show ?case by (rule reads_back_scalar, unfold json_text.simps, rule json_value_scalar)
next
  case (JNum n)
  show ?case by (rule reads_back_scalar, unfold json_text.simps, rule json_value_scalar)
next
  case (JStr s)
  show ?case by (rule reads_back_scalar, unfold json_text.simps, rule json_value_scalar)
qed

lemma json_parse_text: "json_parse (json_text v) = Some v"
proof -
  have "json_value (Suc (length (json_text v))) (json_text v @ []) = Some (v, [])"
    using reads_back [of v] by (simp add: reads_back_def ends_value_def del: json_value.simps append_Nil2)
  then show ?thesis by (simp add: json_parse_def del: json_value.simps)
qed

text \<open>The text that the program writes is that of the value.\<close>

lemma jopt_text: "jopt s = json_text (json_opt JStr s)"
  by (cases s) (simp_all add: jopt_def json_opt_def)

lemma bool_json_text: "bool_json b = json_text (json_opt JBool b)"
  by (cases b) (simp_all add: bool_json_def json_opt_def)

lemma file_size_json_text: "file_size_json fs path = json_text (size_value fs path)"
  by (simp add: file_size_json_def size_value_def json_opt_def jsize_def split: option.split)

lemma compression_json_text:
  "compression_json dec fs e =
   json_text (json_opt (JStr \<circ> compression_label) (Option.bind fs (\<lambda>fs. kernel_compression dec fs e)))"
  by (cases fs) (simp_all add: compression_json_def json_opt_def jopt_def split: option.split)

lemma windows_json_text:
  "windows_json w =
   (json_text (json_opt (JStr \<circ> firmware_display \<circ> wb_firmware) w),
    json_text (json_opt JStr (Option.bind w wb_arch)), json_text (json_opt JStr (Option.bind w wb_loader)))"
  by (cases w) (simp_all add: windows_json_def json_opt_def jopt_def split: option.split)

lemma jstr_plain: "list_all (\<lambda>c. json_char c = [c]) s \<Longrightarrow> jstr s = 34 # s @ [34]"
proof -
  assume "list_all (\<lambda>c. json_char c = [c]) s"
  then have "concat (map json_char s) = s" by (induction s) auto
  then show ?thesis by (simp add: jstr_def)
qed

lemma initrd_text:
  "S ''['' @ str_join (S '','') (map (\<lambda>i. jstr (f i)) xs) @ S '']'' = json_text (JArr (map (\<lambda>i. JStr (f i)) xs))"
  "S ''['' @ str_join (S '','') (map (\<lambda>i. file_size_json fs (g i)) xs) @ S '']'' =
     json_text (JArr (map (\<lambda>i. size_value fs (g i)) xs))"
  by (simp_all add: comp_def file_size_json_text)

lemma entry_json_text:
  "entry_json dec part is_default e fixed fs dma quick =
   json_text (entry_value dec part is_default e fixed (probed quick fs) dma)"
  unfolding entry_json_def windows_json_text prod.case jopt_text bool_json_text compression_json_text initrd_text
    file_size_json_text entry_value_def Let_def
  by (simp add: field_text_def jstr_plain json_char_def comp_def)

lemma boot_info_json_text:
  "boot_info_json dec part e fixed configs fs = json_text (boot_info_value dec part e fixed configs fs)"
  unfolding boot_info_json_def boot_info_value_def entry_json_text
  by (simp add: field_text_def jstr_plain json_char_def comp_def probed_def del: json_text.simps(5,6))
    (simp add: jstr_plain json_char_def comp_def)

text \<open>
  C37: the JSON of an entry, and of the boot entry with its configs, is well formed and reads back as what it
  reports, whatever characters titles, paths and command lines hold: every field has its value, and only what was
  not probed or is not there is null.
\<close>

theorem entry_json_reads_back:
  "json_parse (entry_json dec part is_default e fixed fs dma quick) =
     Some (entry_value dec part is_default e fixed (if quick then None else fs) dma) \<and>
   json_parse (boot_info_json dec part e fixed configs fs) = Some (boot_info_value dec part e fixed configs fs)"
  unfolding entry_json_text boot_info_json_text probed_def by (simp only: json_parse_text)

end
