(* ===== verification/Cli.thy ===== *)
theory Cli
  imports Json Disk Remote "HOL-Library.Log_Nat" "HOL-Library.Code_Target_Nat"
begin

text \<open>
  src/src/main.rs: the commands of the program. A command runs on the state of the host: what was written
  to standard output, the files and directories outside the image, and the errors the shell reported. It
  ends with a value or a failure. Standard output itself never fails; the other file operations fail as
  \<open>Remote\<close>'s \<open>faults\<close> say. Reading the command line (clap) is not modelled.
\<close>

section \<open>Commands\<close>

text \<open>
  \<open>anyhow::Error\<close>: a message (\<open>bail!\<close>, \<open>anyhow!\<close>), an error of the library, of a file operation or of
  \<open>parse::<usize>\<close>, or one of these with a context. A panic is \<open>Lib Panic\<close>; a context never wraps it.
\<close>

datatype failure =
    Message str
  | Lib error
  | OsFailed
  | BadNumber
  | Context str failure

record host =
  ho_out :: bytes
  ho_err :: "failure list"
  ho_os :: os
  ho_dirs :: "str set"

type_synonym 'a cmd = "host \<Rightarrow> (failure + 'a) \<times> host"

definition cret :: "'a \<Rightarrow> 'a cmd" where
  "cret x h = (Inr x, h)"

definition cfail :: "failure \<Rightarrow> 'a cmd" where
  "cfail f h = (Inl f, h)"

definition cbind :: "'a cmd \<Rightarrow> ('a \<Rightarrow> 'b cmd) \<Rightarrow> 'b cmd" where
  "cbind m k h = (case m h of (Inl f, h) \<Rightarrow> (Inl f, h) | (Inr x, h) \<Rightarrow> k x h)"

definition cthen :: "unit cmd \<Rightarrow> 'b cmd \<Rightarrow> 'b cmd" where
  "cthen m k = cbind m (\<lambda>_. k)"

definition clift :: "'a result \<Rightarrow> 'a cmd" where
  "clift r = (case r of Inl e \<Rightarrow> cfail (Lib e) | Inr x \<Rightarrow> cret x)"

definition clift_with :: "str \<Rightarrow> 'a result \<Rightarrow> 'a cmd" where
  "clift_with context_text r =
     (case r of
        Inl e \<Rightarrow> cfail (if e = Panic then Lib Panic else Context context_text (Lib e))
      | Inr x \<Rightarrow> cret x)"

definition put :: "bytes \<Rightarrow> unit cmd" where
  "put bs h = (Inr (), h\<lparr>ho_out := ho_out h @ bs\<rparr>)"

definition say :: "str \<Rightarrow> unit cmd" where
  "say s = put (as_bytes (s @ [10]))"

fun ceach :: "('a \<Rightarrow> unit cmd) \<Rightarrow> 'a list \<Rightarrow> unit cmd" where
  "ceach f [] = cret ()"
| "ceach f (x # xs) = cthen (f x) (ceach f xs)"

definition say_lines :: "str list \<Rightarrow> unit cmd" where
  "say_lines ls = ceach say ls"

text \<open>The libraries and the system behind the program.\<close>

record 'z tools =
  tl_source :: "str \<Rightarrow> dev result"
  tl_inflate :: "'z inflater"
  tl_fs :: "dev \<Rightarrow> filesystem result"
  tl_dec :: decoders
  tl_md5 :: "bytes \<Rightarrow> str"
  tl_faults :: faults

text \<open>
  \<open>std::fs::write\<close> and \<open>create_dir_all\<close>: a directory cannot be written to, and where a file stands, at the
  path or above it, no directory can be made.
\<close>

definition host_write :: "'z tools \<Rightarrow> str \<Rightarrow> bytes \<Rightarrow> unit cmd" where
  "host_write ts path data h =
     (if path \<in> ho_dirs h then (Inl OsFailed, h)
      else case os_write (tl_faults ts) path data (ho_os h) of
             (ok, os) \<Rightarrow> (if ok then Inr () else Inl OsFailed, h\<lparr>ho_os := os\<rparr>))"

definition path_and_parents :: "str \<Rightarrow> str list" where
  "path_and_parents path =
     path # map (\<lambda>i. take i path) (filter (\<lambda>i. path ! i = ch CHR ''/'') [1..<length path])"

definition file_in_the_way :: "os \<Rightarrow> str \<Rightarrow> bool" where
  "file_in_the_way os path \<longleftrightarrow> list_ex (\<lambda>p. os_files os p \<noteq> None) (path_and_parents path)"

definition host_mkdir :: "'z tools \<Rightarrow> str \<Rightarrow> unit cmd" where
  "host_mkdir ts path h =
     (case os_create_dir (tl_faults ts) (ho_os h) of
        (ok, os) \<Rightarrow>
          if ok \<and> \<not> file_in_the_way os path
          then (Inr (), h\<lparr>ho_os := os, ho_dirs := insert path (ho_dirs h)\<rparr>)
          else (Inl OsFailed, h\<lparr>ho_os := os\<rparr>))"

section \<open>Text\<close>

definition pad_left :: "nat \<Rightarrow> str \<Rightarrow> str" where
  "pad_left w s = replicate (w - length s) 32 @ s"

definition pad_right :: "nat \<Rightarrow> str \<Rightarrow> str" where
  "pad_right w s = s @ replicate (w - length s) 32"

text \<open>
  \<open>human_size\<close>: the number as an \<open>f64\<close> (53 bits, half to even), divided by 1024 (exact) as long as the next
  unit fits, with one decimal (\<open>{:.1}\<close>: half to even of the exact value).
\<close>

definition round_half_even :: "nat \<Rightarrow> nat \<Rightarrow> nat" where
  "round_half_even n d =
     (let q = n div d; r = n mod d in if d < 2 * r \<or> d = 2 * r \<and> odd q then q + 1 else q)"

definition to_f64 :: "nat \<Rightarrow> nat" where
  "to_f64 n =
     (let e = floorlog 2 n - 53 in round_half_even n (2 ^ e) * 2 ^ e)"

definition UNITS :: "str list" where
  "UNITS = [S ''B'', S ''KiB'', S ''MiB'', S ''GiB'', S ''TiB'']"

function unit_from :: "nat \<Rightarrow> nat \<Rightarrow> nat" where
  "unit_from v u = (if 1024 ^ Suc u \<le> v \<and> u < length UNITS - 1 then unit_from v (Suc u) else u)"
  by pat_completeness auto
termination by (relation "measure (\<lambda>(v, u). length UNITS - u)") auto

declare unit_from.simps [simp del]

definition human_size :: "u64 \<Rightarrow> str" where
  "human_size n =
     (let v = to_f64 (unat n); u = unit_from v 0
      in if u = 0 then show_nat (unat n) @ S '' B''
         else
           let tenths = round_half_even (10 * v) (1024 ^ u)
           in show_nat (tenths div 10) @ S ''.'' @ show_nat (tenths mod 10) @ S '' '' @ UNITS ! u)"

fun table_kind_debug :: "table_kind \<Rightarrow> str" where
  "table_kind_debug Gpt = S ''Gpt''"
| "table_kind_debug Mbr = S ''Mbr''"
| "table_kind_debug NoTable = S ''None''"

section \<open>Opening\<close>

text \<open>\<open>parse_uri\<close>: \<open>pN:/path\<close>, or a bare path for any partition.\<close>

definition parse_uri :: "str \<Rightarrow> nat option \<times> str" where
  "parse_uri s =
     (case Option.bind (Option.bind (strip_prefix (S ''p'') s) (split_once (ch CHR '':'')))
             (\<lambda>(num, path). map_option (\<lambda>n. (n, path)) (parse_usize num)) of
        Some (n, path) \<Rightarrow> (Some n, if starts_with (S ''/'') path then path else S ''/'' @ path)
      | None \<Rightarrow> (None, s))"

definition open_disk :: "'z tools \<Rightarrow> str \<Rightarrow> disk_image cmd" where
  "open_disk ts locator = clift_with (S ''opening '' @ locator) (disk_open (tl_source ts) (tl_inflate ts) locator)"

type_synonym part_fs = "partition \<times> filesystem"

definition selected :: "nat option \<Rightarrow> partition \<Rightarrow> bool" where
  "selected only p \<longleftrightarrow> (case only of Some idx \<Rightarrow> p_index p = idx | None \<Rightarrow> p_probe_worthy p)"

fun open_parts ::
  "(dev \<Rightarrow> filesystem result) \<Rightarrow> dev \<Rightarrow> nat option \<Rightarrow> partition list \<Rightarrow> part_fs list result" where
  "open_parts open_fs disk only [] = Ok []"
| "open_parts open_fs disk only (p # ps) =
     (if \<not> selected only p then open_parts open_fs disk only ps
      else case open_fs (partition_open p disk) of
             Inr fs \<Rightarrow> rbind (open_parts open_fs disk only ps) (\<lambda>r. Ok ((p, fs) # r))
           | Inl e \<Rightarrow>
               if only \<noteq> None \<or> e = Panic then Err e
               else open_parts open_fs disk only ps)"

definition open_filesystems ::
  "(dev \<Rightarrow> filesystem result) \<Rightarrow> dev \<Rightarrow> nat option \<Rightarrow> part_fs list result" where
  "open_filesystems open_fs disk only =
     rbind (part_scan disk) (\<lambda>table. open_parts open_fs disk only (pt_partitions table))"

definition require_filesystems ::
  "(dev \<Rightarrow> filesystem result) \<Rightarrow> dev \<Rightarrow> nat option \<Rightarrow> part_fs list cmd" where
  "require_filesystems open_fs disk only =
     cbind (clift (open_filesystems open_fs disk only)) (\<lambda>out.
       if out = []
       then cfail (Message (S ''no readable filesystem found'' @
              (case only of Some i \<Rightarrow> S '' on partition '' @ show_nat i | None \<Rightarrow> [])))
       else cret out)"

definition has_config :: "boot_scan \<Rightarrow> bool" where
  "has_config s \<longleftrightarrow> list_ex (\<lambda>e. be_source e \<noteq> SrcFallback) (bs_entries s)"

definition better :: "partition_boot option \<Rightarrow> partition_boot \<Rightarrow> bool" where
  "better best pb \<longleftrightarrow>
     (case best of None \<Rightarrow> True | Some b \<Rightarrow> has_config (pb_scan pb) \<and> \<not> has_config (pb_scan b))"

definition best_of :: "partition_boot list \<Rightarrow> partition_boot option" where
  "best_of pbs = fold (\<lambda>pb best. if better best pb then Some pb else best) pbs None"

definition best_boot_scan ::
  "(dev \<Rightarrow> filesystem result) \<Rightarrow> dev \<Rightarrow> partition_boot option result" where
  "best_boot_scan open_fs disk = rbind (bootable open_fs disk) (\<lambda>pbs. Ok (best_of pbs))"

fun firmware_note :: "firmware \<Rightarrow> str" where
  "firmware_note Bios = S ''legacy BIOS''"
| "firmware_note _ = S ''UEFI''"

definition no_boot_artifacts :: "(dev \<Rightarrow> filesystem result) \<Rightarrow> dev \<Rightarrow> failure" where
  "no_boot_artifacts open_fs disk =
     (case windows_evidence open_fs disk of
        Inr (Some w) \<Rightarrow>
          let evidence = str_join (S ''; '') (wd_evidence w)
          in (case wd_firmware w of
                None \<Rightarrow> Message (S ''nothing to boot: Windows volumes but no boot manager, so this looks like a data disk rather than a bootable image ('' @ evidence @ S '')'')
              | Some f \<Rightarrow> Message (S ''nothing to direct-kernel boot: this is a Windows guest ('' @
                  windows_summary w @ S '') '' @ [0x2014] @ S '' run the image under '' @ firmware_note f @
                  S '' firmware with the disk attached as-is ('' @ evidence @ S '')''))
      | _ \<Rightarrow> Message (S ''no boot artifacts (kernel/initramfs) found in any partition''))"

section \<open>Entries\<close>

definition fixed_cmdline :: "boot_entry \<Rightarrow> partition_table \<Rightarrow> str option result" where
  "fixed_cmdline e table =
     (case be_cmdline e of None \<Rightarrow> Ok None | Some c \<Rightarrow> fix_cmdline c table)"

definition entry_label :: "boot_entry \<Rightarrow> str" where
  "entry_label e =
     unwrap_or (opt_or (opt_or (be_title e) (be_version e)) (be_id e)) (S ''(untitled)'')"

definition opt_lines :: "str option \<Rightarrow> (str \<Rightarrow> str list) \<Rightarrow> str list" where
  "opt_lines x f = (case x of Some v \<Rightarrow> f v | None \<Rightarrow> [])"

definition entry_lines :: "nat \<Rightarrow> boot_entry \<Rightarrow> str option \<Rightarrow> str list" where
  "entry_lines part e fixed =
     (case be_windows e of
        Some w \<Rightarrow>
          [S ''      firmware: '' @ firmware_display (wb_firmware w),
           S ''      arch:     '' @ unwrap_or (wb_arch w) (S ''-'')] @
          opt_lines (wb_loader w) (\<lambda>l. [S ''      loader:   '' @ l])
      | None \<Rightarrow>
          opt_lines (be_kernel e) (\<lambda>k. [S ''      kernel:  '' @ uri part k]) @
          map (\<lambda>i. S ''      initrd:  '' @ uri part i) (be_initrd e) @
          opt_lines (be_cmdline e) (\<lambda>c.
            (S ''      cmdline: '' @ c) #
            (case fixed of
               Some f \<Rightarrow> [S ''      vdafix:  '' @ f]
             | None \<Rightarrow>
                 if str_contains (S ''root=/dev/sd'') c \<or> str_contains (S ''root=/dev/nvme'') c
                 then [S ''      note: root= names a physical device; under virtio this likely needs rewriting (e.g. /dev/vda)'']
                 else [])))"

definition print_entry :: "nat \<Rightarrow> boot_entry \<Rightarrow> str option \<Rightarrow> unit cmd" where
  "print_entry part e fixed = say_lines (entry_lines part e fixed)"

definition entry_mark :: "boot_scan \<Rightarrow> nat \<Rightarrow> str" where
  "entry_mark s i = (if bs_default s = Some i then S ''*'' else S '' '')"

definition entry_heading :: "boot_scan \<Rightarrow> nat \<Rightarrow> boot_entry \<Rightarrow> str" where
  "entry_heading s i e =
     entry_mark s i @ S '' ['' @ show_nat (i + 1) @ S ''] '' @ entry_label e @ S '' ('' @
     source_display (be_source e) @ S '')''"

text \<open>\<open>dma_cached\<close>: the answer for a kernel path, asked once; an absent kernel has the empty path.\<close>

definition dma_cached ::
  "filesystem \<Rightarrow> boot_entry \<Rightarrow> (str \<rightharpoonup> bool option) \<Rightarrow> bool option \<times> (str \<rightharpoonup> bool option)" where
  "dma_cached fs e cache =
     (let key = unwrap_or (be_kernel e) []
      in case cache key of
           Some d \<Rightarrow> (d, cache)
         | None \<Rightarrow> let d = dma_restricted_pool fs e in (d, cache(key \<mapsto> d)))"

definition dma_opt ::
  "filesystem option \<Rightarrow> boot_entry \<Rightarrow> (str \<rightharpoonup> bool option) \<Rightarrow> bool option \<times> (str \<rightharpoonup> bool option)" where
  "dma_opt fs e cache = (case fs of Some fs \<Rightarrow> dma_cached fs e cache | None \<Rightarrow> (None, cache))"

section \<open>info, boot-info, entries, compat\<close>

definition info_line :: "partition \<Rightarrow> str option \<Rightarrow> str" where
  "info_line p fs =
     S ''  '' @ pad_left 3 (show_nat (p_index p)) @ S ''  '' @ pad_left 10 (human_size (p_size_bytes p)) @
     S ''  '' @ pad_right 22 (p_kind p) @ S '' '' @ pad_right 10 (unwrap_or fs (S ''-'')) @
     S '' '' @ pad_right 38 (unwrap_or (p_part_uuid p) (S ''-'')) @ S '' '' @ unwrap_or (p_name p) []"

definition cmd_info :: "'z tools \<Rightarrow> str \<Rightarrow> unit cmd" where
  "cmd_info ts locator =
     cbind (open_disk ts locator) (\<lambda>disk.
     let dev = disk_dev (tl_inflate ts) disk in
     cthen (say (S ''format: '' @ disk_format disk))
     (cthen (say (S ''virtual size: '' @ human_size (dev_size dev) @ S '' ('' @
                  show_nat (unat (dev_size dev)) @ S '' bytes)''))
     (cbind (clift (part_scan dev)) (\<lambda>table.
     cthen (say (S ''partition table: '' @ table_kind_debug (pt_kind table)))
     (ceach (\<lambda>p. cbind (clift (detect (partition_open p dev))) (\<lambda>fs. say (info_line p fs)))
        (pt_partitions table))))))"

definition firmware_lines :: "windows_boot \<Rightarrow> str list" where
  "firmware_lines w =
     [S ''firmware: '' @ firmware_display (wb_firmware w), S ''arch:     '' @ unwrap_or (wb_arch w) (S ''-'')] @
     opt_lines (wb_loader w) (\<lambda>l. [S ''loader:   '' @ l])"

definition boot_info_windows :: "boot_entry \<Rightarrow> windows_boot \<Rightarrow> str list" where
  "boot_info_windows e w =
     [S ''type:     '' @ entry_kind_display (entry_kind_of e), S ''title:    '' @ entry_label e] @
     firmware_lines w @
     [S ''source:   '' @ source_display (be_source e),
      S ''note: nothing to direct-kernel boot here; run the image under '' @
        firmware_note (wb_firmware w) @ S '' firmware with the disk attached as-is'']"

definition boot_info_kernel ::
  "decoders \<Rightarrow> nat \<Rightarrow> filesystem option \<Rightarrow> boot_entry \<Rightarrow> str \<Rightarrow> str option \<Rightarrow> str list" where
  "boot_info_kernel dec part fs e kern fixed =
     [S ''type:    '' @ entry_kind_display (entry_kind_of e), S ''kernel:  '' @ uri part kern] @
     map (\<lambda>i. S ''initrd:  '' @ uri part i) (be_initrd e) @
     (case be_cmdline e of
        Some c \<Rightarrow> (S ''cmdline: '' @ c) # opt_lines fixed (\<lambda>f. [S ''vdafix:  '' @ f])
      | None \<Rightarrow> [S ''cmdline: (unknown '' @ [0x2014] @ S '' entry came from '' @ source_display (be_source e) @ S '' scan)'']) @
     (case Option.bind fs (\<lambda>fs. kernel_compression dec fs e) of
        Some c \<Rightarrow> [S ''compression: '' @ compression_label c @ S '' (extract with --decompress for direct-kernel boot)'']
      | None \<Rightarrow> []) @
     [S ''source:  '' @ source_display (be_source e)]"

definition cmd_boot_info :: "'z tools \<Rightarrow> str \<Rightarrow> bool \<Rightarrow> unit cmd" where
  "cmd_boot_info ts locator json =
     cbind (open_disk ts locator) (\<lambda>disk.
     let dev = disk_dev (tl_inflate ts) disk in
     cbind (clift (best_boot_scan (tl_fs ts) dev)) (\<lambda>best. case best of
       None \<Rightarrow> cfail (no_boot_artifacts (tl_fs ts) dev)
     | Some pb \<Rightarrow>
         (case get (bs_entries (pb_scan pb)) (unwrap_or (bs_default (pb_scan pb)) 0) of
            None \<Rightarrow> cfail (Lib Panic)
          | Some e \<Rightarrow>
              let part = p_index (pb_partition pb) in
              cbind (clift (part_scan dev)) (\<lambda>table.
              cbind (clift (fixed_cmdline e table)) (\<lambda>fixed.
                if json then
                  say (boot_info_json (tl_dec ts) part e fixed (bs_configs (pb_scan pb)) (pb_fs pb))
                else case be_windows e of
                  Some w \<Rightarrow> say_lines (boot_info_windows e w)
                | None \<Rightarrow>
                    (case be_kernel e of
                       None \<Rightarrow> cfail (Message (S ''default entry has no kernel path''))
                     | Some kern \<Rightarrow>
                         say_lines (boot_info_kernel (tl_dec ts) part (pb_fs pb) e kern fixed)))))))"

text \<open>The JSON items of one partition.\<close>

fun entries_json ::
  "decoders \<Rightarrow> partition_table \<Rightarrow> partition_boot \<Rightarrow> bool \<Rightarrow> nat \<Rightarrow> boot_entry list \<Rightarrow>
   (str \<rightharpoonup> bool option) \<Rightarrow> str list result" where
  "entries_json dec table pb quick i [] cache = Ok []"
| "entries_json dec table pb quick i (e # es) cache =
     rbind (fixed_cmdline e table) (\<lambda>fixed.
       case dma_opt (pb_fs pb) e cache of
         (dma, cache) \<Rightarrow>
           rbind (entries_json dec table pb quick (Suc i) es cache) (\<lambda>items.
             Ok (entry_json dec (p_index (pb_partition pb)) (bs_default (pb_scan pb) = Some i)
                   e fixed (pb_fs pb) dma quick # items)))"

text \<open>The notes of the text output on the kernel of an entry.\<close>

definition entry_notes ::
  "decoders \<Rightarrow> filesystem option \<Rightarrow> boot_entry \<Rightarrow> (str \<rightharpoonup> bool option) \<Rightarrow> str list \<times> (str \<rightharpoonup> bool option)" where
  "entry_notes dec fs e cache =
     (case fs of
        None \<Rightarrow> ([], cache)
      | Some fs \<Rightarrow>
          (case dma_cached fs e cache of
             (dma, cache) \<Rightarrow>
               ((case kernel_compression dec fs e of
                   Some c \<Rightarrow> [S ''      note: compressed kernel ('' @ compression_label c @
                      S ''); extract with --decompress for direct-kernel boot'']
                 | None \<Rightarrow> []) @
                (if dma = Some False
                 then [S ''      note: kernel lacks CONFIG_DMA_RESTRICTED_POOL; virtio fails under a protected VM'']
                 else []), cache)))"

fun entries_text ::
  "decoders \<Rightarrow> partition_table \<Rightarrow> partition_boot \<Rightarrow> nat \<Rightarrow> boot_entry list \<Rightarrow>
   (str \<rightharpoonup> bool option) \<Rightarrow> unit cmd" where
  "entries_text dec table pb i [] cache = cret ()"
| "entries_text dec table pb i (e # es) cache =
     cthen (say (entry_heading (pb_scan pb) i e))
     (cbind (clift (fixed_cmdline e table)) (\<lambda>fixed.
      cthen (print_entry (p_index (pb_partition pb)) e fixed)
      (case entry_notes dec (pb_fs pb) e cache of
         (notes, cache) \<Rightarrow> cthen (say_lines notes) (entries_text dec table pb (Suc i) es cache))))"

fun entries_items ::
  "decoders \<Rightarrow> partition_table \<Rightarrow> bool \<Rightarrow> partition_boot list \<Rightarrow> str list result" where
  "entries_items dec table quick [] = Ok []"
| "entries_items dec table quick (pb # pbs) =
     rbind (entries_json dec table pb quick 0 (bs_entries (pb_scan pb)) Map.empty) (\<lambda>items.
     rbind (entries_items dec table quick pbs) (\<lambda>more. Ok (items @ more)))"

definition entries_part :: "decoders \<Rightarrow> partition_table \<Rightarrow> partition_boot \<Rightarrow> unit cmd" where
  "entries_part dec table pb =
     cthen (say (S ''partition '' @ show_nat (p_index (pb_partition pb)) @ S '' ('' @ pb_fs_type pb @ S ''):''))
       (entries_text dec table pb 0 (bs_entries (pb_scan pb)) Map.empty)"

definition cmd_entries :: "'z tools \<Rightarrow> str \<Rightarrow> bool \<Rightarrow> bool \<Rightarrow> unit cmd" where
  "cmd_entries ts locator json quick =
     cbind (open_disk ts locator) (\<lambda>disk.
     let dev = disk_dev (tl_inflate ts) disk in
     cbind (clift (part_scan dev)) (\<lambda>table.
     cbind (clift (bootable (tl_fs ts) dev)) (\<lambda>pbs.
       if json then
         cbind (clift (entries_items (tl_dec ts) table quick pbs)) (\<lambda>items.
           say (S ''['' @ str_join (S '','') items @ S '']''))
       else
         cthen (ceach (entries_part (tl_dec ts) table) pbs)
           (if pbs = [] then cfail (no_boot_artifacts (tl_fs ts) dev) else cret ()))))"

definition cmd_compat :: "'z tools \<Rightarrow> str \<Rightarrow> bool \<Rightarrow> unit cmd" where
  "cmd_compat ts locator json =
     cbind (open_disk ts locator) (\<lambda>disk.
     cbind (clift (disk_has_compressed_clusters disk)) (\<lambda>compressed.
       if json then
         say (S ''{'' @ field_text ''format'' (jstr (disk_format disk)) @ S '','' @
              field_text ''compressed_clusters'' (show_bool compressed) @ S ''}'')
       else
         say_lines ([S ''format: '' @ disk_format disk, S ''compressed_clusters: '' @ show_bool compressed] @
           (if compressed
            then [S ''note: zlib-compressed clusters '' @ [0x2014] @ S '' crosvm cannot read this image (guest sees I/O errors / no partition table); convert with `qemu-img convert` without --compress before a direct crosvm boot'']
            else []))))"

section \<open>ls, cat, cp, md5, extract\<close>

definition listing_line :: "dir_entry \<Rightarrow> str" where
  "listing_line e =
     pad_left 12 (show_nat (unat (de_size e))) @ S ''  '' @ de_name e @
     (case de_kind e of KDir \<Rightarrow> S ''/'' | KSymlink \<Rightarrow> S ''@'' | _ \<Rightarrow> [])"

definition print_listing :: "dir_entry list \<Rightarrow> unit cmd" where
  "print_listing entries =
     say_lines (map listing_line (sort_by (\<lambda>a b. cmp_list (de_name a) (de_name b)) entries))"

fun ls_parts :: "bool \<Rightarrow> str \<Rightarrow> part_fs list \<Rightarrow> unit cmd" where
  "ls_parts explicit path [] = cret ()"
| "ls_parts explicit path ((p, fs) # pfs) =
     (case fs_read_dir fs path of
        Inl _ \<Rightarrow> ls_parts explicit path pfs
      | Inr entries \<Rightarrow>
          cthen (say (S ''# partition '' @ show_nat (p_index p) @ S '' ('' @ fs_type fs @ S ''):'' @ path))
          (cthen (print_listing entries)
             (if explicit then ls_parts explicit path pfs else cret ())))"

definition cmd_ls :: "'z tools \<Rightarrow> str \<Rightarrow> str \<Rightarrow> nat option \<Rightarrow> unit cmd" where
  "cmd_ls ts locator path part =
     cbind (open_disk ts locator) (\<lambda>disk.
     case parse_uri path of
       (uri_part, path) \<Rightarrow>
         let part = opt_or uri_part part in
         cbind (require_filesystems (tl_fs ts) (disk_dev (tl_inflate ts) disk) part)
           (ls_parts (part \<noteq> None) path))"

fun first_file :: "str \<Rightarrow> part_fs list \<Rightarrow> bytes option" where
  "first_file path [] = None"
| "first_file path ((p, fs) # pfs) =
     (case fs_read_file fs path of Inr data \<Rightarrow> Some data | Inl _ \<Rightarrow> first_file path pfs)"

definition read_by_uri ::
  "(dev \<Rightarrow> filesystem result) \<Rightarrow> dev \<Rightarrow> str \<Rightarrow> nat option \<Rightarrow> bytes cmd" where
  "read_by_uri open_fs disk path part =
     (case parse_uri path of
        (uri_part, path) \<Rightarrow>
          let part = opt_or uri_part part in
          cbind (require_filesystems open_fs disk part) (\<lambda>pfs.
            case first_file path pfs of
              Some data \<Rightarrow> cret data
            | None \<Rightarrow> cfail (Message (path @ S '': not found'' @
                (case part of
                   Some i \<Rightarrow> S '' on partition '' @ show_nat i
                 | None \<Rightarrow> S '' on any readable partition'')))))"

definition cmd_cat :: "'z tools \<Rightarrow> str \<Rightarrow> str \<Rightarrow> nat option \<Rightarrow> unit cmd" where
  "cmd_cat ts locator path part =
     cbind (open_disk ts locator) (\<lambda>disk.
     cbind (read_by_uri (tl_fs ts) (disk_dev (tl_inflate ts) disk) path part) put)"

text \<open>\<open>Path::join\<close>, and \<open>write_dest\<close>: a directory gets the base name of the source.\<close>

definition path_join :: "str \<Rightarrow> str \<Rightarrow> str" where
  "path_join dir name =
     (if starts_with (S ''/'') name \<or> dir = [] then name
      else if ends_with (S ''/'') dir then dir @ name
      else dir @ S ''/'' @ name)"

definition dest_path :: "str set \<Rightarrow> str \<Rightarrow> str \<Rightarrow> str" where
  "dest_path dirs dest source_path =
     (if dest \<in> dirs then path_join dest (after_last (ch CHR ''/'') source_path) else dest)"

definition write_dest :: "'z tools \<Rightarrow> str \<Rightarrow> str \<Rightarrow> bytes \<Rightarrow> str cmd" where
  "write_dest ts dest source_path data h =
     (let dest = dest_path (ho_dirs h) dest source_path
      in case host_write ts dest data h of
           (Inl f, h) \<Rightarrow> (Inl (Context (S ''writing '' @ dest) f), h)
         | (Inr _, h) \<Rightarrow> (Inr dest, h))"

definition unwrapped :: "decoders \<Rightarrow> bool \<Rightarrow> bytes \<Rightarrow> bytes result" where
  "unwrapped dec decompress data = (if decompress then to_bootable dec data else Ok data)"

definition cmd_cp :: "'z tools \<Rightarrow> str \<Rightarrow> str \<Rightarrow> str \<Rightarrow> nat option \<Rightarrow> bool \<Rightarrow> unit cmd" where
  "cmd_cp ts locator source dest part decompress =
     cbind (open_disk ts locator) (\<lambda>disk.
     cbind (read_by_uri (tl_fs ts) (disk_dev (tl_inflate ts) disk) source part) (\<lambda>data.
     cbind (clift (unwrapped (tl_dec ts) decompress data)) (\<lambda>data.
     cbind (write_dest ts dest (snd (parse_uri source)) data) (\<lambda>written.
       say (source @ S '' -> '' @ written @ S '' ('' @ human_size (of_nat (length data)) @ S '')'')))))"

definition cmd_md5 :: "'z tools \<Rightarrow> str \<Rightarrow> str \<Rightarrow> nat option \<Rightarrow> bool \<Rightarrow> unit cmd" where
  "cmd_md5 ts locator path part decompress =
     cbind (open_disk ts locator) (\<lambda>disk.
     cbind (read_by_uri (tl_fs ts) (disk_dev (tl_inflate ts) disk) path part) (\<lambda>data.
     cbind (clift (unwrapped (tl_dec ts) decompress data)) (\<lambda>data.
       say (tl_md5 ts data @ S ''  '' @ path))))"

text \<open>\<open>extract\<close>: the entry asked for, or the default; then its files.\<close>

definition entry_index :: "boot_scan \<Rightarrow> nat option \<Rightarrow> nat cmd" where
  "entry_index s entry_arg =
     (case entry_arg of
        Some n \<Rightarrow>
          if 1 \<le> n \<and> n \<le> length (bs_entries s) then cret (n - 1)
          else cfail (Message (S ''entry '' @ show_nat n @ S '' out of range (1..='' @
                 show_nat (length (bs_entries s)) @ S '')''))
      | None \<Rightarrow> cret (unwrap_or (bs_default s) 0))"

definition copy_out :: "'z tools \<Rightarrow> filesystem \<Rightarrow> str \<Rightarrow> str \<Rightarrow> unit cmd" where
  "copy_out ts fs output path =
     cbind (clift_with (S ''reading '' @ path) (fs_read_file fs path)) (\<lambda>data.
     cbind (write_dest ts output path data) (\<lambda>dest. say (S ''  -> '' @ dest)))"

definition write_cmdline :: "'z tools \<Rightarrow> str \<Rightarrow> str option \<Rightarrow> unit cmd" where
  "write_cmdline ts output cmdline =
     (case cmdline of
        None \<Rightarrow> cret ()
      | Some c \<Rightarrow>
          let dest = path_join output (S ''cmdline'')
          in cthen (host_write ts dest (as_bytes c)) (say (S ''  -> '' @ dest)))"

definition extract_files ::
  "'z tools \<Rightarrow> filesystem \<Rightarrow> str \<Rightarrow> boot_entry \<Rightarrow> str \<Rightarrow> str list \<Rightarrow> str option \<Rightarrow> bool \<Rightarrow> unit cmd" where
  "extract_files ts fs output e kern configs cmdline decompress =
     cthen (host_mkdir ts output)
     (cbind (clift_with (S ''reading '' @ kern) (fs_read_file fs kern)) (\<lambda>kdata.
      cbind (clift (unwrapped (tl_dec ts) decompress kdata)) (\<lambda>kdata.
      cbind (write_dest ts output kern kdata) (\<lambda>kdest.
      cthen (say (S ''  -> '' @ kdest))
      (cthen (ceach (copy_out ts fs output) (be_initrd e))
      (cthen (ceach (copy_out ts fs output) configs)
        (write_cmdline ts output cmdline)))))))"

definition extract_cmdline :: "bool \<Rightarrow> str option \<Rightarrow> boot_entry \<Rightarrow> str option" where
  "extract_cmdline vdafix fixed e = (if vdafix \<and> fixed \<noteq> None then fixed else be_cmdline e)"

definition extract_entry ::
  "'z tools \<Rightarrow> dev \<Rightarrow> partition_boot \<Rightarrow> nat \<Rightarrow> boot_entry \<Rightarrow> str \<Rightarrow> bool \<Rightarrow> bool \<Rightarrow> bool \<Rightarrow> unit cmd" where
  "extract_entry ts dev pb index e output dry_run vdafix decompress =
     (let part = p_index (pb_partition pb) in
      case be_windows e of
        Some w \<Rightarrow> cfail (Message (S ''entry '' @ show_nat (index + 1) @ S '' is a Windows install ('' @
          firmware_display (wb_firmware w) @ S ''), not a kernel '' @ [0x2014] @
          S '' there is nothing to extract; run the image under firmware, or pick a Linux entry with --entry N (`lbx entries` lists them)''))
      | None \<Rightarrow>
      case pb_fs pb of
        None \<Rightarrow> cfail (Message (S ''partition '' @ show_nat part @ S '' has no readable filesystem''))
      | Some fs \<Rightarrow>
      case be_kernel e of
        None \<Rightarrow> cfail (Message (S ''selected entry has no kernel path''))
      | Some kern \<Rightarrow>
          cbind (clift (part_scan dev)) (\<lambda>table.
          cbind (clift (fixed_cmdline e table)) (\<lambda>fixed.
          cthen (say (S ''partition '' @ show_nat part @ S '' ('' @ pb_fs_type pb @ S ''), entry '' @
                   show_nat (index + 1) @ S '' ('' @ source_display (be_source e) @ S ''):''))
          (cthen (print_entry part e fixed)
          (cthen (say_lines (map (\<lambda>c. S ''      config:  '' @ uri part c) (bs_configs (pb_scan pb))))
            (if dry_run then cret ()
             else extract_files ts fs output e kern (bs_configs (pb_scan pb))
                    (extract_cmdline vdafix fixed e) decompress))))))"

definition cmd_extract ::
  "'z tools \<Rightarrow> str \<Rightarrow> str \<Rightarrow> nat option \<Rightarrow> bool \<Rightarrow> bool \<Rightarrow> bool \<Rightarrow> unit cmd" where
  "cmd_extract ts locator output entry_arg dry_run vdafix decompress =
     cbind (open_disk ts locator) (\<lambda>disk.
     let dev = disk_dev (tl_inflate ts) disk in
     cbind (clift (best_boot_scan (tl_fs ts) dev)) (\<lambda>best. case best of
       None \<Rightarrow> cfail (no_boot_artifacts (tl_fs ts) dev)
     | Some pb \<Rightarrow>
         cbind (entry_index (pb_scan pb) entry_arg) (\<lambda>index.
           case get (bs_entries (pb_scan pb)) index of
             None \<Rightarrow> cfail (Lib Panic)
           | Some e \<Rightarrow> extract_entry ts dev pb index e output dry_run vdafix decompress)))"

end
