(* ===== verification/Cli_Props.thy ===== *)
theory Cli_Props
  imports Cli
begin

text \<open>What the commands of \<open>Cli\<close> do: a URI names the files of one partition, and \<open>extract\<close> writes what it says.\<close>

section \<open>Commands that only print\<close>

definition prints :: "unit cmd \<Rightarrow> bool" where
  "prints m \<longleftrightarrow> (\<forall>h. \<exists>out. m h = (Inr (), h\<lparr>ho_out := ho_out h @ out\<rparr>))"

lemma prints_put [simp]: "prints (put bs)"
  by (auto simp: prints_def put_def)

lemma prints_say [simp]: "prints (say s)"
  by (simp add: say_def)

lemma prints_cret [simp]: "prints (cret ())"
  by (auto simp: prints_def cret_def intro: exI [of _ "[]"])

lemma cthen_prints: "prints m \<Longrightarrow> \<exists>out. cthen m k h = k (h\<lparr>ho_out := ho_out h @ out\<rparr>)"
  unfolding prints_def cthen_def cbind_def by (elim allE [of _ h] exE) (auto intro: exI)

lemma prints_cthen: "prints m \<Longrightarrow> prints k \<Longrightarrow> prints (cthen m k)"
  unfolding prints_def [of "cthen m k"]
proof
  fix h
  assume m: "prints m" and k: "prints k"
  from cthen_prints [OF m] obtain out where "cthen m k h = k (h\<lparr>ho_out := ho_out h @ out\<rparr>)" by blast
  moreover from k obtain out' where
    "k (h\<lparr>ho_out := ho_out h @ out\<rparr>) = (Inr (), h\<lparr>ho_out := ho_out h @ out, ho_out := ho_out h @ out @ out'\<rparr>)"
    unfolding prints_def by (fastforce dest: spec [of _ "h\<lparr>ho_out := ho_out h @ out\<rparr>"])
  ultimately show "\<exists>out. cthen m k h = (Inr (), h\<lparr>ho_out := ho_out h @ out\<rparr>)" by auto
qed

lemma prints_ceach: "(\<And>x. x \<in> set xs \<Longrightarrow> prints (f x)) \<Longrightarrow> prints (ceach f xs)"
  by (induction xs) (auto intro: prints_cthen)

lemma prints_say_lines [simp]: "prints (say_lines ls)"
  by (simp add: say_lines_def prints_ceach)

lemma prints_print [simp]: "prints (print_entry part e fixed)" "prints (print_listing es)"
  by (simp_all add: print_entry_def print_listing_def)

lemma prints_fst: "prints m \<Longrightarrow> fst (m h) = Inr ()"
  unfolding prints_def by (metis fst_conv)

lemma fst_cthen: "prints m \<Longrightarrow> (\<And>h. fst (k h) = r) \<Longrightarrow> fst (cthen m k h) = r"
  using cthen_prints by metis

section \<open>URIs\<close>

lemma parse_uri_uri:
  assumes "n < 2 ^ 64"
  shows "parse_uri (uri n path) = (Some n, if starts_with (S ''/'') path then path else S ''/'' @ path)"
proof -
  have colon: "ch CHR '':'' \<notin> set (show_nat n)" using show_nat_digits by (force simp: is_ascii_digit_def)
  then have "split_once (ch CHR '':'') (show_nat n @ ch CHR '':'' # path) = Some (show_nat n, path)"
    by (intro split_once_append) auto
  then show ?thesis using parse_usize_show [OF assms] by (simp add: parse_uri_def uri_def)
qed

lemma parse_uri_absolute: "parse_uri (S ''/'' @ path) = (None, S ''/'' @ path)"
  by (simp add: parse_uri_def)

lemma open_parts_other:
  "\<forall>q \<in> set ps. p_index q \<noteq> n \<Longrightarrow> open_parts open_fs disk (Some n) ps = Ok []"
  by (induction ps) (simp_all add: selected_def)

lemma open_parts_one:
  "distinct (map p_index ps) \<Longrightarrow> p \<in> set ps \<Longrightarrow> open_fs (partition_open p disk) = Ok fs \<Longrightarrow>
   open_parts open_fs disk (Some (p_index p)) ps = Ok [(p, fs)]"
proof (induction ps)
  case (Cons q ps)
  show ?case
  proof (cases "q = p")
    case True
    then have "\<forall>q \<in> set ps. p_index q \<noteq> p_index p" using Cons.prems(1) by (auto simp: image_iff)
    with True Cons.prems(3) open_parts_other show ?thesis by (simp add: selected_def)
  next
    case False
    with Cons.prems have "p_index q \<noteq> p_index p" by (auto simp: image_iff)
    with False Cons show ?thesis by (simp add: selected_def)
  qed
qed simp

lemma require_filesystems_one:
  assumes "part_scan disk = Ok t" and "p \<in> set (pt_partitions t)" and "open_fs (partition_open p disk) = Ok fs"
  shows "require_filesystems open_fs disk (Some (p_index p)) = cret [(p, fs)]"
  using open_parts_one [OF indices_ok_distinct [OF part_scan_indices_ok [OF assms(1)]] assms(2), of open_fs disk] assms
  by (simp add: require_filesystems_def open_filesystems_def clift_def cbind_def cret_def fun_eq_iff)

lemma require_filesystems_none:
  assumes "part_scan disk = Ok t" and "\<forall>q \<in> set (pt_partitions t). p_index q \<noteq> n"
  shows "require_filesystems open_fs disk (Some n) =
    cfail (Message (S ''no readable filesystem found on partition '' @ show_nat n))"
  using open_parts_other [OF assms(2), of open_fs disk] assms(1)
  by (simp add: require_filesystems_def open_filesystems_def clift_def cbind_def cret_def cfail_def fun_eq_iff)

lemma cbind_simps [simp]: "cbind (cret x) k = k x" "cbind (cfail f) k = cfail f" "cthen (cret ()) m = m"
  by (simp_all add: cthen_def cbind_def cret_def cfail_def fun_eq_iff)

lemma open_disk_ok: "disk_open (tl_source ts) (tl_inflate ts) locator = Ok img \<Longrightarrow> open_disk ts locator = cret img"
  by (simp add: open_disk_def clift_with_def)

text \<open>
  C38: \<open>cat pN:/path\<close> writes exactly the bytes of that file of partition N, whatever \<open>--part\<close> says and whatever other
  partitions hold under the path; \<open>cat /path --part N\<close> writes the same; and a partition that does not exist is an
  error that names it, with nothing written.
\<close>

theorem cat_reads_uri:
  assumes "disk_open (tl_source ts) (tl_inflate ts) locator = Ok img"
    and "part_scan (disk_dev (tl_inflate ts) img) = Ok t" and "p \<in> set (pt_partitions t)"
    and "tl_fs ts (partition_open p (disk_dev (tl_inflate ts) img)) = Ok fs"
    and "fs_read_file fs (S ''/'' @ path) = Ok data"
  shows "cmd_cat ts locator (uri (p_index p) (S ''/'' @ path)) part h = (Inr (), h\<lparr>ho_out := ho_out h @ data\<rparr>) \<and>
    cmd_cat ts locator (S ''/'' @ path) (Some (p_index p)) h = (Inr (), h\<lparr>ho_out := ho_out h @ data\<rparr>) \<and>
    (\<forall>n < 2 ^ 64. n \<notin> p_index ` set (pt_partitions t) \<longrightarrow>
       cmd_cat ts locator (uri n path) part h =
         (Inl (Message (S ''no readable filesystem found on partition '' @ show_nat n)), h))"
proof -
  let ?dev = "disk_dev (tl_inflate ts) img"
  have n: "p_index p < 2 ^ 64" using part_scan_index [OF assms(2,3)] by simp
  note one = require_filesystems_one [of ?dev t p "tl_fs ts", OF assms(2-4)]
  have read: "read_by_uri (tl_fs ts) ?dev (uri (p_index p) (S ''/'' @ path)) part = cret data"
    "read_by_uri (tl_fs ts) ?dev (S ''/'' @ path) (Some (p_index p)) = cret data"
    using assms(5) by (simp_all add: read_by_uri_def parse_uri_uri [OF n] parse_uri_absolute one del: append.simps)
      (simp_all add: parse_uri_def one)
  have none: "read_by_uri (tl_fs ts) ?dev (uri m path) part =
      cfail (Message (S ''no readable filesystem found on partition '' @ show_nat m))"
    if "m < 2 ^ 64" "m \<notin> p_index ` set (pt_partitions t)" for m
  proof -
    have "\<forall>q \<in> set (pt_partitions t). p_index q \<noteq> m" using that(2) by blast
    from require_filesystems_none [OF assms(2) this] show ?thesis
      by (simp add: read_by_uri_def parse_uri_uri [OF that(1)])
  qed
  show ?thesis
    unfolding cmd_cat_def open_disk_ok [OF assms(1)] cbind_simps read
    using none by (simp add: put_def cfail_def)
qed

text \<open>An image of one filesystem without a partition table, with two files.\<close>

definition small_fs :: filesystem where
  "small_fs = one_kernel\<lparr>fs_read_file := (\<lambda>p. if p = S ''/vmlinuz-1'' then Ok [1, 2]
     else if p = S ''/initrd'' then Ok [3] else Err (NotFound p))\<rparr>"

definition small_tools :: "unit tools" where
  "small_tools =
     \<lparr>tl_source = (\<lambda>_. Ok (file_dev [])), tl_inflate = stored, tl_fs = (\<lambda>_. Ok small_fs),
      tl_dec = example_decoders, tl_md5 = (\<lambda>_. []), tl_faults = (\<lambda>_. None)\<rparr>"

definition small_part :: partition where
  "small_part =
     \<lparr>p_index = 1, p_start_byte = 0, p_size_bytes = dev_size (file_dev []), p_kind = S ''whole disk'',
      p_type_id = [], p_name = None, p_probe_worthy = True, p_part_uuid = None\<rparr>"

definition empty_host :: host where
  "empty_host = \<lparr>ho_out = [], ho_err = [], ho_os = \<lparr>os_files = Map.empty, os_ops = 0\<rparr>, ho_dirs = {}\<rparr>"

lemma small_image:
  "disk_open (tl_source small_tools) (tl_inflate small_tools) locator = Ok (DRaw (file_dev []))"
  unfolding disk_open_def
  by (subst open_at_depth.simps)
    (simp add: small_tools_def read_magic_def QCOW2_MAGIC_def file_dev_def file_len_def)

lemma small_scan: "part_scan (file_dev []) = Ok \<lparr>pt_kind = NoTable, pt_partitions = [small_part]\<rparr>"
proof -
  have "gpt_scan (file_dev []) = Ok None" "mbr_scan (file_dev []) = Ok None"
    by (simp_all add: gpt_scan_def mbr_scan_def file_dev_def file_len_def SECTOR_def)
  then show ?thesis by (simp add: part_scan_def small_part_def)
qed

lemma cat_reads_uri_witness:
  "cmd_cat small_tools (S ''a.img'') (uri 1 (S ''/'' @ S ''initrd'')) (Some 5) empty_host =
    (Inr (), empty_host\<lparr>ho_out := [3]\<rparr>)"
proof -
  have "fs_read_file small_fs (S ''/'' @ S ''initrd'') = Ok [3]" by (simp add: small_fs_def)
  moreover have "tl_fs small_tools d = Ok small_fs" for d by (simp add: small_tools_def)
  ultimately have "cmd_cat small_tools (S ''a.img'') (uri (p_index small_part) (S ''/'' @ S ''initrd'')) (Some 5) empty_host =
      (Inr (), empty_host\<lparr>ho_out := ho_out empty_host @ [3]\<rparr>)"
    using cat_reads_uri [OF small_image, of _ small_part] small_scan by (simp del: append.simps list.map)
  then show ?thesis by (simp add: small_part_def empty_host_def del: append.simps list.map)
qed

section \<open>Extracting\<close>

definition base_of :: "str \<Rightarrow> str \<Rightarrow> str" where
  "base_of output path = path_join output (after_last (ch CHR ''/'') path)"

text \<open>What \<open>extract\<close> should leave outside: the kernel, the initrds and configs, and the command line, in this order.\<close>

definition extract_plan :: "str \<Rightarrow> str \<times> bytes \<Rightarrow> (str \<times> bytes) list \<Rightarrow> str option \<Rightarrow> (str \<times> bytes) list" where
  "extract_plan output kern others cmdline =
     map (\<lambda>(path, data). (base_of output path, data)) (kern # others) @
     (case cmdline of Some c \<Rightarrow> [(path_join output (S ''cmdline''), as_bytes c)] | None \<Rightarrow> [])"

definition apply_writes :: "(str \<times> bytes) list \<Rightarrow> (str \<rightharpoonup> bytes) \<Rightarrow> (str \<rightharpoonup> bytes)" where
  "apply_writes ws m = fold (\<lambda>(path, data) m. m(path \<mapsto> data)) ws m"

text \<open>A command that succeeds, leaves the directories as they are and does these writes.\<close>

definition does_writes :: "str set \<Rightarrow> 'a cmd \<Rightarrow> 'a \<Rightarrow> (str \<times> bytes) list \<Rightarrow> bool" where
  "does_writes dirs m x ws \<longleftrightarrow>
     (\<forall>h. ho_dirs h = dirs \<longrightarrow>
        (\<exists>h'. m h = (Inr x, h') \<and> ho_dirs h' = dirs \<and>
           os_files (ho_os h') = apply_writes ws (os_files (ho_os h))))"

lemma apply_writes_append: "apply_writes (ws @ vs) m = apply_writes vs (apply_writes ws m)"
  by (simp add: apply_writes_def)

lemma does_cret: "does_writes dirs (cret x) x []"
  by (simp add: does_writes_def cret_def apply_writes_def)

lemma does_cbind:
  assumes "does_writes dirs m x ws" and "does_writes dirs (k x) y vs"
  shows "does_writes dirs (cbind m k) y (ws @ vs)"
  unfolding does_writes_def
proof (intro allI impI)
  fix h :: host
  assume "ho_dirs h = dirs"
  with assms(1) obtain h1 where h1: "m h = (Inr x, h1)" "ho_dirs h1 = dirs"
    "os_files (ho_os h1) = apply_writes ws (os_files (ho_os h))" unfolding does_writes_def by blast
  from assms(2) h1(2) obtain h2 where h2: "k x h1 = (Inr y, h2)" "ho_dirs h2 = dirs"
    "os_files (ho_os h2) = apply_writes vs (os_files (ho_os h1))" unfolding does_writes_def by blast
  show "\<exists>h'. cbind m k h = (Inr y, h') \<and> ho_dirs h' = dirs \<and>
      os_files (ho_os h') = apply_writes (ws @ vs) (os_files (ho_os h))"
    using h1 h2 by (intro exI [of _ h2]) (simp add: cbind_def apply_writes_append)
qed

lemma does_cthen:
  "does_writes dirs m () ws \<Longrightarrow> does_writes dirs k y vs \<Longrightarrow> does_writes dirs (cthen m k) y (ws @ vs)"
  unfolding cthen_def by (rule does_cbind)

lemma does_say: "does_writes dirs (say s) () []"
  by (simp add: does_writes_def say_def put_def apply_writes_def)

lemma does_host_write:
  "\<forall>n. tl_faults ts n = None \<Longrightarrow> path \<notin> dirs \<Longrightarrow> does_writes dirs (host_write ts path data) () [(path, data)]"
  by (simp add: does_writes_def host_write_def os_write_def os_tick_def apply_writes_def)

lemma does_write_dest:
  assumes "\<forall>n. tl_faults ts n = None" and "output \<in> dirs" and "base_of output path \<notin> dirs"
  shows "does_writes dirs (write_dest ts output path data) (base_of output path) [(base_of output path, data)]"
proof -
  have "write_dest ts output path data h =
      cbind (host_write ts (base_of output path) data) (\<lambda>_. cret (base_of output path)) h"
    if "ho_dirs h = dirs" "fst (host_write ts (base_of output path) data h) = Inr ()" for h :: host
    using that assms(2)
    by (cases "host_write ts (base_of output path) data h")
      (simp add: write_dest_def dest_path_def base_of_def cbind_def cret_def)
  moreover have "does_writes dirs (cbind (host_write ts (base_of output path) data) (\<lambda>_. cret (base_of output path)))
      (base_of output path) ([(base_of output path, data)] @ [])"
    by (rule does_cbind [OF does_host_write [OF assms(1,3)] does_cret])
  moreover have "fst (host_write ts (base_of output path) data h) = Inr ()" if "ho_dirs h = dirs" for h
    using does_host_write [OF assms(1,3), of data] that unfolding does_writes_def by force
  ultimately show ?thesis by (simp add: does_writes_def)
qed

lemma does_clift: "does_writes dirs (clift (Ok x)) x []" "does_writes dirs (clift_with s (Ok x)) x []"
  by (simp_all add: clift_def clift_with_def does_cret)

lemma does_copy_out:
  assumes "\<forall>n. tl_faults ts n = None" and "output \<in> dirs" and "base_of output path \<notin> dirs"
    and "fs_read_file fs path = Ok data"
  shows "does_writes dirs (copy_out ts fs output path) () [(base_of output path, data)]"
proof -
  have "does_writes dirs (copy_out ts fs output path) () ([] @ [(base_of output path, data)] @ [])"
    unfolding copy_out_def assms(4)
    by (rule does_cbind [OF does_clift(2)], rule does_cbind [OF does_write_dest [OF assms(1-3)] does_say])
  then show ?thesis by simp
qed

lemma does_copies:
  assumes "\<forall>n. tl_faults ts n = None" and "output \<in> dirs"
    and "\<forall>(path, data) \<in> set files. base_of output path \<notin> dirs \<and> fs_read_file fs path = Ok data"
  shows "does_writes dirs (ceach (copy_out ts fs output) (map fst files)) ()
    (map (\<lambda>(path, data). (base_of output path, data)) files)"
  using assms(3)
proof (induction files)
  case Nil
  then show ?case by (simp add: does_cret)
next
  case (Cons f files)
  obtain path data where f: "f = (path, data)" by (cases f)
  have "does_writes dirs (cthen (copy_out ts fs output path) (ceach (copy_out ts fs output) (map fst files))) ()
      ([(base_of output path, data)] @ map (\<lambda>(path, data). (base_of output path, data)) files)"
    using Cons f by (intro does_cthen does_copy_out [OF assms(1,2)]) auto
  then show ?case by (simp add: f)
qed

lemma does_prints: "prints m \<Longrightarrow> does_writes dirs m () []"
  unfolding does_writes_def prints_def by (fastforce simp: apply_writes_def)

lemma does_write_cmdline:
  assumes "\<forall>n. tl_faults ts n = None"
    and "cmdline \<noteq> None \<longrightarrow> path_join output (S ''cmdline'') \<notin> dirs"
  shows "does_writes dirs (write_cmdline ts output cmdline) ()
    (case cmdline of Some c \<Rightarrow> [(path_join output (S ''cmdline''), as_bytes c)] | None \<Rightarrow> [])"
proof (cases cmdline)
  case None
  then show ?thesis by (simp add: write_cmdline_def does_cret)
next
  case (Some c)
  have "does_writes dirs (cthen (host_write ts (path_join output (S ''cmdline'')) (as_bytes c))
      (say (S ''  -> '' @ path_join output (S ''cmdline'')))) () ([(path_join output (S ''cmdline''), as_bytes c)] @ [])"
    by (rule does_cthen [OF does_host_write does_say]) (use assms Some in simp_all)
  with Some show ?thesis by (simp add: write_cmdline_def Let_def)
qed

lemma ceach_append: "ceach f (xs @ ys) = cthen (ceach f xs) (ceach f ys)"
  by (induction xs) (simp_all add: cthen_def cbind_def cret_def fun_eq_iff split: prod.split sum.split)

lemma cthen_assoc: "cthen (cthen a b) c = cthen a (cthen b c)"
  by (simp add: cthen_def cbind_def fun_eq_iff split: prod.split sum.split)

lemma three_prints:
  "prints a \<Longrightarrow> prints b \<Longrightarrow> prints c \<Longrightarrow>
   \<exists>p. prints p \<and> (\<forall>d. cthen a (cthen b (cthen c (k d))) = cthen p (k d))"
  by (rule exI [of _ "cthen a (cthen b c)"]) (simp add: prints_cthen cthen_assoc)

lemma does_extract_files:
  assumes "\<forall>n. tl_faults ts n = None" and "output \<in> dirs"
    and "fs_read_file fs kern = Ok kdata" and "unwrapped (tl_dec ts) decompress kdata = Ok kimage"
    and "map fst others = be_initrd e @ configs"
    and "\<forall>(path, data) \<in> set others. fs_read_file fs path = Ok data"
    and "\<forall>(path, data) \<in> set (extract_plan output (kern, kimage) others cmdline). path \<notin> dirs"
  shows "does_writes dirs
    (cbind (clift_with (S ''reading '' @ kern) (fs_read_file fs kern)) (\<lambda>kdata.
      cbind (clift (unwrapped (tl_dec ts) decompress kdata)) (\<lambda>kdata.
      cbind (write_dest ts output kern kdata) (\<lambda>kdest.
      cthen (say (S ''  -> '' @ kdest))
      (cthen (ceach (copy_out ts fs output) (be_initrd e))
      (cthen (ceach (copy_out ts fs output) configs)
        (write_cmdline ts output cmdline)))))))
    () (extract_plan output (kern, kimage) others cmdline)"
proof -
  have free: "base_of output kern \<notin> dirs" "\<forall>(path, data) \<in> set others. base_of output path \<notin> dirs"
    "cmdline \<noteq> None \<longrightarrow> path_join output (S ''cmdline'') \<notin> dirs"
    using assms(7) by (auto simp: extract_plan_def)
  have "\<forall>(path, data) \<in> set others. base_of output path \<notin> dirs \<and> fs_read_file fs path = Ok data"
    using free(2) assms(6) by blast
  note copies = does_copies [OF assms(1,2) this, unfolded assms(5) ceach_append]
  note files = does_cthen [OF copies does_write_cmdline [OF assms(1) free(3)], unfolded cthen_assoc]
  have "does_writes dirs
    (cbind (clift_with (S ''reading '' @ kern) (fs_read_file fs kern)) (\<lambda>kdata.
      cbind (clift (unwrapped (tl_dec ts) decompress kdata)) (\<lambda>kdata.
      cbind (write_dest ts output kern kdata) (\<lambda>kdest.
      cthen (say (S ''  -> '' @ kdest))
      (cthen (ceach (copy_out ts fs output) (be_initrd e))
      (cthen (ceach (copy_out ts fs output) configs)
        (write_cmdline ts output cmdline)))))))
    () ([] @ [] @ [(base_of output kern, kimage)] @ [] @
        map (\<lambda>(path, data). (base_of output path, data)) others @
        (case cmdline of Some c \<Rightarrow> [(path_join output (S ''cmdline''), as_bytes c)] | None \<Rightarrow> []))"
    unfolding assms(3)
    by (rule does_cbind [OF does_clift(2)], unfold assms(4), rule does_cbind [OF does_clift(1)],
        rule does_cbind [OF does_write_dest [OF assms(1,2) free(1)]], rule does_cthen [OF does_say files])
  then show ?thesis by (simp add: extract_plan_def)
qed

text \<open>
  C39: extracting an entry, when reading succeeds and no file operation fails, leaves exactly these files in the output
  directory (or, where a file stands in the directory's way, fails and leaves the files alone): the kernel (unwrapped if asked to), the initrds and the configs as they are in the image, under
  their base names, and the command line, the rewritten one under \<open>--vdafix\<close> where there is one; files of the same base
  name overwrite each other in this order. A dry run prints and touches no file.
\<close>

theorem extract_writes:
  assumes "be_windows e = None" and "pb_fs pb = Some fs" and "be_kernel e = Some kern"
    and "part_scan dev = Ok table" and "fixed_cmdline e table = Ok fixed"
    and "fs_read_file fs kern = Ok kdata" and "unwrapped (tl_dec ts) decompress kdata = Ok kimage"
    and "map fst others = be_initrd e @ bs_configs (pb_scan pb)"
    and "\<forall>(path, data) \<in> set others. fs_read_file fs path = Ok data"
    and "\<forall>n. tl_faults ts n = None"
    and "plan = extract_plan output (kern, kimage) others (if vdafix \<and> fixed \<noteq> None then fixed else be_cmdline e)"
    and "\<forall>(path, data) \<in> set plan. path \<notin> insert output (ho_dirs h)"
  shows "(\<exists>h'. if file_in_the_way (ho_os h) output
      then extract_entry ts dev pb index e output False vdafix decompress h = (Inl OsFailed, h') \<and>
        os_files (ho_os h') = os_files (ho_os h)
      else extract_entry ts dev pb index e output False vdafix decompress h = (Inr (), h') \<and>
        os_files (ho_os h') = apply_writes plan (os_files (ho_os h))) \<and>
    (\<exists>out. extract_entry ts dev pb index e output True vdafix decompress h = (Inr (), h\<lparr>ho_out := ho_out h @ out\<rparr>))"
proof -
  define k where "k dry_run = (if dry_run then cret () else extract_files ts fs output e kern
    (bs_configs (pb_scan pb)) (extract_cmdline vdafix fixed e) decompress)" for dry_run
  have "\<exists>p. prints p \<and> (\<forall>dry_run. extract_entry ts dev pb index e output dry_run vdafix decompress = cthen p (k dry_run))"
    unfolding extract_entry_def Let_def assms(1-5) option.case clift_def sum.case cbind_simps k_def
    by (rule three_prints) simp_all
  then obtain p where p: "prints p"
    "\<And>dry_run. extract_entry ts dev pb index e output dry_run vdafix decompress = cthen p (k dry_run)" by blast
  from cthen_prints [OF p(1)] obtain out where dry: "cthen p (k True) h = k True (h\<lparr>ho_out := ho_out h @ out\<rparr>)" by blast
  from cthen_prints [OF p(1)] obtain out' where go: "cthen p (k False) h = k False (h\<lparr>ho_out := ho_out h @ out'\<rparr>)" by blast
  let ?h = "h\<lparr>ho_out := ho_out h @ out', ho_os := os_tick (ho_os h), ho_dirs := insert output (ho_dirs h)\<rparr>"
  have ticked: "file_in_the_way (os_tick os) output = file_in_the_way os output" for os
    by (simp add: file_in_the_way_def)
  have mk: "host_mkdir ts output (h\<lparr>ho_out := ho_out h @ out'\<rparr>) =
      (if file_in_the_way (ho_os h) output
       then (Inl OsFailed, h\<lparr>ho_out := ho_out h @ out', ho_os := os_tick (ho_os h)\<rparr>) else (Inr (), ?h))"
    using assms(10) by (simp add: host_mkdir_def os_create_dir_def ticked)
  have plan: "plan = extract_plan output (kern, kimage) others (extract_cmdline vdafix fixed e)"
    unfolding assms(11) extract_cmdline_def ..
  have free: "\<forall>(path, data) \<in> set (extract_plan output (kern, kimage) others (extract_cmdline vdafix fixed e)).
      path \<notin> insert output (ho_dirs h)" using assms(12) unfolding plan .
  note writes = does_extract_files [OF assms(10) insertI1 assms(6-9) free, folded plan, unfolded does_writes_def,
      rule_format, of ?h]
  have made: "\<exists>h'. k False (h\<lparr>ho_out := ho_out h @ out'\<rparr>) = (Inr (), h') \<and>
      os_files (ho_os h') = apply_writes plan (os_files (ho_os ?h))" if "\<not> file_in_the_way (ho_os h) output"
    using writes that
    by (simp add: k_def extract_files_def cthen_def [of "host_mkdir ts output"] cbind_def [of "host_mkdir ts output"] mk)
      (elim exE conjE, intro exI conjI, assumption+)
  have "\<exists>h'. k False (h\<lparr>ho_out := ho_out h @ out'\<rparr>) = (Inl OsFailed, h') \<and>
      os_files (ho_os h') = os_files (ho_os h)" if "file_in_the_way (ho_os h) output"
    using that
    by (simp add: k_def extract_files_def cthen_def [of "host_mkdir ts output"] cbind_def [of "host_mkdir ts output"] mk)
  with made show ?thesis
    using p(2) go dry by (cases "file_in_the_way (ho_os h) output") (simp_all add: k_def cret_def os_tick_def, blast+)
qed

definition small_entry :: boot_entry where
  "small_entry = default_entry_value\<lparr>be_kernel := Some (S ''/vmlinuz-1''), be_initrd := [S ''/initrd''],
     be_cmdline := Some (S ''quiet'')\<rparr>"

definition small_boot :: partition_boot where
  "small_boot = \<lparr>pb_partition = small_part, pb_fs_type = S ''ext4'', pb_fs = Some small_fs,
     pb_scan = \<lparr>bs_entries = [small_entry], bs_default = Some 0, bs_configs = []\<rparr>\<rparr>"

lemma small_cmdline: "fixed_cmdline small_entry \<lparr>pt_kind = NoTable, pt_partitions = [small_part]\<rparr> = Ok None"
  by code_simp

lemma extract_writes_witness:
  "\<exists>h'. extract_entry small_tools (file_dev []) small_boot 0 small_entry (S ''out'') False True False empty_host = (Inr (), h') \<and>
     os_files (ho_os h') = [S ''out/vmlinuz-1'' \<mapsto> [1, 2], S ''out/initrd'' \<mapsto> [3], S ''out/cmdline'' \<mapsto> as_bytes (S ''quiet'')]"
proof -
  define plan where "plan = extract_plan (S ''out'') (S ''/vmlinuz-1'', [1, 2]) [(S ''/initrd'', [3])] (Some (S ''quiet''))"
  have plan: "plan = [(S ''out/vmlinuz-1'', [1, 2]), (S ''out/initrd'', [3]), (S ''out/cmdline'', as_bytes (S ''quiet''))]"
    by (simp add: plan_def extract_plan_def base_of_def path_join_def ends_with_def strip_suffix_def after_last_def)
  have chosen: "plan = extract_plan (S ''out'') (S ''/vmlinuz-1'', [1, 2]) [(S ''/initrd'', [3])]
      (if True \<and> None \<noteq> (None :: str option) then None else be_cmdline small_entry)"
    by (simp add: plan_def small_entry_def)
  have free: "\<forall>(path, data) \<in> set plan. path \<notin> insert (S ''out'') (ho_dirs empty_host)"
    by (simp add: plan empty_host_def)
  have entry: "be_windows small_entry = None" "pb_fs small_boot = Some small_fs"
    "be_kernel small_entry = Some (S ''/vmlinuz-1'')"
    "map fst [(S ''/initrd'', [3 :: u8])] = be_initrd small_entry @ bs_configs (pb_scan small_boot)"
    by (simp_all add: small_entry_def small_boot_def default_entry_value_def)
  have reads: "fs_read_file small_fs (S ''/vmlinuz-1'') = Ok [1, 2]"
    "\<forall>(path, data) \<in> set [(S ''/initrd'', [3])]. fs_read_file small_fs path = Ok data"
    by (simp_all add: small_fs_def)
  have "unwrapped (tl_dec small_tools) False [1, 2] = Ok [1, 2]" "\<forall>n. tl_faults small_tools n = None"
    by (simp_all add: unwrapped_def small_tools_def)
  note extract_writes [OF entry(1-3) small_scan small_cmdline reads(1) this(1) entry(4) reads(2) this(2) chosen free,
      THEN conjunct1]
  moreover have "\<not> file_in_the_way (ho_os empty_host) (S ''out'')"
    by (simp add: file_in_the_way_def empty_host_def list_ex_iff)
  ultimately show ?thesis by (simp add: plan apply_writes_def empty_host_def del: list.map)
qed

end
