(* ===== verification/Shell.thy ===== *)
theory Shell
  imports Cli_Props
begin

text \<open>
  src/src/shell.rs: the interactive shell, and the choice of the command in \<open>main\<close> (src/src/main.rs).
  The input is the list of what \<open>read_line\<close> returns, a line or the failure to read one; its end is the
  end of the input. The state is the index of the current filesystem and the working directory.
\<close>

section \<open>Paths\<close>

definition path_step :: "str \<Rightarrow> str list \<Rightarrow> str list" where
  "path_step seg parts =
     (if seg = [] \<or> seg = S ''.'' then parts
      else if seg = S ''..'' then butlast parts
      else parts @ [seg])"

definition path_parts :: "str \<Rightarrow> str \<Rightarrow> str list" where
  "path_parts cwd input =
     (let base = (if starts_with (S ''/'') input then [] else cwd)
      in fold path_step (split_on (ch CHR ''/'') base @ split_on (ch CHR ''/'') input) [])"

definition resolve :: "str \<Rightarrow> str \<Rightarrow> str" where
  "resolve cwd input = S ''/'' @ str_join (S ''/'') (path_parts cwd input)"

definition find_part :: "nat \<Rightarrow> part_fs list \<Rightarrow> part_fs option" where
  "find_part n fss = find (\<lambda>(p, _). p_index p = n) fss"

definition no_filesystem :: "nat \<Rightarrow> failure" where
  "no_filesystem n = Message (S ''no readable filesystem on partition '' @ show_nat n)"

text \<open>\<open>fss[current]\<close>, which panics outside of the list.\<close>

definition current_fs :: "part_fs list \<Rightarrow> nat \<Rightarrow> failure + part_fs" where
  "current_fs fss current = (case get fss current of Some pf \<Rightarrow> Inr pf | None \<Rightarrow> Inl (Lib Panic))"

definition locate :: "part_fs list \<Rightarrow> nat \<Rightarrow> str \<Rightarrow> str \<Rightarrow> failure + (filesystem \<times> str)" where
  "locate fss current cwd input =
     (case parse_uri input of
        (Some n, path) \<Rightarrow>
          (case find_part n fss of
             Some (_, fs) \<Rightarrow> Inr (fs, resolve (S ''/'') path)
           | None \<Rightarrow> Inl (no_filesystem n))
      | (None, _) \<Rightarrow>
          (case current_fs fss current of
             Inl f \<Rightarrow> Inl f
           | Inr (_, fs) \<Rightarrow> Inr (fs, resolve cwd input)))"

definition switch_part :: "part_fs list \<Rightarrow> str \<Rightarrow> failure + nat" where
  "switch_part fss which =
     (case parse_usize (trim_start_by (\<lambda>c. c = ch CHR ''p'') which) of
        None \<Rightarrow> Inl BadNumber
      | Some n \<Rightarrow>
          (case position (\<lambda>(p, _). p_index p = n) fss of
             Some i \<Rightarrow> Inr i
           | None \<Rightarrow> Inl (no_filesystem n)))"

section \<open>What it prints\<close>

definition HELP :: "str list" where
  "HELP =
     [S ''commands:'',
      S ''  parts                 list partitions ('' @ [39] @ S ''*'' @ [39] @ S '' = current)'',
      S ''  use <N|pN>            switch to partition N'',
      S ''  pwd / cd [path]       show / change directory'',
      S ''  ls [path]             list directory'',
      S ''  cat <path>            write file to stdout (raw bytes)'',
      S ''  cp <path> <local>     copy file out of the image'',
      S ''  boot                  show boot entries on the current partition'',
      S ''  help                  this text'',
      S ''  exit                  quit (also Ctrl-D)'',
      S ''paths may be relative, absolute, or pN:/... URIs (any partition)'']"

definition part_line :: "nat \<Rightarrow> nat \<times> part_fs \<Rightarrow> str" where
  "part_line current x =
     (case x of (i, p, fs) \<Rightarrow>
        (if i = current then S ''*'' else S '' '') @ S '' p'' @ show_nat (p_index p) @ S ''  '' @
        pad_left 10 (human_size (p_size_bytes p)) @ S ''  '' @ pad_right 8 (fs_type fs) @ S '' '' @ p_kind p @
        (case fs_label fs of Some l \<Rightarrow> S '' label='' @ l | None \<Rightarrow> []))"

definition list_parts :: "part_fs list \<Rightarrow> nat \<Rightarrow> unit cmd" where
  "list_parts fss current = say_lines (map (part_line current) (enumerate 0 fss))"

definition place :: "partition \<Rightarrow> str \<Rightarrow> str" where
  "place p cwd = S ''p'' @ show_nat (p_index p) @ S '':'' @ cwd"

definition show_boot :: "part_fs \<Rightarrow> unit cmd" where
  "show_boot pf =
     (case pf of (p, fs) \<Rightarrow>
        cbind (clift (boot_scan_fs fs)) (\<lambda>scan.
          if bs_entries scan = []
          then cfail (Message (S ''no boot entries on partition '' @ show_nat (p_index p)))
          else ceach (\<lambda>(i, e). cthen (say (entry_heading scan i e)) (print_entry (p_index p) e None))
                 (enumerate 0 (bs_entries scan))))"

section \<open>The loop\<close>

record shell_state =
  sh_current :: nat
  sh_cwd :: str

definition shell_initial :: shell_state where
  "shell_initial = \<lparr>sh_current = 0, sh_cwd = S ''/''\<rparr>"

text \<open>
  What a line comes to: the loop ends, or goes on in a state, with the error of the command to report, if
  any. A failure of the step itself (\<open>?\<close>, or a panic) is one of the whole shell.
\<close>

datatype line_result = Quit | Continue shell_state "failure option"

definition cdone :: "shell_state \<Rightarrow> line_result cmd" where
  "cdone st = cret (Continue st None)"

definition crefuse :: "shell_state \<Rightarrow> failure \<Rightarrow> line_result cmd" where
  "crefuse st f = (if f = Lib Panic then cfail f else cret (Continue st (Some f)))"

text \<open>A command whose failure becomes the result of the line.\<close>

definition creport :: "shell_state \<Rightarrow> unit cmd \<Rightarrow> line_result cmd" where
  "creport st m h = (case m h of (Inl f, h) \<Rightarrow> crefuse st f h | (Inr _, h) \<Rightarrow> cdone st h)"

definition csum :: "failure + 'a \<Rightarrow> 'a cmd" where
  "csum r = (case r of Inl f \<Rightarrow> cfail f | Inr x \<Rightarrow> cret x)"

definition shell_cd :: "part_fs list \<Rightarrow> shell_state \<Rightarrow> str list \<Rightarrow> line_result cmd" where
  "shell_cd fss st rest =
     (let target = resolve (sh_cwd st) (unwrap_or (get rest 0) (S ''/''))
      in cbind (csum (current_fs fss (sh_current st))) (\<lambda>(_, fs).
           case fs_read_dir fs target of
             Inr _ \<Rightarrow> cdone (st\<lparr>sh_cwd := target\<rparr>)
           | Inl e \<Rightarrow> crefuse st (if e = Panic then Lib Panic else Message (target @ S '': not a directory''))))"

definition shell_ls :: "part_fs list \<Rightarrow> shell_state \<Rightarrow> str list \<Rightarrow> line_result cmd" where
  "shell_ls fss st rest =
     cbind (csum (locate fss (sh_current st) (sh_cwd st) (unwrap_or (get rest 0) (S ''.'')))) (\<lambda>(fs, path).
       creport st (cbind (clift (fs_read_dir fs path)) print_listing))"

definition shell_cat :: "part_fs list \<Rightarrow> shell_state \<Rightarrow> str \<Rightarrow> line_result cmd" where
  "shell_cat fss st path =
     cbind (csum (locate fss (sh_current st) (sh_cwd st) path)) (\<lambda>(fs, path).
       creport st (cbind (clift (fs_read_file fs path)) (\<lambda>data.
         cthen (put data) (if ends_with [10] data then cret () else say []))))"

definition shell_cp :: "'z tools \<Rightarrow> part_fs list \<Rightarrow> shell_state \<Rightarrow> str \<Rightarrow> str \<Rightarrow> line_result cmd" where
  "shell_cp ts fss st src dest =
     cbind (csum (locate fss (sh_current st) (sh_cwd st) src)) (\<lambda>(fs, path).
       creport st (cbind (clift (fs_read_file fs path)) (\<lambda>data.
         cbind (write_dest ts dest path data) (\<lambda>written.
           say (written @ S '' ('' @ human_size (of_nat (length data)) @ S '')'')))))"

definition shell_use :: "part_fs list \<Rightarrow> shell_state \<Rightarrow> str \<Rightarrow> line_result cmd" where
  "shell_use fss st which =
     (case switch_part fss which of
        Inr i \<Rightarrow> cdone (st\<lparr>sh_current := i, sh_cwd := S ''/''\<rparr>)
      | Inl f \<Rightarrow> crefuse st f)"

definition shell_command ::
  "'z tools \<Rightarrow> part_fs list \<Rightarrow> shell_state \<Rightarrow> str \<Rightarrow> str list \<Rightarrow> line_result cmd" where
  "shell_command ts fss st cmd rest =
     (if cmd = S ''help'' \<or> cmd = S ''?'' then creport st (say_lines HELP)
      else if cmd = S ''exit'' \<or> cmd = S ''quit'' \<or> cmd = S ''q'' then cret Quit
      else if cmd = S ''parts'' then creport st (list_parts fss (sh_current st))
      else if cmd = S ''use'' \<and> length rest = 1 then shell_use fss st (rest ! 0)
      else if cmd = S ''pwd'' then
        cbind (csum (current_fs fss (sh_current st))) (\<lambda>(p, _). creport st (say (place p (sh_cwd st))))
      else if cmd = S ''cd'' then shell_cd fss st rest
      else if cmd = S ''ls'' then shell_ls fss st rest
      else if cmd = S ''cat'' \<and> length rest = 1 then shell_cat fss st (rest ! 0)
      else if cmd = S ''cp'' \<and> length rest = 2 then shell_cp ts fss st (rest ! 0) (rest ! 1)
      else if cmd = S ''boot'' \<or> cmd = S ''entries'' then
        cbind (csum (current_fs fss (sh_current st))) (\<lambda>pf. creport st (show_boot pf))
      else if cmd = S ''cat'' then crefuse st (Message (S ''usage: cat <path>''))
      else if cmd = S ''cp'' then crefuse st (Message (S ''usage: cp <path> <local dest>''))
      else if cmd = S ''use'' then crefuse st (Message (S ''usage: use <N|pN>''))
      else crefuse st (Message (S ''unknown command '' @ [39] @ cmd @ [39, 32, 0x2014, 32] @ S ''try '' @ [39] @
        S ''help'' @ [39])))"

definition shell_line ::
  "'z tools \<Rightarrow> part_fs list \<Rightarrow> shell_state \<Rightarrow> str \<Rightarrow> line_result cmd" where
  "shell_line ts fss st line =
     (case split_whitespace line of
        [] \<Rightarrow> cdone st
      | cmd # rest \<Rightarrow> shell_command ts fss st cmd rest)"

definition prompt :: "part_fs list \<Rightarrow> shell_state \<Rightarrow> unit cmd" where
  "prompt fss st =
     cbind (csum (current_fs fss (sh_current st))) (\<lambda>(p, _).
       put (as_bytes (S ''lbx '' @ place p (sh_cwd st) @ S ''> '')))"

definition report :: "failure option \<Rightarrow> unit cmd" where
  "report f h = (Inr (), case f of Some f \<Rightarrow> h\<lparr>ho_err := ho_err h @ [f]\<rparr> | None \<Rightarrow> h)"

fun shell_loop :: "'z tools \<Rightarrow> part_fs list \<Rightarrow> (unit + str) list \<Rightarrow> shell_state \<Rightarrow> unit cmd" where
  "shell_loop ts fss [] st = cthen (prompt fss st) (say [])"
| "shell_loop ts fss (line # ls) st =
     cthen (prompt fss st)
       (case line of
          Inl _ \<Rightarrow> cfail OsFailed
        | Inr line \<Rightarrow>
            cbind (shell_line ts fss st line) (\<lambda>r. case r of
              Quit \<Rightarrow> cret ()
            | Continue st f \<Rightarrow> cthen (report f) (shell_loop ts fss ls st)))"

definition shell_run :: "'z tools \<Rightarrow> part_fs list \<Rightarrow> (unit + str) list \<Rightarrow> unit cmd" where
  "shell_run ts fss input =
     cthen (say (S ''lbx interactive shell '' @ [0x2014] @ S '' '' @ [39] @ S ''help'' @ [39] @ S '' for commands, '' @
              [39] @ S ''exit'' @ [39] @ S '' to quit''))
     (cthen (list_parts fss 0) (shell_loop ts fss input shell_initial))"

section \<open>The commands\<close>

datatype command =
    Info str
  | BootInfo str bool
  | Entries str bool bool
  | Compat str bool
  | Ls str str "nat option"
  | Cat str str "nat option"
  | Cp str str str "nat option" bool
  | Md5 str str "nat option" bool
  | Extract str str "nat option" bool bool bool
  | ShellCmd str

text \<open>\<open>main\<close> after the command line was read; the input is that of the shell.\<close>

fun run_command :: "'z tools \<Rightarrow> (unit + str) list \<Rightarrow> command \<Rightarrow> unit cmd" where
  "run_command ts input (Info img) = cmd_info ts img"
| "run_command ts input (BootInfo img json) = cmd_boot_info ts img json"
| "run_command ts input (Entries img json quick) = cmd_entries ts img json quick"
| "run_command ts input (Compat img json) = cmd_compat ts img json"
| "run_command ts input (Ls img path part) = cmd_ls ts img path part"
| "run_command ts input (Cat img path part) = cmd_cat ts img path part"
| "run_command ts input (Cp img source dest part decompress) = cmd_cp ts img source dest part decompress"
| "run_command ts input (Md5 img path part decompress) = cmd_md5 ts img path part decompress"
| "run_command ts input (Extract img output entry dry_run vdafix decompress) =
     cmd_extract ts img output entry dry_run vdafix decompress"
| "run_command ts input (ShellCmd img) =
     cbind (open_disk ts img) (\<lambda>disk.
     cbind (require_filesystems (tl_fs ts) (disk_dev (tl_inflate ts) disk) None) (\<lambda>fss.
       shell_run ts fss input))"

section \<open>Paths are normal\<close>

text \<open>A normal path: slashes in front of parts that are names.\<close>

definition is_name :: "str \<Rightarrow> bool" where
  "is_name w \<longleftrightarrow> w \<noteq> [] \<and> w \<noteq> S ''.'' \<and> w \<noteq> S ''..'' \<and> ch CHR ''/'' \<notin> set w"

definition normal_path :: "str \<Rightarrow> bool" where
  "normal_path s \<longleftrightarrow> (\<exists>ws. (\<forall>w \<in> set ws. is_name w) \<and> s = S ''/'' @ str_join (S ''/'') ws)"

lemma path_step_names:
  "\<forall>w \<in> set ws. is_name w \<Longrightarrow> ch CHR ''/'' \<notin> set seg \<Longrightarrow> \<forall>w \<in> set (path_step seg ws). is_name w"
  by (auto simp: path_step_def is_name_def dest: in_set_butlastD)

lemma path_steps_names:
  "\<forall>w \<in> set ws. is_name w \<Longrightarrow> \<forall>s \<in> set segs. ch CHR ''/'' \<notin> set s \<Longrightarrow>
   \<forall>w \<in> set (fold path_step segs ws). is_name w"
proof (induction segs arbitrary: ws)
  case (Cons seg segs)
  have "\<forall>w \<in> set (path_step seg ws). is_name w" by (rule path_step_names) (use Cons.prems in simp_all)
  from Cons.IH [OF this] Cons.prems(2) show ?case by simp
qed simp

lemma split_on_segments: "s \<in> set (split_on c t) \<Longrightarrow> c \<notin> set s"
  using split_by_no_sep [of s "\<lambda>x. x = c" t c] by blast

lemma path_parts_names: "\<forall>w \<in> set (path_parts cwd input). is_name w"
  unfolding path_parts_def Let_def by (rule path_steps_names) (auto dest: split_on_segments)

lemma resolve_normal: "normal_path (resolve cwd input)"
  using path_parts_names unfolding normal_path_def resolve_def by blast

lemma root_normal: "normal_path (S ''/'')"
  unfolding normal_path_def by (rule exI [of _ "[]"]) simp

section \<open>What a line can do\<close>

text \<open>A command that does not panic.\<close>

definition calm :: "'a cmd \<Rightarrow> bool" where
  "calm m \<longleftrightarrow> (\<forall>h. fst (m h) \<noteq> Inl (Lib Panic))"

lemma prints_list_parts [simp]: "prints (list_parts fss i)"
  by (simp add: list_parts_def)

lemma calm_prints: "prints m \<Longrightarrow> calm m"
  unfolding prints_def calm_def by (metis Inl_Inr_False fst_conv)

lemma calm_cret [simp]: "calm (cret x)"
  by (simp add: calm_def cret_def)

lemma calm_cfail [simp]: "calm (cfail f) \<longleftrightarrow> f \<noteq> Lib Panic"
  by (simp add: calm_def cfail_def)

lemma calm_clift [simp]: "calm (clift r) \<longleftrightarrow> r \<noteq> Err Panic"
  by (cases r) (simp_all add: clift_def)

lemma calm_cbind:
  assumes "calm m" and "\<And>x. calm (k x)"
  shows "calm (cbind m k)"
  unfolding calm_def
proof
  fix h
  obtain r h' where m: "m h = (r, h')" by (cases "m h")
  then have "r \<noteq> Inl (Lib Panic)" using assms(1) unfolding calm_def by (metis fst_conv)
  then show "fst (cbind m k h) \<noteq> Inl (Lib Panic)"
    using m assms(2) by (cases r) (simp_all add: cbind_def calm_def)
qed

lemma calm_cthen: "calm m \<Longrightarrow> calm k \<Longrightarrow> calm (cthen m k)"
  by (simp add: cthen_def calm_cbind)

lemma calm_write_dest [simp]: "calm (write_dest ts dest path data)"
  by (simp add: calm_def write_dest_def Let_def split: prod.split sum.split)

lemmas calm_intros = calm_cbind calm_cthen

lemma calm_simps [simp]:
  "calm (put bs)" "calm (say s)" "calm (say_lines ls)" "calm (print_entry part e fixed)" "calm (print_listing es)"
  "calm (list_parts fss i)"
  by (simp_all add: calm_prints)

lemma creport_calm: "calm m \<Longrightarrow> \<exists>f h'. creport st m h = (Inr (Continue st f), h')"
  unfolding calm_def creport_def by (drule spec [of _ h]) (auto simp: crefuse_def cdone_def cret_def split: prod.split sum.split)

section \<open>The session\<close>

definition calm_fs :: "part_fs list \<Rightarrow> bool" where
  "calm_fs fss \<longleftrightarrow>
     (\<forall>(p, fs) \<in> set fss. \<forall>path. fs_read_dir fs path \<noteq> Err Panic \<and> fs_read_file fs path \<noteq> Err Panic)"

text \<open>Where a session may stand: at a filesystem it has, in a normal path that could be listed there.\<close>

definition place_ok :: "part_fs list \<Rightarrow> shell_state \<Rightarrow> bool" where
  "place_ok fss st \<longleftrightarrow>
     sh_current st < length fss \<and> normal_path (sh_cwd st) \<and>
     (sh_cwd st = S ''/'' \<or> (\<exists>es. fs_read_dir (snd (fss ! sh_current st)) (sh_cwd st) = Ok es))"

definition quits :: "str \<Rightarrow> bool" where
  "quits line \<longleftrightarrow>
     (case split_whitespace line of
        [] \<Rightarrow> False
      | cmd # _ \<Rightarrow> cmd \<in> {S ''exit'', S ''quit'', S ''q''})"

text \<open>The path that a line makes the shell look up, and the partition without filesystem it may name.\<close>

definition looked_up :: "str \<Rightarrow> str option" where
  "looked_up line =
     (case split_whitespace line of
        [] \<Rightarrow> None
      | cmd # rest \<Rightarrow>
          if cmd = S ''ls'' then Some (unwrap_or (get rest 0) (S ''.''))
          else if cmd = S ''cat'' \<and> length rest = 1 \<or> cmd = S ''cp'' \<and> length rest = 2 then Some (rest ! 0)
          else None)"

definition names_unknown :: "part_fs list \<Rightarrow> str \<Rightarrow> nat option" where
  "names_unknown fss line =
     Option.bind (looked_up line) (\<lambda>a. Option.bind (fst (parse_uri a)) (\<lambda>n.
       if find_part n fss = None then Some n else None))"

text \<open>How a session ends, by its input alone.\<close>

fun shell_end :: "part_fs list \<Rightarrow> (unit + str) list \<Rightarrow> failure + unit" where
  "shell_end fss [] = Inr ()"
| "shell_end fss (Inl _ # ls) = Inl OsFailed"
| "shell_end fss (Inr line # ls) =
     (if quits line then Inr ()
      else case names_unknown fss line of
             Some n \<Rightarrow> Inl (no_filesystem n)
           | None \<Rightarrow> shell_end fss ls)"

lemma current_fs_ok: "i < length fss \<Longrightarrow> current_fs fss i = Inr (fss ! i)"
  by (simp add: current_fs_def get_def)

lemma find_part_in: "find_part n fss = Some pf \<Longrightarrow> pf \<in> set fss"
  by (simp add: find_part_def find_Some_in)

lemma locate_cases:
  assumes "i < length fss"
  shows "case Option.bind (fst (parse_uri input)) (\<lambda>n. if find_part n fss = None then Some n else None) of
      Some n \<Rightarrow> locate fss i cwd input = Inl (no_filesystem n)
    | None \<Rightarrow> (\<exists>p fs path. (p, fs) \<in> set fss \<and> locate fss i cwd input = Inr (fs, path))"
proof -
  obtain only path where u: "parse_uri input = (only, path)" by (cases "parse_uri input")
  obtain p fs where pf: "fss ! i = (p, fs)" by (cases "fss ! i")
  have "(p, fs) \<in> set fss" using assms pf by (metis nth_mem)
  with u pf show ?thesis
    by (cases only) (auto simp: locate_def current_fs_ok [OF assms] dest!: find_part_in split: option.splits)
qed

lemma cbind_csum [simp]: "cbind (csum (Inr x)) k = k x" "cbind (csum (Inl f)) k = cfail f"
  by (simp_all add: csum_def cbind_def cret_def cfail_def fun_eq_iff)

definition goes_on :: "part_fs list \<Rightarrow> line_result cmd \<Rightarrow> bool" where
  "goes_on fss m \<longleftrightarrow> (\<forall>h. \<exists>st f h'. m h = (Inr (Continue st f), h') \<and> place_ok fss st)"

lemma goes_on_creport: "calm m \<Longrightarrow> place_ok fss st \<Longrightarrow> goes_on fss (creport st m)"
  using creport_calm by (fastforce simp: goes_on_def)

lemma goes_on_crefuse: "f \<noteq> Lib Panic \<Longrightarrow> place_ok fss st \<Longrightarrow> goes_on fss (crefuse st f)"
  by (simp add: goes_on_def crefuse_def cret_def)

lemma goes_on_cdone: "place_ok fss st \<Longrightarrow> goes_on fss (cdone st)"
  by (simp add: goes_on_def cdone_def cret_def)

lemma goes_on_if:
  "(c \<Longrightarrow> goes_on fss a) \<Longrightarrow> (\<not> c \<Longrightarrow> goes_on fss b) \<Longrightarrow> goes_on fss (if c then a else b)"
  by simp

lemma goes_on_cd:
  assumes "place_ok fss st" and "calm_fs fss"
  shows "goes_on fss (shell_cd fss st rest)"
proof -
  have i: "sh_current st < length fss" using assms(1) by (simp add: place_ok_def)
  let ?target = "resolve (sh_cwd st) (unwrap_or (get rest 0) (S ''/''))"
  obtain p fs where pf: "fss ! sh_current st = (p, fs)" by (cases "fss ! sh_current st")
  show ?thesis
  proof (cases "fs_read_dir fs ?target")
    case (Inl e)
    have "(p, fs) \<in> set fss" using i pf by (metis nth_mem)
    with assms(2) Inl have "e \<noteq> Panic" by (auto simp: calm_fs_def)
    with Inl pf show ?thesis
      by (simp add: shell_cd_def Let_def current_fs_ok [OF i] goes_on_crefuse [OF _ assms(1)])
  next
    case (Inr es)
    then have "place_ok fss (st\<lparr>sh_cwd := ?target\<rparr>)"
      using i pf resolve_normal by (simp add: place_ok_def)
    with Inr pf show ?thesis
      by (simp add: shell_cd_def Let_def current_fs_ok [OF i] goes_on_cdone)
  qed
qed

lemma goes_on_use: "place_ok fss st \<Longrightarrow> goes_on fss (shell_use fss st which)"
  using root_normal
  by (auto simp: shell_use_def switch_part_def no_filesystem_def place_ok_def intro!: goes_on_crefuse goes_on_cdone
      dest!: position_lt split: option.split)

text \<open>A command on a path that was looked up.\<close>

lemma lookup_step:
  assumes "place_ok fss st"
    and "\<forall>p fs path. (p, fs) \<in> set fss \<longrightarrow> calm (m fs path)"
  shows "case Option.bind (fst (parse_uri input)) (\<lambda>n. if find_part n fss = None then Some n else None) of
      Some n \<Rightarrow> cbind (csum (locate fss (sh_current st) (sh_cwd st) input)) (\<lambda>(fs, path). creport st (m fs path)) =
        cfail (no_filesystem n)
    | None \<Rightarrow> goes_on fss (cbind (csum (locate fss (sh_current st) (sh_cwd st) input)) (\<lambda>(fs, path). creport st (m fs path)))"
proof -
  have i: "sh_current st < length fss" using assms(1) by (simp add: place_ok_def)
  note found = locate_cases [OF i, where input = input and cwd = "sh_cwd st"]
  show ?thesis
  proof (cases "Option.bind (fst (parse_uri input)) (\<lambda>n. if find_part n fss = None then Some n else None)")
    case None
    with found obtain p fs path where l: "(p, fs) \<in> set fss"
      "locate fss (sh_current st) (sh_cwd st) input = Inr (fs, path)" by auto
    with assms(2) have "calm (m fs path)" by blast
    from goes_on_creport [OF this assms(1)] show ?thesis by (simp add: None l(2))
  next
    case (Some n)
    with found show ?thesis by simp
  qed
qed

lemma calm_fsD:
  "calm_fs fss \<Longrightarrow> (p, fs) \<in> set fss \<Longrightarrow> fs_read_dir fs path \<noteq> Err Panic"
  "calm_fs fss \<Longrightarrow> (p, fs) \<in> set fss \<Longrightarrow> fs_read_file fs path \<noteq> Err Panic"
  by (auto simp: calm_fs_def)

lemma calm_show_boot [simp]: "calm (show_boot pf)"
proof -
  obtain p fs where pf: "pf = (p, fs)" by (cases pf)
  obtain s where "boot_scan_fs fs = Ok s" by (rule boot_scan_fs_choice [of fs])
  then show ?thesis
    unfolding show_boot_def pf prod.case
    by (intro calm_cbind) (auto intro!: calm_prints prints_ceach prints_cthen)
qed

lemma shell_line_result:
  assumes "place_ok fss st" and "calm_fs fss"
  shows "if quits line then shell_line ts fss st line = cret Quit
    else case names_unknown fss line of
           Some n \<Rightarrow> shell_line ts fss st line = cfail (no_filesystem n)
         | None \<Rightarrow> goes_on fss (shell_line ts fss st line)"
proof (cases "split_whitespace line")
  case Nil
  then show ?thesis using assms(1)
    by (simp add: shell_line_def quits_def names_unknown_def looked_up_def goes_on_cdone)
next
  case (Cons cmd rest)
  have i: "sh_current st < length fss" using assms(1) by (simp add: place_ok_def)
  obtain p fs where pf: "fss ! sh_current st = (p, fs)" by (cases "fss ! sh_current st")
  have q: "quits line \<longleftrightarrow> cmd \<in> {S ''exit'', S ''quit'', S ''q''}" by (simp add: quits_def Cons)
  have s: "shell_line ts fss st line = shell_command ts fss st cmd rest" by (simp add: shell_line_def Cons)
  have plain: ?thesis if "looked_up line = None" "\<not> quits line" "goes_on fss (shell_command ts fss st cmd rest)"
    using that s by (simp add: names_unknown_def)
  have lookup: ?thesis if "looked_up line = Some a" "\<not> quits line"
      "shell_command ts fss st cmd rest =
         cbind (csum (locate fss (sh_current st) (sh_cwd st) a)) (\<lambda>(fs, path). creport st (m fs path))"
      "\<forall>p fs path. (p, fs) \<in> set fss \<longrightarrow> calm (m fs path)" for a m
  proof -
    have n: "names_unknown fss line =
        Option.bind (fst (parse_uri a)) (\<lambda>n. if find_part n fss = None then Some n else None)"
      using that(1) by (simp add: names_unknown_def)
    show ?thesis unfolding n s that(3) using lookup_step [OF assms(1) that(4), where input = a] that(2)
      by (simp only: if_False)
  qed
  note look = looked_up_def Cons
  consider (quit) "cmd \<in> {S ''exit'', S ''quit'', S ''q''}" | (ls) "cmd = S ''ls''"
    | (cat) "cmd = S ''cat''" "length rest = 1" | (cp) "cmd = S ''cp''" "length rest = 2"
    | (other) "cmd \<notin> {S ''exit'', S ''quit'', S ''q''}" "cmd \<noteq> S ''ls''"
        "\<not> (cmd = S ''cat'' \<and> length rest = 1)" "\<not> (cmd = S ''cp'' \<and> length rest = 2)"
    by blast
  then show ?thesis
  proof cases
    case quit
    then show ?thesis using q s by (auto simp: shell_command_def)
  next
    case ls
    then show ?thesis
      by (intro lookup [where m = "\<lambda>fs path. cbind (clift (fs_read_dir fs path)) print_listing"])
        (auto simp: look q shell_command_def shell_ls_def intro!: calm_intros dest: calm_fsD [OF assms(2)])
  next
    case cat
    then show ?thesis
      by (intro lookup [where m = "\<lambda>fs path. cbind (clift (fs_read_file fs path)) (\<lambda>data.
            cthen (put data) (if ends_with [10] data then cret () else say []))"])
        (auto simp: look q shell_command_def shell_cat_def intro!: calm_intros dest: calm_fsD [OF assms(2)])
  next
    case cp
    then show ?thesis
      by (intro lookup [where m = "\<lambda>fs path. cbind (clift (fs_read_file fs path)) (\<lambda>data.
            cbind (write_dest ts (rest ! 1) path data) (\<lambda>written.
              say (written @ S '' ('' @ human_size (of_nat (length data)) @ S '')'')))"])
        (auto simp: look q shell_command_def shell_cp_def intro!: calm_intros dest: calm_fsD [OF assms(2)])
  next
    case other
    then have "looked_up line = None" "\<not> quits line" by (auto simp: look q)
    moreover have "goes_on fss (shell_command ts fss st cmd rest)"
      unfolding shell_command_def current_fs_ok [OF i] pf cbind_csum prod.case
      by (intro goes_on_if goes_on_creport [OF _ assms(1)] goes_on_crefuse [OF _ assms(1)]
          goes_on_cd [OF assms] goes_on_use [OF assms(1)])
        (use other in simp_all)
    ultimately show ?thesis by (rule plain)
  qed
qed

lemma prompt_ok: "place_ok fss st \<Longrightarrow> prints (prompt fss st)"
  by (cases "fss ! sh_current st") (simp add: place_ok_def prompt_def current_fs_ok)

lemma shell_loop_end:
  "place_ok fss st \<Longrightarrow> calm_fs fss \<Longrightarrow> fst (shell_loop ts fss input st h) = shell_end fss input"
proof (induction input arbitrary: st h)
  case Nil
  then show ?case by (simp add: fst_cthen prompt_ok prints_fst)
next
  case (Cons line ls)
  show ?case
  proof (cases line)
    case (Inl u)
    have "fst (cthen (prompt fss st) (cfail OsFailed) h) = Inl OsFailed"
      by (intro fst_cthen prompt_ok Cons.prems) (simp add: cfail_def)
    with Inl show ?thesis by simp
  next
    case (Inr l)
    define rest where "rest = cbind (shell_line ts fss st l) (\<lambda>r. case r of
      Quit \<Rightarrow> cret () | Continue st f \<Rightarrow> cthen (report f) (shell_loop ts fss ls st))"
    obtain h' where h': "shell_loop ts fss (line # ls) st h = rest h'"
      using cthen_prints [OF prompt_ok [OF Cons.prems(1)], of rest h] Inr by (auto simp: rest_def)
    note result = shell_line_result [OF Cons.prems, where ts = ts and line = l]
    consider (quit) "quits l" | (unknown) n where "\<not> quits l" "names_unknown fss l = Some n"
      | (on) "\<not> quits l" "names_unknown fss l = None" by blast
    then show ?thesis
    proof cases
      case quit
      with result h' Inr show ?thesis by (simp add: rest_def cbind_def cret_def)
    next
      case unknown
      with result h' Inr show ?thesis by (simp add: rest_def cbind_def cfail_def)
    next
      case on
      with result have "goes_on fss (shell_line ts fss st l)" by simp
      then obtain st' f h'' where "shell_line ts fss st l h' = (Inr (Continue st' f), h'')" "place_ok fss st'"
        unfolding goes_on_def by blast
      then have "fst (rest h') = shell_end fss ls"
        using Cons.IH [OF _ Cons.prems(2)] by (simp add: rest_def cbind_def cthen_def report_def)
      with on h' Inr show ?thesis by simp
    qed
  qed
qed

text \<open>
  C40: a session of the shell always stands at a filesystem of the image, in a normal absolute path that could be
  listed there; no line makes it panic, and every failed command is reported and leaves the session going, with one
  exception: \<open>ls\<close>, \<open>cat\<close> or \<open>cp\<close> of a \<open>pN:\<close> URI that names a partition without readable filesystem ends
  the whole shell with that error. Else it ends at \<open>exit\<close>, at the end of the input, or when the input
  cannot be read.
\<close>

theorem shell_session:
  assumes "fss \<noteq> []" and "calm_fs fss"
  shows "fst (shell_run ts fss input h) = shell_end fss input \<and> place_ok fss shell_initial \<and>
    (\<forall>st line h st' f h'. place_ok fss st \<longrightarrow> shell_line ts fss st line h = (Inr (Continue st' f), h') \<longrightarrow>
       place_ok fss st')"
proof (intro conjI allI impI)
  show init: "place_ok fss shell_initial"
    using assms(1) root_normal by (simp add: place_ok_def shell_initial_def)
  show "fst (shell_run ts fss input h) = shell_end fss input"
    unfolding shell_run_def by (intro fst_cthen prints_say prints_list_parts shell_loop_end [OF init assms(2)])
  fix st line h st' f h'
  assume ok: "place_ok fss st" and l: "shell_line ts fss st line h = (Inr (Continue st' f), h')"
  have "\<not> quits line" "names_unknown fss line = None"
    using shell_line_result [OF ok assms(2), where ts = ts and line = line] l
    by (auto simp: cret_def cfail_def split: if_splits option.splits)
  with shell_line_result [OF ok assms(2), where ts = ts and line = line]
  have "goes_on fss (shell_line ts fss st line)" by simp
  with l show "place_ok fss st'" unfolding goes_on_def by (metis Pair_inject Inr_inject line_result.inject)
qed

definition one_part :: "part_fs list" where
  "one_part = [(\<lparr>p_index = 1, p_start_byte = 0, p_size_bytes = 0, p_kind = [], p_type_id = [], p_name = None,
    p_probe_worthy = True, p_part_uuid = None\<rparr>, one_kernel)]"

lemma shell_session_witness:
  "fst (shell_run small_tools one_part [Inr (S ''cat nothing''), Inr (S ''ls p9:/''), Inr (S ''exit'')] empty_host) =
   Inl (no_filesystem 9)"
proof -
  have "calm_fs one_part" by (simp add: calm_fs_def one_part_def one_kernel_def)
  moreover have "shell_end one_part [Inr (S ''cat nothing''), Inr (S ''ls p9:/''), Inr (S ''exit'')] =
      Inl (no_filesystem 9)"
    by code_simp
  ultimately show ?thesis
    using shell_session [of one_part small_tools] by (simp add: one_part_def)
qed

end
